(* ===== verification/Runtime_Base.thy ===== *)
theory Runtime_Base
  imports Main "HOL-Library.Word" "HOL-Library.Product_Lexorder"
begin

text \<open>
  Shared vocabulary of the development: the values the runtime passes around
  (\<open>Poll\<close>, \<open>io::Result\<close>, panics, instants and durations, thread and file
  descriptor numbers), the part of \<open>BTreeMap\<close> that the timer queue and the reactor
  use, and the two contracts that recur in the code: the ordered map
  (\<open>btree_map\<close>) and the once-only notification flag (\<open>once_flag\<close>).
\<close>

named_theorems rt_defs \<open>definitions of the runtime's operations\<close>
named_theorems rt_inv \<open>operations preserve their component's invariant\<close>

section \<open>Values\<close>

text \<open>\<open>core::task::Poll\<close>.\<close>

datatype 'a poll = Ready 'a | Pending

text \<open>
  \<open>io::Error\<close> with the kinds the code distinguishes; every other kind is an
  operating system error with its number.
\<close>

datatype io_error = WouldBlock | InProgress | TimedOut_kind | Os nat | Other string

text \<open>
  The outcome of an operation: its value, an \<open>io::Error\<close>, or a panic with its
  message (\<open>expect\<close>, \<open>unwrap\<close>, \<open>assert_ne!\<close>, arithmetic overflow).
\<close>

datatype 'a res = Ok 'a | Err io_error | Panic string

fun bind_res :: "'a res \<Rightarrow> ('a \<Rightarrow> 'b res) \<Rightarrow> 'b res" where
  "bind_res (Ok a) f = f a"
| "bind_res (Err e) f = Err e"
| "bind_res (Panic m) f = Panic m"

fun is_panic :: "'a res \<Rightarrow> bool" where
  "is_panic (Panic m) = True"
| "is_panic (Ok a) = False"
| "is_panic (Err e) = False"

type_synonym usize = "64 word"
type_synonym fd = int
type_synonym thread_id = nat

text \<open>
  \<open>Duration\<close> and \<open>Instant\<close> in nanoseconds. A \<open>Duration\<close> is a \<open>u64\<close> number of
  seconds and a nanosecond part, an \<open>Instant\<close> an \<open>i64\<close> number of seconds and a
  nanosecond part; \<open>Instant + Duration\<close> panics when the sum has no representation.
\<close>

type_synonym duration = nat
type_synonym instant = int

definition NANOS :: nat where
  "NANOS = 1000000000"

definition INSTANT_MAX :: instant where
  "INSTANT_MAX = 2 ^ 63 * int NANOS - 1"

definition instant_add :: "instant \<Rightarrow> duration \<Rightarrow> instant res" where
  "instant_add i d =
     (if i + int d \<le> INSTANT_MAX then Ok (i + int d)
      else Panic ''overflow when adding duration to instant'')"

definition saturating_duration_since :: "instant \<Rightarrow> instant \<Rightarrow> duration" where
  "saturating_duration_since e now = nat (e - now)"

lemma saturating_duration_since_zero [simp]:
  "saturating_duration_since e now = 0 \<longleftrightarrow> e \<le> now"
  by (simp add: saturating_duration_since_def)

lemma saturating_duration_since_pos:
  "now < e \<Longrightarrow> now + int (saturating_duration_since e now) = e"
  by (simp add: saturating_duration_since_def)

section \<open>Ordered maps\<close>

text \<open>
  The contract of \<open>std::collections::BTreeMap\<close> as the code relies on it: \<open>insert\<close>
  and \<open>remove\<close> return the previous value, \<open>first\<close> is the entry of the least key,
  and a map is determined by its entries.
\<close>

locale btree_map =
  fixes lookup :: "'m \<Rightarrow> 'k::linorder \<Rightarrow> 'v option"
    and insert :: "'k \<Rightarrow> 'v \<Rightarrow> 'm \<Rightarrow> 'v option \<times> 'm"
    and remove :: "'k \<Rightarrow> 'm \<Rightarrow> 'v option \<times> 'm"
    and first :: "'m \<Rightarrow> ('k \<times> 'v) option"
    and ok :: "'m \<Rightarrow> bool"
  assumes insert_old: "ok m \<Longrightarrow> fst (insert k v m) = lookup m k"
    and insert_lookup: "ok m \<Longrightarrow> lookup (snd (insert k v m)) = (lookup m)(k \<mapsto> v)"
    and insert_ok: "ok m \<Longrightarrow> ok (snd (insert k v m))"
    and remove_old: "ok m \<Longrightarrow> fst (remove k m) = lookup m k"
    and remove_lookup: "ok m \<Longrightarrow> lookup (snd (remove k m)) = (lookup m)(k := None)"
    and remove_ok: "ok m \<Longrightarrow> ok (snd (remove k m))"
    and first_least: "ok m \<Longrightarrow> first m = Some (k, v) \<Longrightarrow>
          lookup m k = Some v \<and> (\<forall>k'. lookup m k' \<noteq> None \<longrightarrow> k \<le> k')"
    and first_none: "ok m \<Longrightarrow> first m = None \<Longrightarrow> lookup m k = None"
    and extensional: "ok m \<Longrightarrow> ok m' \<Longrightarrow> lookup m = lookup m' \<Longrightarrow> m = m'"
begin

text \<open>
  The code's ``insert, and put the previous value back when there was one'' leaves the
  map as it was, and the second insertion hands the new value back.
\<close>

lemma insert_restore:
  assumes "ok m" and "insert k v m = (Some p, m')"
  shows "insert k p m' = (Some v, m)"
proof -
  have ok': "ok m'" and lk: "lookup m' = (lookup m)(k \<mapsto> v)" and old: "lookup m k = Some p"
    using insert_ok [OF assms(1), of k v] insert_lookup [OF assms(1), of k v]
      insert_old [OF assms(1), of k v] assms(2) by simp_all
  have "lookup (snd (insert k p m')) = lookup m"
    using insert_lookup [OF ok', of k p] lk old by (simp add: fun_upd_idem)
  then have "snd (insert k p m') = m"
    using extensional insert_ok [OF ok'] assms(1) by blast
  moreover have "fst (insert k p m') = Some v"
    using insert_old [OF ok', of k p] lk by simp
  ultimately show ?thesis by (metis prod.collapse)
qed

lemma insert_remove:
  assumes "ok m" and "insert k v m = (None, m')"
  shows "remove k m' = (Some v, m)"
proof -
  have ok': "ok m'" and lk: "lookup m' = (lookup m)(k \<mapsto> v)" and old: "lookup m k = None"
    using insert_ok [OF assms(1), of k v] insert_lookup [OF assms(1), of k v]
      insert_old [OF assms(1), of k v] assms(2) by simp_all
  have "lookup (snd (remove k m')) = lookup m"
    using remove_lookup [OF ok', of k] lk old by (simp add: fun_upd_idem)
  then have "snd (remove k m') = m"
    using extensional remove_ok [OF ok'] assms(1) by blast
  moreover have "fst (remove k m') = Some v"
    using remove_old [OF ok', of k] lk by simp
  ultimately show ?thesis by (metis prod.collapse)
qed

end

text \<open>The map as the list of its entries in ascending key order.\<close>

type_synonym ('k, 'v) btree = "('k \<times> 'v) list"

definition bt_ok :: "('k::linorder, 'v) btree \<Rightarrow> bool" where
  "bt_ok m \<longleftrightarrow> sorted_wrt (<) (map fst m)"

definition bt_put :: "'k::linorder \<Rightarrow> 'v \<Rightarrow> ('k, 'v) btree \<Rightarrow> ('k, 'v) btree" where
  "bt_put k v m = filter (\<lambda>e. fst e < k) m @ (k, v) # filter (\<lambda>e. k < fst e) m"

definition bt_del :: "'k::linorder \<Rightarrow> ('k, 'v) btree \<Rightarrow> ('k, 'v) btree" where
  "bt_del k m = filter (\<lambda>e. fst e \<noteq> k) m"

definition bt_insert :: "'k::linorder \<Rightarrow> 'v \<Rightarrow> ('k, 'v) btree \<Rightarrow> 'v option \<times> ('k, 'v) btree" where
  "bt_insert k v m = (map_of m k, bt_put k v m)"

definition bt_remove :: "'k::linorder \<Rightarrow> ('k, 'v) btree \<Rightarrow> 'v option \<times> ('k, 'v) btree" where
  "bt_remove k m = (map_of m k, bt_del k m)"

definition bt_first :: "('k, 'v) btree \<Rightarrow> ('k \<times> 'v) option" where
  "bt_first m = (case m of [] \<Rightarrow> None | e # _ \<Rightarrow> Some e)"

lemma bt_ok_Nil [simp]: "bt_ok []"
  by (simp add: bt_ok_def)

lemma bt_ok_Cons: "bt_ok (e # m) \<longleftrightarrow> (\<forall>e' \<in> set m. fst e < fst e') \<and> bt_ok m"
  by (auto simp: bt_ok_def)

lemma bt_ok_distinct: "bt_ok m \<Longrightarrow> distinct (map fst m)"
  by (simp add: bt_ok_def strict_sorted_iff)

lemma bt_ok_filter: "bt_ok m \<Longrightarrow> bt_ok (filter P m)"
  by (simp add: bt_ok_def sorted_wrt_map sorted_wrt_filter)

lemma bt_ok_append:
  "bt_ok (m @ m') \<longleftrightarrow> bt_ok m \<and> bt_ok m' \<and> (\<forall>e \<in> set m. \<forall>e' \<in> set m'. fst e < fst e')"
  by (auto simp: bt_ok_def sorted_wrt_append)

lemma bt_put_ok: "bt_ok m \<Longrightarrow> bt_ok (bt_put k v m)"
  by (auto simp: bt_put_def bt_ok_append bt_ok_Cons bt_ok_filter intro: less_trans)

lemma bt_del_ok: "bt_ok m \<Longrightarrow> bt_ok (bt_del k m)"
  by (simp add: bt_del_def bt_ok_filter)

lemma map_of_filter_keys:
  "map_of (filter (\<lambda>e. fst e < k) m) x = (if x < k then map_of m x else None)"
  "map_of (filter (\<lambda>e. k < fst e) m) x = (if k < x then map_of m x else None)"
  "map_of (filter (\<lambda>e. fst e \<noteq> k) m) x = (if x \<noteq> k then map_of m x else None)"
  for k x :: "'k::linorder"
  by (induction m) auto

lemma map_of_bt_put [simp]: "map_of (bt_put k v m) = (map_of m)(k \<mapsto> v)"
  by (rule ext) (auto simp: bt_put_def map_add_def map_of_filter_keys split: option.splits)

lemma map_of_bt_del [simp]: "map_of (bt_del k m) = (map_of m)(k := None)"
  by (rule ext) (simp add: bt_del_def map_of_filter_keys)

lemma set_bt_put: "set (bt_put k v m) = Set.insert (k, v) {e \<in> set m. fst e \<noteq> k}"
  by (auto simp: bt_put_def)

lemma set_bt_del: "set (bt_del k m) = {e \<in> set m. fst e \<noteq> k}"
  by (auto simp: bt_del_def)

lemma bt_rebuild: "distinct (map fst m) \<Longrightarrow> map (\<lambda>k. (k, the (map_of m k))) (map fst m) = m"
  by (induction m) (auto simp: image_iff intro!: map_idI)

lemma bt_ext:
  assumes "bt_ok m" and "bt_ok m'" and "map_of m = map_of m'"
  shows "m = m'"
proof -
  have "set (map fst m) = set (map fst m')"
    using arg_cong [OF assms(3), of dom] by (simp add: dom_map_of_conv_image_fst)
  then have "map fst m = map fst m'"
    using assms(1,2) by (simp add: bt_ok_def strict_sorted_equal)
  then show ?thesis
    using assms by (metis bt_ok_distinct bt_rebuild)
qed

lemma bt_first_least:
  assumes "bt_ok m" and "bt_first m = Some (k, v)"
  shows "map_of m k = Some v \<and> (\<forall>k'. map_of m k' \<noteq> None \<longrightarrow> k \<le> k')"
proof (cases m)
  case Nil
  then show ?thesis using assms(2) by (simp add: bt_first_def)
next
  case (Cons e m')
  then have e: "e = (k, v)" and less: "\<forall>e' \<in> set m'. k < fst e'"
    using assms by (auto simp: bt_first_def bt_ok_Cons)
  have "k \<le> k'" if "map_of m k' \<noteq> None" for k'
  proof -
    from that obtain w where "(k', w) \<in> set m" by (meson map_of_SomeD not_None_eq)
    then show ?thesis using Cons e less by auto
  qed
  then show ?thesis using Cons e by simp
qed

interpretation bt: btree_map map_of bt_insert bt_remove bt_first bt_ok
proof (unfold_locales, goal_cases)
  case (7 m k v)
  then show ?case by (rule bt_first_least)
next
  case (8 m k)
  then show ?case by (cases m) (auto simp: bt_first_def)
qed (auto simp: bt_insert_def bt_remove_def bt_put_ok bt_del_ok intro: bt_ext)

section \<open>Once-only flags\<close>

text \<open>
  Two places in the code guard an effect with an atomic flag and
  \<open>compare_exchange(false, true)\<close>: the reactor's notifier (\<open>WithFlag::notify\<close>) and the
  wakers of executor tasks (\<open>TaskWaker::wake\<close>). \<open>raise\<close> is the guarded operation and
  \<open>lower\<close> the one that clears the flag.
\<close>

locale once_flag =
  fixes flag :: "'s \<Rightarrow> bool"
    and raise :: "'s \<Rightarrow> 's"
    and lower :: "'s \<Rightarrow> 's"
  assumes raise_flag: "flag (raise s)"
    and raise_noop: "flag s \<Longrightarrow> raise s = s"
    and lower_flag: "\<not> flag (lower s)"
begin

lemma raise_idem: "raise (raise s) = raise s"
  by (rule raise_noop) (rule raise_flag)

lemma raise_repeat: "(raise ^^ Suc n) s = raise s"
  by (induction n) (simp_all add: raise_idem)

lemma flag_raise_repeat: "flag ((raise ^^ n) s) \<longleftrightarrow> flag s \<or> n \<noteq> 0"
  by (cases n) (auto simp: raise_flag)

end

section \<open>Invariants of reachable states\<close>

text \<open>
  States reached from an initial one by the steps of a relation, and the rule that an
  invariant of the steps holds in all of them.
\<close>

inductive reachable :: "('s \<Rightarrow> bool) \<Rightarrow> ('s \<Rightarrow> 's \<Rightarrow> bool) \<Rightarrow> 's \<Rightarrow> bool"
  for init :: "'s \<Rightarrow> bool" and step :: "'s \<Rightarrow> 's \<Rightarrow> bool" where
  reach_init: "init s \<Longrightarrow> reachable init step s"
| reach_step: "reachable init step s \<Longrightarrow> step s t \<Longrightarrow> reachable init step t"

locale step_system =
  fixes init :: "'s \<Rightarrow> bool"
    and step :: "'s \<Rightarrow> 's \<Rightarrow> bool"
    and inv :: "'s \<Rightarrow> bool"
  assumes inv_init: "init s \<Longrightarrow> inv s"
    and inv_step: "inv s \<Longrightarrow> step s t \<Longrightarrow> inv t"
begin

lemma reachable_inv: "reachable init step s \<Longrightarrow> inv s"
  by (induction rule: reachable.induct) (blast intro: inv_init inv_step)+

lemma rtranclp_inv: "step\<^sup>*\<^sup>* s t \<Longrightarrow> inv s \<Longrightarrow> inv t"
  by (induction rule: rtranclp_induct) (blast intro: inv_step)+

end

end
