(* ===== verification/Timer_Queue.thy ===== *)
theory Timer_Queue
  imports Runtime_Base
begin

text \<open>
  The timer queue of the reactor (\<open>TimerQueue\<close> of \<open>src/src/time.rs\<close>) and the
  identifiers it hands out (\<open>Id\<close> of \<open>src/src/lib.rs\<close>). A timer is an entry of an
  ordered map from (expiry, identifier) to the waker. The results: identifiers stay
  non-zero and cycle through all values, \<open>register\<close> terminates and returns a fresh
  key, and \<open>clear_expired\<close> wakes exactly the expired timers in order of expiry.
\<close>

section \<open>Identifiers\<close>

datatype Id_rs = Id_rs (id_get: usize)

definition Id_new :: "usize \<Rightarrow> Id_rs res" where
  "Id_new n = (if n = 0 then Panic ''expected non-zero ID'' else Ok (Id_rs n))"

definition usize_checked_add :: "usize \<Rightarrow> usize \<Rightarrow> usize option" where
  "usize_checked_add a b = (if unat a + unat b < 2 ^ 64 then Some (a + b) else None)"

definition Id_overflowing_incr :: "Id_rs \<Rightarrow> Id_rs" where
  "Id_overflowing_incr i =
     (case usize_checked_add (id_get i) 1 of
        Some n \<Rightarrow> Id_rs n
      | None \<Rightarrow> Id_rs 1)"

text \<open>The derived \<open>Ord\<close> of \<open>Id\<close> is the order of the number.\<close>

instantiation Id_rs :: linorder
begin

definition less_eq_Id_rs :: "Id_rs \<Rightarrow> Id_rs \<Rightarrow> bool" where
  "less_eq_Id_rs a b \<longleftrightarrow> id_get a \<le> id_get b"

definition less_Id_rs :: "Id_rs \<Rightarrow> Id_rs \<Rightarrow> bool" where
  "less_Id_rs a b \<longleftrightarrow> id_get a < id_get b"

instance
  by standard (auto simp: less_eq_Id_rs_def less_Id_rs_def Id_rs.expand)

end

definition Id_valid :: "Id_rs \<Rightarrow> bool" where
  "Id_valid i \<longleftrightarrow> id_get i \<noteq> 0"

lemma unat_bound: "unat (w :: usize) < 2 ^ 64"
  using unsigned_less [of w, where 'a = nat] by simp

lemma unat_incr:
  "unat (id_get (Id_overflowing_incr i)) =
     (if unat (id_get i) = 2 ^ 64 - 1 then 1 else Suc (unat (id_get i)))"
proof -
  have "unat (id_get i) < 2 ^ 64"
    using unat_bound [of "id_get i"] by simp
  then show ?thesis
    by (auto simp: Id_overflowing_incr_def usize_checked_add_def unat_word_ariths)
qed

lemma unat_pos: "Id_valid i \<longleftrightarrow> 0 < unat (id_get i)"
  by (simp add: Id_valid_def unat_gt_0)

lemma Id_incr_valid [simp, intro]: "Id_valid (Id_overflowing_incr i)"
  by (simp add: unat_pos unat_incr)

lemma unat_le_max: "unat (id_get i) \<le> 2 ^ 64 - 1"
  using unat_bound [of "id_get i"] by simp

text \<open>
  The number of increments from one identifier to another: the identifiers are visited
  in a cycle of length \<open>2 ^ 64 - 1\<close>.
\<close>

definition id_dist :: "Id_rs \<Rightarrow> Id_rs \<Rightarrow> nat" where
  "id_dist a b =
     (if unat (id_get a) \<le> unat (id_get b) then unat (id_get b) - unat (id_get a)
      else unat (id_get b) + (2 ^ 64 - 1) - unat (id_get a))"

lemma id_dist_incr:
  assumes "Id_valid a" and "Id_valid b" and "a \<noteq> b"
  shows "Suc (id_dist (Id_overflowing_incr a) b) = id_dist a b"
proof -
  have "unat (id_get a) \<noteq> unat (id_get b)"
    using assms(3) by (metis Id_rs.expand word_unat_eq_iff)
  then show ?thesis
    using assms(1,2) unat_le_max [of a] unat_le_max [of b]
    by (auto simp: id_dist_def unat_incr unat_pos)
qed

section \<open>The queue\<close>

type_synonym timer_key = "instant \<times> Id_rs"

record 'w timer_queue =
  current_id :: Id_rs
  timers :: "(timer_key, 'w) btree"

definition TimerQueue_new :: "'w timer_queue" where
  "TimerQueue_new = \<lparr>current_id = Id_rs 1, timers = []\<rparr>"

text \<open>
  The loop of \<open>register\<close>. When the key is taken, the previous waker goes back into the
  map, which hands the new waker back for the next round; \<open>None\<close> stands for a loop that
  never ends or a failing \<open>unwrap\<close>.
\<close>

partial_function (option) TimerQueue_register ::
  "instant \<Rightarrow> 'w \<Rightarrow> 'w timer_queue \<Rightarrow> (Id_rs \<times> 'w timer_queue) option" where
  "TimerQueue_register expiry waker q =
     (let id = current_id q;
          q1 = q\<lparr>current_id := Id_overflowing_incr id\<rparr>
      in case bt_insert (expiry, id) waker (timers q1) of
           (None, m) \<Rightarrow> Some (id, q1\<lparr>timers := m\<rparr>)
         | (Some prev_waker, m) \<Rightarrow>
             (case bt_insert (expiry, id) prev_waker m of
                (None, m') \<Rightarrow> None
              | (Some waker', m') \<Rightarrow> TimerQueue_register expiry waker' (q1\<lparr>timers := m'\<rparr>)))"

definition TimerQueue_modify :: "Id_rs \<Rightarrow> instant \<Rightarrow> 'w \<Rightarrow> 'w timer_queue \<Rightarrow> 'w timer_queue" where
  "TimerQueue_modify tid expiry waker q =
     (case map_of (timers q) (expiry, tid) of
        Some _ \<Rightarrow> q\<lparr>timers := bt_put (expiry, tid) waker (timers q)\<rparr>
      | None \<Rightarrow> q)"

definition TimerQueue_cancel :: "Id_rs \<Rightarrow> instant \<Rightarrow> 'w timer_queue \<Rightarrow> 'w timer_queue" where
  "TimerQueue_cancel tid expiry q = q\<lparr>timers := snd (bt_remove (expiry, tid) (timers q))\<rparr>"

definition TimerQueue_next_timeout :: "instant \<Rightarrow> 'w timer_queue \<Rightarrow> duration option" where
  "TimerQueue_next_timeout now q =
     map_option (\<lambda>((expiry, _), _). saturating_duration_since expiry now) (bt_first (timers q))"

text \<open>The wakers are returned in the order in which they are called.\<close>

fun clear_expired_loop :: "instant \<Rightarrow> (timer_key, 'w) btree \<Rightarrow> 'w list \<times> (timer_key, 'w) btree" where
  "clear_expired_loop now [] = ([], [])"
| "clear_expired_loop now (((expiry, tid), waker) # m) =
     (if expiry \<le> now
      then (let (ws, m') = clear_expired_loop now m in (waker # ws, m'))
      else ([], ((expiry, tid), waker) # m))"

definition TimerQueue_clear_expired ::
  "instant \<Rightarrow> 'w timer_queue \<Rightarrow> 'w list \<times> 'w timer_queue" where
  "TimerQueue_clear_expired now q =
     (let (ws, m) = clear_expired_loop now (timers q) in (ws, q\<lparr>timers := m\<rparr>))"

definition TimerQueue_is_empty :: "'w timer_queue \<Rightarrow> bool" where
  "TimerQueue_is_empty q \<longleftrightarrow> timers q = []"

text \<open>Well-formedness: the map is ordered and no identifier is zero.\<close>

definition tq_ok :: "'w timer_queue \<Rightarrow> bool" where
  "tq_ok q \<longleftrightarrow> bt_ok (timers q) \<and> Id_valid (current_id q) \<and>
     (\<forall>k \<in> set (map fst (timers q)). Id_valid (snd k))"

abbreviation armed :: "'w timer_queue \<Rightarrow> timer_key \<Rightarrow> 'w option" where
  "armed q \<equiv> map_of (timers q)"

section \<open>Registration\<close>

lemma TimerQueue_register_step:
  assumes "bt_ok (timers q)"
  shows "TimerQueue_register expiry waker q =
    (if armed q (expiry, current_id q) = None
     then Some (current_id q, \<lparr>current_id = Id_overflowing_incr (current_id q),
            timers = bt_put (expiry, current_id q) waker (timers q)\<rparr>)
     else TimerQueue_register expiry waker
            (q\<lparr>current_id := Id_overflowing_incr (current_id q)\<rparr>))"
proof (cases "armed q (expiry, current_id q)")
  case None
  then show ?thesis
    by (subst TimerQueue_register.simps) (simp add: bt_insert_def Let_def)
next
  case (Some p)
  let ?k = "(expiry, current_id q)"
  have "bt_insert ?k waker (timers q) = (Some p, bt_put ?k waker (timers q))"
    using Some by (simp add: bt_insert_def)
  from this bt.insert_restore [OF assms this] Some show ?thesis
    by (subst TimerQueue_register.simps) (simp add: Let_def)
qed

lemma TimerQueue_register_terminates:
  assumes "bt_ok (timers q)" and "Id_valid (current_id q)"
    and "Id_valid i" and "armed q (expiry, i) = None"
  shows "\<exists>id. TimerQueue_register expiry waker q =
      Some (id, \<lparr>current_id = Id_overflowing_incr id, timers = bt_put (expiry, id) waker (timers q)\<rparr>)
    \<and> Id_valid id \<and> armed q (expiry, id) = None"
  using assms
proof (induction "id_dist (current_id q) i" arbitrary: q)
  case 0
  then have "current_id q = i"
    by (metis id_dist_incr nat.distinct(1))
  with 0 show ?case by (simp add: TimerQueue_register_step)
next
  case (Suc n)
  let ?q = "q\<lparr>current_id := Id_overflowing_incr (current_id q)\<rparr>"
  show ?case
  proof (cases "armed q (expiry, current_id q)")
    case None
    with Suc.prems show ?thesis by (simp add: TimerQueue_register_step)
  next
    case (Some p)
    then have "current_id q \<noteq> i" using Suc.prems(4) by auto
    then have "n = id_dist (current_id ?q) i"
      using id_dist_incr Suc.prems(2,3) Suc.hyps(2) by (metis nat.inject timer_queue.select_convs(1)
          timer_queue.surjective timer_queue.update_convs(1))
    from Suc.hyps(1) [OF this] Suc.prems Some show ?thesis
      by (simp add: TimerQueue_register_step [of q])
  qed
qed

lemma free_id_exists:
  fixes m :: "(timer_key, 'w) btree"
  assumes "length m < 2 ^ 64 - 1"
  shows "\<exists>i. Id_valid i \<and> map_of m (expiry, i) = None"
proof (rule ccontr)
  assume none: "\<not> ?thesis"
  let ?U = "{w :: usize. w \<noteq> 0}"
  have "?U \<subseteq> (\<lambda>e. id_get (snd (fst e))) ` set m"
  proof
    fix w :: usize assume "w \<in> ?U"
    then have "map_of m (expiry, Id_rs w) \<noteq> None"
      using none by (metis (mono_tags) Id_valid_def Id_rs.sel mem_Collect_eq)
    then obtain v where "((expiry, Id_rs w), v) \<in> set m"
      by (meson map_of_SomeD not_None_eq)
    then show "w \<in> (\<lambda>e. id_get (snd (fst e))) ` set m"
      by force
  qed
  then have "card ?U \<le> length m"
    by (meson card_length card_image_le card_mono finite_imageI finite_set le_trans)
  moreover have "card ?U = 2 ^ 64 - 1"
  proof -
    have "?U = UNIV - {0}" by auto
    then show ?thesis by (simp add: card_Diff_singleton card_word)
  qed
  ultimately show False using assms by simp
qed

text \<open>A result of \<open>register\<close> has a fresh key and adds exactly that entry.\<close>

definition register_result :: "instant \<Rightarrow> 'w \<Rightarrow> 'w timer_queue \<Rightarrow> Id_rs \<times> 'w timer_queue \<Rightarrow> bool" where
  "register_result e w q r \<longleftrightarrow> tq_ok q \<longrightarrow> armed q (e, fst r) = None \<and> Id_valid (fst r) \<and>
     snd r = \<lparr>current_id = Id_overflowing_incr (fst r), timers = bt_put (e, fst r) w (timers q)\<rparr>"

lemma TimerQueue_register_result:
  assumes ret: "TimerQueue_register e w q = Some r"
  shows "register_result e w q r"
proof (rule TimerQueue_register.raw_induct [where P = register_result, OF _ ret])
  fix reg e w q r
  assume IH: "\<And>e w q r. reg e w q = Some r \<Longrightarrow> register_result e w q r"
    and eq: "(let id = current_id q; q1 = q\<lparr>current_id := Id_overflowing_incr id\<rparr>
      in case bt_insert (e, id) w (timers q1) of
           (None, m) \<Rightarrow> Some (id, q1\<lparr>timers := m\<rparr>)
         | (Some prev_waker, m) \<Rightarrow>
             (case bt_insert (e, id) prev_waker m of
                (None, m') \<Rightarrow> None
              | (Some waker', m') \<Rightarrow> reg e waker' (q1\<lparr>timers := m'\<rparr>))) = Some r"
  show "register_result e w q r"
  proof (cases "armed q (e, current_id q)")
    case None
    with eq show ?thesis
      by (auto simp: register_result_def bt_insert_def Let_def tq_ok_def)
  next
    case (Some p)
    let ?k = "(e, current_id q)"
    let ?q = "q\<lparr>current_id := Id_overflowing_incr (current_id q)\<rparr>"
    have ins: "bt_insert ?k w (timers q) = (Some p, bt_put ?k w (timers q))"
      using Some by (simp add: bt_insert_def)
    have "reg e w ?q = Some r" if "tq_ok q"
      using eq ins bt.insert_restore [OF _ ins] that by (simp add: Let_def tq_ok_def)
    from IH [OF this] show ?thesis by (auto simp: register_result_def tq_ok_def)
  qed
qed

lemma TimerQueue_register_SomeD:
  assumes "tq_ok q" and "TimerQueue_register e w q = Some (i, q')"
  shows "armed q (e, i) = None" "armed q' = (armed q)((e, i) \<mapsto> w)" "tq_ok q'"
  using TimerQueue_register_result [OF assms(2)] assms(1)
  by (auto simp: register_result_def tq_ok_def bt_put_ok set_bt_put)

section \<open>Expiry\<close>

lemma clear_expired_loop_filter:
  "bt_ok m \<Longrightarrow> clear_expired_loop now m =
     (map snd (filter (\<lambda>e. fst (fst e) \<le> now) m), filter (\<lambda>e. now < fst (fst e)) m)"
proof (induction now m rule: clear_expired_loop.induct)
  case (2 now expiry tid waker m)
  show ?case
  proof (cases "expiry \<le> now")
    case True
    with 2 show ?thesis by (simp add: bt_ok_Cons)
  next
    case False
    then have "\<forall>e \<in> set m. now < fst (fst e)"
      using 2(2) by (fastforce simp: bt_ok_Cons less_prod_def)
    with False show ?thesis by (auto simp: filter_empty_conv filter_id_conv)
  qed
qed simp

lemma map_of_filter_later:
  "map_of (filter (\<lambda>e. now < fst (fst e)) m) k = (if fst k \<le> now then None else map_of m k)"
  for now :: instant
  by (induction m) auto

lemma tq_ok_new [simp, rt_inv]: "tq_ok TimerQueue_new"
  by (simp add: tq_ok_def TimerQueue_new_def Id_valid_def)

lemma tq_ok_modify [rt_inv]: "tq_ok q \<Longrightarrow> tq_ok (TimerQueue_modify i e w q)"
  by (auto simp: tq_ok_def TimerQueue_modify_def bt_put_ok set_bt_put dest!: map_of_SomeD
      split: option.splits)

lemma tq_ok_cancel [rt_inv]: "tq_ok q \<Longrightarrow> tq_ok (TimerQueue_cancel i e q)"
  by (auto simp: tq_ok_def TimerQueue_cancel_def bt_remove_def bt_del_ok set_bt_del)

lemma TimerQueue_clear_expired_eq:
  "tq_ok q \<Longrightarrow> TimerQueue_clear_expired now q =
     (map snd (filter (\<lambda>e. fst (fst e) \<le> now) (timers q)),
      q\<lparr>timers := filter (\<lambda>e. now < fst (fst e)) (timers q)\<rparr>)"
  by (simp add: TimerQueue_clear_expired_def clear_expired_loop_filter tq_ok_def)

lemma tq_ok_clear [rt_inv]: "tq_ok q \<Longrightarrow> tq_ok (snd (TimerQueue_clear_expired now q))"
  by (auto simp: TimerQueue_clear_expired_eq tq_ok_def bt_ok_filter)

text \<open>With a timer due, \<open>next_timeout\<close> is zero.\<close>

lemma due_timeout:
  assumes "tq_ok q" and "armed q (e, i) = Some w" and "e \<le> now"
  shows "TimerQueue_next_timeout now q = Some 0"
proof -
  have ok: "bt_ok (timers q)" using assms(1) by (simp add: tq_ok_def)
  have "timers q \<noteq> []" using assms(2) by auto
  then obtain x j v where first: "bt_first (timers q) = Some ((x, j), v)"
    by (cases "timers q") (auto simp: bt_first_def)
  have "(x, j) \<le> (e, i)" using bt_first_least [OF ok first] assms(2) by (simp del: map_of_eq_None_iff)
  then have "x \<le> now" using assms(3) by (auto simp: less_eq_prod_def)
  with first show ?thesis by (simp add: TimerQueue_next_timeout_def)
qed

section \<open>The contract its clients rely on\<close>

text \<open>
  What the reactor and the timer futures use of a timer store: the map of armed timers
  and how each operation changes it. \<open>handle_ok\<close> is what a timer future that holds an
  identifier knows: its timer is armed or had expired when the store was last cleared.
\<close>

locale timer_store =
  fixes armed :: "'s \<Rightarrow> timer_key \<Rightarrow> 'w option"
    and register :: "instant \<Rightarrow> 'w \<Rightarrow> 's \<Rightarrow> (Id_rs \<times> 's) option"
    and modify :: "Id_rs \<Rightarrow> instant \<Rightarrow> 'w \<Rightarrow> 's \<Rightarrow> 's"
    and cancel :: "Id_rs \<Rightarrow> instant \<Rightarrow> 's \<Rightarrow> 's"
    and clear :: "instant \<Rightarrow> 's \<Rightarrow> 's"
    and ok :: "'s \<Rightarrow> bool"
  assumes register_fresh: "ok s \<Longrightarrow> register e w s = Some (i, s') \<Longrightarrow> armed s (e, i) = None"
    and register_armed: "ok s \<Longrightarrow> register e w s = Some (i, s') \<Longrightarrow>
          armed s' = (armed s)((e, i) \<mapsto> w)"
    and register_ok: "ok s \<Longrightarrow> register e w s = Some (i, s') \<Longrightarrow> ok s'"
    and modify_armed: "ok s \<Longrightarrow> armed (modify i e w s) =
          (if armed s (e, i) = None then armed s else (armed s)((e, i) \<mapsto> w))"
    and modify_ok: "ok s \<Longrightarrow> ok (modify i e w s)"
    and cancel_armed: "ok s \<Longrightarrow> armed (cancel i e s) = (armed s)((e, i) := None)"
    and cancel_ok: "ok s \<Longrightarrow> ok (cancel i e s)"
    and clear_armed: "ok s \<Longrightarrow> armed (clear now s) k = (if fst k \<le> now then None else armed s k)"
    and clear_ok: "ok s \<Longrightarrow> ok (clear now s)"
begin

definition handle_ok :: "instant \<Rightarrow> instant \<times> Id_rs option \<Rightarrow> 's \<Rightarrow> bool" where
  "handle_ok cleared h s \<longleftrightarrow>
     (case snd h of None \<Rightarrow> True | Some i \<Rightarrow> armed s (fst h, i) \<noteq> None \<or> fst h \<le> cleared)"

lemma register_cancel:
  assumes "ok s" and "register e w s = Some (i, s')"
  shows "armed (cancel i e s') = armed s"
  using cancel_armed [OF register_ok [OF assms]] register_armed [OF assms] register_fresh [OF assms]
  by (simp add: fun_upd_idem)

lemma register_handle:
  assumes "ok s" and "register e w s = Some (i, s')"
  shows "handle_ok cleared (e, Some i) s'"
  using register_armed [OF assms] by (simp add: handle_ok_def)

lemma register_other:
  assumes "ok s" and "register e w s = Some (i, s')" and "handle_ok cleared h s"
  shows "handle_ok cleared h s'"
  using register_armed [OF assms(1,2)] assms(3) by (auto simp: handle_ok_def split: option.splits)

lemma modify_other: "ok s \<Longrightarrow> handle_ok cleared h s \<Longrightarrow> handle_ok cleared h (modify i e w s)"
  by (auto simp: handle_ok_def modify_armed split: option.splits)

lemma cancel_other:
  "ok s \<Longrightarrow> handle_ok cleared h s \<Longrightarrow> h \<noteq> (e, Some i) \<Longrightarrow>
     handle_ok cleared h (cancel i e s)"
  by (cases h) (auto simp: handle_ok_def cancel_armed split: option.splits)

lemma clear_handle:
  "ok s \<Longrightarrow> handle_ok cleared h s \<Longrightarrow> cleared \<le> now \<Longrightarrow> handle_ok now h (clear now s)"
  by (auto simp: handle_ok_def clear_armed split: option.splits)

text \<open>A timer that is still in the future when it is polled is armed.\<close>

lemma handle_armed: "handle_ok cleared (e, Some i) s \<Longrightarrow> cleared < e \<Longrightarrow> armed s (e, i) \<noteq> None"
  by (simp add: handle_ok_def)

end

interpretation tq: timer_store armed TimerQueue_register TimerQueue_modify TimerQueue_cancel
  "\<lambda>now q. snd (TimerQueue_clear_expired now q)" tq_ok
proof (unfold_locales, goal_cases)
  case (4 s i e w)
  then show ?case by (auto simp: TimerQueue_modify_def)
next
  case (6 s i e)
  then show ?case by (simp add: TimerQueue_cancel_def bt_remove_def)
next
  case (8 s now k)
  then show ?case by (simp add: TimerQueue_clear_expired_eq map_of_filter_later)
qed (auto simp: rt_inv TimerQueue_register_SomeD)

section \<open>Properties\<close>

text \<open>
  C31: \<open>TimerQueue::register\<close> returns whenever fewer than \<open>2 ^ 64 - 1\<close> timers are armed,
  however the identifiers have wrapped around: the identifier is one that no timer of the
  same expiry uses, the timer is added with its own waker, every other timer keeps its
  waker, and cancelling it gives back the timers there were.
\<close>

theorem register_total:
  assumes "tq_ok q" and "length (timers q) < 2 ^ 64 - 1"
  shows "\<exists>i q'. TimerQueue_register e w q = Some (i, q') \<and> armed q (e, i) = None \<and> tq_ok q'
    \<and> armed q' = (armed q)((e, i) \<mapsto> w) \<and> timers (TimerQueue_cancel i e q') = timers q"
proof -
  obtain j where "Id_valid j" "armed q (e, j) = None" using free_id_exists [OF assms(2)] by blast
  then obtain i q' where reg: "TimerQueue_register e w q = Some (i, q')"
    using TimerQueue_register_terminates [of q j e w] assms(1) by (auto simp: tq_ok_def)
  note facts = TimerQueue_register_SomeD [OF assms(1) reg]
  have "armed (TimerQueue_cancel i e q') = armed q" by (rule tq.register_cancel [OF assms(1) reg])
  then have "timers (TimerQueue_cancel i e q') = timers q"
    using tq_ok_cancel [OF facts(3)] assms(1) by (auto simp: tq_ok_def intro: bt_ext)
  with reg facts show ?thesis by blast
qed

text \<open>A queue whose next identifier, the largest one, is taken at expiry 5.\<close>

definition wrapping_queue :: "nat timer_queue" where
  "wrapping_queue = \<lparr>current_id = Id_rs (- 1), timers = [((5, Id_rs (- 1)), 0)]\<rparr>"

theorem register_total_witness:
  "\<exists>i q'. TimerQueue_register 5 1 wrapping_queue = Some (i, q') \<and> i \<noteq> Id_rs (- 1) \<and>
     armed q' (5, i) = Some 1 \<and> armed q' (5, Id_rs (- 1)) = Some 0"
proof -
  have 1: "tq_ok wrapping_queue" "length (timers wrapping_queue) < 2 ^ 64 - 1"
    by (simp_all add: wrapping_queue_def tq_ok_def bt_ok_def Id_valid_def)
  obtain i q' where *: "TimerQueue_register 5 1 wrapping_queue = Some (i, q')"
      "armed wrapping_queue (5, i) = None" "armed q' = (armed wrapping_queue)((5, i) \<mapsto> 1)"
    using register_total [OF 1, of 5 1] by blast
  moreover from this have "i \<noteq> Id_rs (- 1)" by (auto simp: wrapping_queue_def)
  ultimately show ?thesis by (auto simp: wrapping_queue_def)
qed

text \<open>
  The identifiers are visited in one cycle of all \<open>2 ^ 64 - 1\<close> non-zero words, with the
  increment of the largest one wrapping around to 1: any identifier is reached from any other,
  after as many increments as \<open>id_dist\<close> says, and no increment gives zero.
\<close>

theorem id_cycle:
  assumes "Id_valid a" and "Id_valid b"
  shows "(Id_overflowing_incr ^^ id_dist a b) a = b \<and> id_dist a b < 2 ^ 64 - 1
    \<and> Id_valid (Id_overflowing_incr a)"
proof -
  have "(Id_overflowing_incr ^^ n) a = b" if "n = id_dist a b" for n
    using that assms(1)
  proof (induction n arbitrary: a)
    case 0
    then have "unat (id_get a) = unat (id_get b)"
      using unat_le_max [of a] unat_le_max [of b] assms(2) by (auto simp: id_dist_def unat_pos split: if_splits)
    then show ?case by (simp, metis Id_rs.expand word_unat_eq_iff)
  next
    case (Suc n)
    then have "a \<noteq> b" by (auto simp: id_dist_def)
    then have "n = id_dist (Id_overflowing_incr a) b"
      using id_dist_incr [OF Suc.prems(2) assms(2)] Suc.prems(1) by simp
    then show ?case using Suc.IH [of "Id_overflowing_incr a"] by (simp add: funpow_Suc_right del: funpow.simps)
  qed
  moreover have "id_dist a b < 2 ^ 64 - 1"
    using assms unat_le_max [of a] unat_le_max [of b] by (auto simp: id_dist_def unat_pos)
  ultimately show ?thesis by auto
qed

theorem id_cycle_witness: "(Id_overflowing_incr ^^ id_dist (Id_rs (- 1)) (Id_rs 3)) (Id_rs (- 1)) = Id_rs 3"
  using id_cycle [of "Id_rs (- 1)" "Id_rs 3"] by (simp add: Id_valid_def)

text \<open>
  \<open>TimerQueue::clear_expired\<close> calls the wakers of exactly the timers whose expiry has
  come, in order of expiry and identifier, and leaves exactly the later ones;
  \<open>next_timeout\<close> of what is left is the time to the earliest timer, never zero, and there is
  none only when no timer is left.
\<close>

lemma clear_expired_next:
  assumes "tq_ok q" and "TimerQueue_clear_expired now q = (ws, q')"
  shows "ws = map snd (filter (\<lambda>e. fst (fst e) \<le> now) (timers q))
    \<and> (\<forall>k. armed q' k = (if fst k \<le> now then None else armed q k))
    \<and> (case TimerQueue_next_timeout now q' of
         None \<Rightarrow> armed q' = Map.empty
       | Some d \<Rightarrow> 0 < d \<and> (\<exists>i. armed q' (now + int d, i) \<noteq> None)
           \<and> (\<forall>k. armed q' k \<noteq> None \<longrightarrow> now + int d \<le> fst k))"
proof -
  have q': "q' = q\<lparr>timers := filter (\<lambda>e. now < fst (fst e)) (timers q)\<rparr>"
    and ws: "ws = map snd (filter (\<lambda>e. fst (fst e) \<le> now) (timers q))"
    using assms TimerQueue_clear_expired_eq [OF assms(1), of now] by simp_all
  have ok: "bt_ok (timers q')" using tq_ok_clear [OF assms(1), of now] assms(2) by (simp add: tq_ok_def)
  have "case TimerQueue_next_timeout now q' of
         None \<Rightarrow> armed q' = Map.empty
       | Some d \<Rightarrow> 0 < d \<and> (\<exists>i. armed q' (now + int d, i) \<noteq> None)
           \<and> (\<forall>k. armed q' k \<noteq> None \<longrightarrow> now + int d \<le> fst k)"
  proof (cases "timers q'")
    case Nil
    then show ?thesis by (simp add: TimerQueue_next_timeout_def bt_first_def)
  next
    case (Cons e m)
    obtain x i w where e: "e = ((x, i), w)" by (metis prod.collapse)
    have "e \<in> set (timers q')" using Cons by simp
    then have x: "now < x" using q' e by auto
    then have d: "now + int (saturating_duration_since x now) = x"
      by (rule saturating_duration_since_pos)
    have "x \<le> fst k" if k: "armed q' k \<noteq> None" for k
    proof -
      obtain v where "armed q' k = Some v" using k by blast
      then have "(k, v) \<in> set (e # m)" using Cons by (metis map_of_SomeD)
      then show ?thesis using ok Cons e by (cases k) (auto simp: bt_ok_Cons less_prod_def)
    qed
    moreover have "armed q' (x, i) \<noteq> None" using Cons e by simp
    moreover have "0 < saturating_duration_since x now" using d x by linarith
    ultimately show ?thesis using Cons e d
      by (auto simp: TimerQueue_next_timeout_def bt_first_def simp del: map_of_eq_None_iff)
  qed
  with ws q' show ?thesis by (simp add: map_of_filter_later)
qed

lemma clear_expired_next_witness:
  "fst (TimerQueue_clear_expired 4 wrapping_queue) = [] \<and>
   armed (snd (TimerQueue_clear_expired 4 wrapping_queue)) (5, Id_rs (- 1)) = Some 0"
proof -
  have "tq_ok wrapping_queue" by (simp add: wrapping_queue_def tq_ok_def bt_ok_def Id_valid_def)
  moreover have "TimerQueue_clear_expired 4 wrapping_queue = ([], wrapping_queue)"
    by (simp add: wrapping_queue_def TimerQueue_clear_expired_def)
  ultimately show ?thesis
    using clear_expired_next [of wrapping_queue 4 "[]" wrapping_queue]
    by (simp add: wrapping_queue_def)
qed

end
