(* ===== verification/Notifier.thy ===== *)
theory Notifier
  imports Runtime_Base
begin

text \<open>
  The operating system calls the runtime makes, as one record of functions over an
  arbitrary kernel state, and the notifier that wakes a blocked reactor: the two
  descriptors of \<open>src/src/reactor/unix.rs\<close> (\<open>EventFd\<close>, \<open>PipeFd\<close>) and the flag
  of \<open>src/src/reactor.rs\<close> around them (\<open>WithFlag\<close>). The main result is that any
  number of notifications between two clears reach the descriptor once.
\<close>

section \<open>System calls\<close>

datatype oflag = O_NONBLOCK | O_CLOEXEC | O_Other nat

datatype pollflag = P_IN | P_PRI | P_OUT | P_ERR | P_HUP | P_NVAL | P_Other nat

record timespec =
  tv_sec :: int
  tv_nsec :: int

record itimerspec =
  it_interval :: timespec
  it_value :: timespec

text \<open>
  Each call takes the kernel state and returns its result with the new kernel state.
  \<open>sys_poll\<close> takes the descriptors with the requested events and the timeout in
  milliseconds and returns the number of ready descriptors and the returned events.
\<close>

record 'k os =
  sys_read :: "fd \<Rightarrow> nat \<Rightarrow> 'k \<Rightarrow> (io_error + nat) \<times> 'k"
  sys_write :: "fd \<Rightarrow> 8 word list \<Rightarrow> 'k \<Rightarrow> (io_error + nat) \<times> 'k"
  sys_poll :: "(fd \<times> pollflag set) list \<Rightarrow> int \<Rightarrow> 'k \<Rightarrow> (io_error + nat \<times> pollflag set list) \<times> 'k"
  sys_timerfd_settime :: "fd \<Rightarrow> itimerspec \<Rightarrow> 'k \<Rightarrow> (io_error + unit) \<times> 'k"
  sys_now :: "'k \<Rightarrow> instant \<times> 'k"
  sys_eventfd :: "nat \<Rightarrow> oflag set \<Rightarrow> 'k \<Rightarrow> (io_error + fd) \<times> 'k"
  sys_pipe :: "'k \<Rightarrow> (io_error + fd \<times> fd) \<times> 'k"
  sys_timerfd_create :: "oflag set \<Rightarrow> 'k \<Rightarrow> (io_error + fd) \<times> 'k"
  sys_ioctl_fionbio :: "fd \<Rightarrow> bool \<Rightarrow> 'k \<Rightarrow> (io_error + unit) \<times> 'k"
  sys_fcntl_getfl :: "fd \<Rightarrow> 'k \<Rightarrow> (io_error + oflag set) \<times> 'k"
  sys_fcntl_setfl :: "fd \<Rightarrow> oflag set \<Rightarrow> 'k \<Rightarrow> (io_error + unit) \<times> 'k"

text \<open>
  \<open>set_nonblocking\<close>, whose body the build selects by the target system: \<open>ioctl\<close> on Linux
  and Android, \<open>fcntl\<close> elsewhere.
\<close>

datatype target_os = Linux_Android | Other_Unix

definition set_nonblocking_fcntl :: "'k os \<Rightarrow> fd \<Rightarrow> 'k \<Rightarrow> unit res \<times> 'k" where
  "set_nonblocking_fcntl os fd k =
     (case sys_fcntl_getfl os fd k of
        (Inl e, k1) \<Rightarrow> (Err e, k1)
      | (Inr previous, k1) \<Rightarrow>
          (let new = previous \<union> {O_NONBLOCK}
           in if new \<noteq> previous
              then (case sys_fcntl_setfl os fd new k1 of
                      (Inl e, k2) \<Rightarrow> (Err e, k2)
                    | (Inr _, k2) \<Rightarrow> (Ok (), k2))
              else (Ok (), k1)))"

definition set_nonblocking :: "target_os \<Rightarrow> 'k os \<Rightarrow> fd \<Rightarrow> 'k \<Rightarrow> unit res \<times> 'k" where
  "set_nonblocking target os fd k =
     (case target of
        Linux_Android \<Rightarrow>
          (case sys_ioctl_fionbio os fd True k of
             (Inl e, k1) \<Rightarrow> (Err e, k1)
           | (Inr _, k1) \<Rightarrow> (Ok (), k1))
      | Other_Unix \<Rightarrow> set_nonblocking_fcntl os fd k)"

lemma set_nonblocking_no_panic: "\<not> is_panic (fst (set_nonblocking target os fd k))"
  by (auto simp: set_nonblocking_def set_nonblocking_fcntl_def Let_def
      split: target_os.splits prod.splits sum.splits)

section \<open>Notifier descriptors\<close>

text \<open>
  The traits \<open>EventNotifier\<close> and \<open>NotifierFd\<close>: an implementation is a record of its
  methods on one descriptor.
\<close>

record 'k notifier_fd =
  nf_clear :: "'k \<Rightarrow> unit res \<times> 'k"
  nf_notify :: "'k \<Rightarrow> unit res \<times> 'k"
  nf_raw_fd :: fd

text \<open>The common end of the two \<open>clear\<close> methods: an empty descriptor is no error.\<close>

fun clear_result :: "io_error + nat \<Rightarrow> unit res" where
  "clear_result (Inl e) = (if e = WouldBlock then Ok () else Err e)"
| "clear_result (Inr n) = Ok ()"

definition EventFd_new :: "'k os \<Rightarrow> 'k \<Rightarrow> fd res \<times> 'k" where
  "EventFd_new os k =
     (case sys_eventfd os 0 {O_CLOEXEC, O_NONBLOCK} k of
        (Inl e, k1) \<Rightarrow> (Err e, k1)
      | (Inr fd, k1) \<Rightarrow> (Ok fd, k1))"

definition EventFd_clear :: "'k os \<Rightarrow> fd \<Rightarrow> 'k \<Rightarrow> unit res \<times> 'k" where
  "EventFd_clear os fd k = (let (r, k1) = sys_read os fd 8 k in (clear_result r, k1))"

definition EventFd_notify :: "'k os \<Rightarrow> fd \<Rightarrow> 'k \<Rightarrow> unit res \<times> 'k" where
  "EventFd_notify os fd k =
     (case sys_write os fd [1, 0, 0, 0, 0, 0, 0, 0] k of
        (Inl e, k1) \<Rightarrow> (Err e, k1)
      | (Inr _, k1) \<Rightarrow> (Ok (), k1))"

definition EventFd :: "'k os \<Rightarrow> fd \<Rightarrow> 'k notifier_fd" where
  "EventFd os fd =
     \<lparr>nf_clear = EventFd_clear os fd, nf_notify = EventFd_notify os fd, nf_raw_fd = fd\<rparr>"

definition PipeFd_new :: "target_os \<Rightarrow> 'k os \<Rightarrow> 'k \<Rightarrow> (fd \<times> fd) res \<times> 'k" where
  "PipeFd_new target os k =
     (case sys_pipe os k of
        (Inl e, k1) \<Rightarrow> (Err e, k1)
      | (Inr (r, w), k1) \<Rightarrow>
          (case set_nonblocking target os r k1 of
             (Ok _, k2) \<Rightarrow>
               (case set_nonblocking target os w k2 of
                  (Ok _, k3) \<Rightarrow> (Ok (r, w), k3)
                | (Err e, k3) \<Rightarrow> (Err e, k3)
                | (Panic m, k3) \<Rightarrow> (Panic m, k3))
           | (Err e, k2) \<Rightarrow> (Err e, k2)
           | (Panic m, k2) \<Rightarrow> (Panic m, k2)))"

definition PipeFd_clear :: "'k os \<Rightarrow> fd \<times> fd \<Rightarrow> 'k \<Rightarrow> unit res \<times> 'k" where
  "PipeFd_clear os p k = (let (r, k1) = sys_read os (fst p) 8 k in (clear_result r, k1))"

definition PipeFd_notify :: "'k os \<Rightarrow> fd \<times> fd \<Rightarrow> 'k \<Rightarrow> unit res \<times> 'k" where
  "PipeFd_notify os p k =
     (case sys_write os (snd p) [0] k of
        (Inl e, k1) \<Rightarrow> (Err e, k1)
      | (Inr _, k1) \<Rightarrow> (Ok (), k1))"

definition PipeFd :: "'k os \<Rightarrow> fd \<times> fd \<Rightarrow> 'k notifier_fd" where
  "PipeFd os p =
     \<lparr>nf_clear = PipeFd_clear os p, nf_notify = PipeFd_notify os p, nf_raw_fd = fst p\<rparr>"

section \<open>The notification flag\<close>

text \<open>
  The notifier object shared by the reactor, its poller and the wakers made from it:
  the kernel state behind the descriptor and the flag.
\<close>

record 'k nworld =
  kernel :: 'k
  is_notified :: bool

definition WithFlag_new :: "'k \<Rightarrow> 'k nworld" where
  "WithFlag_new k = \<lparr>kernel = k, is_notified = False\<rparr>"

definition WithFlag_clear :: "'k notifier_fd \<Rightarrow> 'k nworld \<Rightarrow> unit res \<times> 'k nworld" where
  "WithFlag_clear N n =
     (let (r, k) = nf_clear N (kernel n) in (r, n\<lparr>kernel := k, is_notified := False\<rparr>))"

definition WithFlag_set_to_notified :: "'k nworld \<Rightarrow> 'k nworld" where
  "WithFlag_set_to_notified n = n\<lparr>is_notified := True\<rparr>"

definition WithFlag_notify :: "'k notifier_fd \<Rightarrow> 'k nworld \<Rightarrow> unit res \<times> 'k nworld" where
  "WithFlag_notify N n =
     (if is_notified n then (Ok (), n)
      else (let (r, k) = nf_notify N (kernel n) in (r, n\<lparr>kernel := k, is_notified := True\<rparr>)))"

text \<open>\<open>Wake for Notifier\<close> discards the result.\<close>

definition Notifier_wake :: "'k notifier_fd \<Rightarrow> 'k nworld \<Rightarrow> 'k nworld" where
  "Notifier_wake N n = snd (WithFlag_notify N n)"

lemmas notifier_defs = WithFlag_clear_def WithFlag_set_to_notified_def WithFlag_notify_def
  Notifier_wake_def

interpretation notif: once_flag is_notified "Notifier_wake N" "\<lambda>n. snd (WithFlag_clear N n)"
  for N :: "'k notifier_fd"
  by unfold_locales (auto simp: notifier_defs split: prod.splits)

text \<open>
  Any positive number of consecutive notifications sets the flag and calls the
  descriptor's \<open>notify\<close> exactly once when the flag was clear, and changes nothing when it
  was set; after a clear the next notification reaches the descriptor again.
\<close>

theorem notify_coalesces:
  "(Notifier_wake N ^^ Suc m) n =
     (if is_notified n then n
      else n\<lparr>kernel := snd (nf_notify N (kernel n)), is_notified := True\<rparr>)"
  by (simp only: notif.raise_repeat) (auto simp: notifier_defs split: prod.splits)

end
