(* ===== verification/Poller.thy ===== *)
theory Poller
  imports Notifier
begin

text \<open>
  The Unix event poller (\<open>PollPoller\<close> of \<open>src/src/reactor/unix.rs\<close>) with its two
  ways of limiting the wait (\<open>PollTimeout\<close>, \<open>TimerFd\<close>). The results: a timeout never
  ends early within the range its type can hold, only enabled sources are polled, and
  which sources the poller reports.
\<close>

type_synonym Source = fd

record Filter =
  fl_read :: bool
  fl_write :: bool

section \<open>Timeouts\<close>

definition i32_MAX :: int where
  "i32_MAX = 2 ^ 31 - 1"

definition i64_MAX :: int where
  "i64_MAX = 2 ^ 63 - 1"

definition MILLI :: nat where
  "MILLI = 1000000"

text \<open>The trait \<open>Timeout\<close>: an implementation is a record of its methods.\<close>

record 'k timeout =
  to_set_timeout :: "duration option \<Rightarrow> 'k \<Rightarrow> int res \<times> 'k"
  to_maybe_fd :: "fd option"

text \<open>
  \<open>PollTimeout\<close>: whole milliseconds, plus one for every positive duration, saturating at
  \<open>i32::MAX\<close>; no limit is \<open>-1\<close>.
\<close>

definition PollTimeout_millis :: "duration option \<Rightarrow> int" where
  "PollTimeout_millis t =
     (case t of
        None \<Rightarrow> - 1
      | Some d \<Rightarrow>
          (let ms = int (d div MILLI);
               base = (if ms \<le> i32_MAX then ms else i32_MAX)
           in min i32_MAX (base + (if d > 0 then 1 else 0))))"

definition PollTimeout_set_timeout :: "duration option \<Rightarrow> 'k \<Rightarrow> int res \<times> 'k" where
  "PollTimeout_set_timeout t k = (Ok (PollTimeout_millis t), k)"

definition PollTimeout :: "'k timeout" where
  "PollTimeout = \<lparr>to_set_timeout = PollTimeout_set_timeout, to_maybe_fd = None\<rparr>"

definition TimerFd_new :: "'k os \<Rightarrow> 'k \<Rightarrow> fd res \<times> 'k" where
  "TimerFd_new os k =
     (case sys_timerfd_create os {O_NONBLOCK, O_CLOEXEC} k of
        (Inl e, k1) \<Rightarrow> (Err e, k1)
      | (Inr fd, k1) \<Rightarrow> (Ok fd, k1))"

definition TimerFd_itimerspec :: "duration option \<Rightarrow> itimerspec" where
  "TimerFd_itimerspec t =
     \<lparr>it_interval = \<lparr>tv_sec = 0, tv_nsec = 0\<rparr>,
      it_value = \<lparr>
        tv_sec = (case t of
                    None \<Rightarrow> 0
                  | Some d \<Rightarrow> (if int (d div NANOS) \<le> i64_MAX then int (d div NANOS) else i64_MAX)),
        tv_nsec = (case t of None \<Rightarrow> 0 | Some d \<Rightarrow> int (max (d mod NANOS) 1))\<rparr>\<rparr>"

definition TimerFd_set_timeout :: "'k os \<Rightarrow> fd \<Rightarrow> duration option \<Rightarrow> 'k \<Rightarrow> int res \<times> 'k" where
  "TimerFd_set_timeout os fd t k =
     (case sys_timerfd_settime os fd (TimerFd_itimerspec t) k of
        (Inl e, k1) \<Rightarrow> (Err e, k1)
      | (Inr _, k1) \<Rightarrow> (Ok (- 1), k1))"

definition TimerFd :: "'k os \<Rightarrow> fd \<Rightarrow> 'k timeout" where
  "TimerFd os fd = \<lparr>to_set_timeout = TimerFd_set_timeout os fd, to_maybe_fd = Some fd\<rparr>"

text \<open>
  The contract the reactor relies on. \<open>delay\<close> reads a setting as the number of
  nanoseconds after which it ends the wait, \<open>cap\<close> is the longest wait the setting can
  express and \<open>slack\<close> how much longer than asked it may take.
\<close>

locale wait_limit =
  fixes setting :: "duration option \<Rightarrow> 'o"
    and delay :: "'o \<Rightarrow> nat option"
    and cap :: nat
    and slack :: nat
  assumes unlimited: "delay (setting None) = None"
    and limited: "\<exists>n. delay (setting (Some d)) = Some n \<and> min d cap \<le> n \<and> n \<le> d + slack"
    and cap_pos: "0 < cap"
begin

lemma not_early: "d \<le> cap \<Longrightarrow> \<exists>n. delay (setting (Some d)) = Some n \<and> d \<le> n"
  using limited [of d] by auto

lemma positive: "0 < d \<Longrightarrow> \<exists>n. delay (setting (Some d)) = Some n \<and> 0 < n"
  using limited [of d] cap_pos by auto

text \<open>Waiting again for what is left reaches any duration in finitely many rounds.\<close>

lemma rounds:
  assumes "0 < d"
  shows "\<exists>n. delay (setting (Some d)) = Some n \<and> d - n < d"
  using positive [OF assms] assms by auto

lemma unlimited_iff: "delay (setting t) = None \<longleftrightarrow> t = None"
  using unlimited limited by (cases t) auto

end

definition poll_delay :: "int \<Rightarrow> nat option" where
  "poll_delay ms = (if ms < 0 then None else Some (nat ms * MILLI))"

definition timerfd_delay :: "itimerspec \<Rightarrow> nat option" where
  "timerfd_delay s =
     (let n = tv_sec (it_value s) * int NANOS + tv_nsec (it_value s)
      in if n = 0 then None else Some (nat n))"

lemma PollTimeout_Some:
  "PollTimeout_millis (Some d) = min i32_MAX (int (d div MILLI) + (if d > 0 then 1 else 0))"
  by (auto simp: PollTimeout_millis_def Let_def)

interpretation poll_limit: wait_limit PollTimeout_millis poll_delay "nat i32_MAX * MILLI" MILLI
proof (unfold_locales, goal_cases)
  case (2 d)
  let ?ms = "PollTimeout_millis (Some d)"
  have nn: "0 \<le> ?ms" by (simp add: PollTimeout_Some i32_MAX_def)
  have lower: "min d (nat i32_MAX * MILLI) \<le> nat ?ms * MILLI"
  proof (cases "int (d div MILLI) + (if d > 0 then 1 else 0) \<le> i32_MAX")
    case True
    then have "?ms = int (d div MILLI + (if d > 0 then 1 else 0))"
      unfolding PollTimeout_Some by (simp add: min.absorb2)
    then have "nat ?ms = d div MILLI + (if d > 0 then 1 else 0)"
      by (simp only: nat_int)
    moreover have "d \<le> (d div MILLI + (if d > 0 then 1 else 0)) * MILLI"
      by (auto simp: MILLI_def)
    ultimately show ?thesis by simp
  next
    case False
    then show ?thesis by (simp add: PollTimeout_Some min_def)
  qed
  have "nat ?ms \<le> d div MILLI + (if d > 0 then 1 else 0)"
    by (auto simp: PollTimeout_Some)
  then have "nat ?ms * MILLI \<le> (d div MILLI + (if d > 0 then 1 else 0)) * MILLI"
    by (rule mult_le_mono1)
  also have "\<dots> \<le> d + MILLI"
    by (auto simp: MILLI_def)
  finally show ?case using nn lower by (simp add: poll_delay_def)
qed (auto simp: PollTimeout_millis_def poll_delay_def i32_MAX_def MILLI_def)

lemma timerfd_delay_Some:
  "timerfd_delay (TimerFd_itimerspec (Some d)) =
     Some (min (d div NANOS) (nat i64_MAX) * NANOS + max (d mod NANOS) 1)"
proof -
  have "(if int (d div NANOS) \<le> i64_MAX then int (d div NANOS) else i64_MAX) =
      int (min (d div NANOS) (nat i64_MAX))"
    by (auto simp: i64_MAX_def min_def)
  then have "tv_sec (it_value (TimerFd_itimerspec (Some d))) = int (min (d div NANOS) (nat i64_MAX))"
    by (simp add: TimerFd_itimerspec_def)
  moreover have "tv_nsec (it_value (TimerFd_itimerspec (Some d))) = int (max (d mod NANOS) 1)"
    by (simp add: TimerFd_itimerspec_def)
  ultimately have n: "tv_sec (it_value (TimerFd_itimerspec (Some d))) * int NANOS
      + tv_nsec (it_value (TimerFd_itimerspec (Some d)))
      = int (min (d div NANOS) (nat i64_MAX) * NANOS + max (d mod NANOS) 1)"
    by simp
  have "0 < min (d div NANOS) (nat i64_MAX) * NANOS + max (d mod NANOS) 1"
    by (simp add: max_def)
  then show ?thesis
    unfolding timerfd_delay_def n Let_def by (simp only: of_nat_eq_0_iff nat_int) simp
qed

interpretation timerfd_limit: wait_limit TimerFd_itimerspec timerfd_delay "nat i64_MAX * NANOS" 1
proof (unfold_locales, goal_cases)
  case 1
  show ?case by (simp add: timerfd_delay_def TimerFd_itimerspec_def Let_def)
next
  case (2 d)
  have dm: "d div NANOS * NANOS + d mod NANOS = d" by simp
  have "min d (nat i64_MAX * NANOS) \<le> min (d div NANOS) (nat i64_MAX) * NANOS + max (d mod NANOS) 1"
  proof (cases "d div NANOS \<le> nat i64_MAX")
    case True
    have "d \<le> d div NANOS * NANOS + max (d mod NANOS) 1" using dm by linarith
    then show ?thesis using True by (simp add: min.absorb1 min.coboundedI1)
  next
    case False
    then show ?thesis by simp
  qed
  moreover have "min (d div NANOS) (nat i64_MAX) * NANOS \<le> d div NANOS * NANOS"
    by simp
  then have "min (d div NANOS) (nat i64_MAX) * NANOS + max (d mod NANOS) 1 \<le> d + 1"
    using dm by linarith
  ultimately show ?case by (simp add: timerfd_delay_Some)
next
  case 3
  show ?case by (simp add: i64_MAX_def NANOS_def)
qed

section \<open>The poller\<close>

definition read_flags :: "pollflag set" where
  "read_flags = {P_IN, P_HUP, P_ERR, P_PRI}"

definition write_flags :: "pollflag set" where
  "write_flags = {P_OUT, P_HUP, P_ERR}"

definition Filter_pollflags :: "Filter \<Rightarrow> pollflag set" where
  "Filter_pollflags f =
     (if fl_read f then read_flags else {}) \<union> (if fl_write f then write_flags else {})"

definition Filter_of_revents :: "pollflag set \<Rightarrow> Filter" where
  "Filter_of_revents rs =
     \<lparr>fl_read = rs \<inter> read_flags \<noteq> {}, fl_write = rs \<inter> write_flags \<noteq> {}\<rparr>"

text \<open>A \<open>PollFd\<close>: descriptor, requested events, returned events.\<close>

record pollfd =
  pf_fd :: fd
  pf_events :: "pollflag set"
  pf_revents :: "pollflag set"

record poll_poller =
  pollfds :: "pollfd list"

text \<open>
  The trait \<open>EventPoller\<close>: an implementation is a record of its methods over its own
  state and the kernel.
\<close>

record ('p, 'k) event_poller =
  ep_register :: "Source \<Rightarrow> 'p \<Rightarrow> unit res \<times> 'p"
  ep_modify :: "Source \<Rightarrow> Filter \<Rightarrow> 'p \<Rightarrow> unit res \<times> 'p"
  ep_deregister :: "Source \<Rightarrow> 'p \<Rightarrow> unit res \<times> 'p"
  ep_poll :: "duration option \<Rightarrow> (Source \<times> Filter) list \<Rightarrow> 'p \<Rightarrow> 'k \<Rightarrow>
                (Source \<times> Filter) list option res \<times> 'p \<times> 'k"

definition PollFd_from :: "fd \<Rightarrow> pollflag set \<Rightarrow> pollfd" where
  "PollFd_from fd ev = \<lparr>pf_fd = fd, pf_events = ev, pf_revents = {}\<rparr>"

definition source_pollfds :: "(Source \<times> Filter) list \<Rightarrow> pollfd list" where
  "source_pollfds srcs =
     map (\<lambda>(s, f). PollFd_from s (Filter_pollflags f))
         (filter (\<lambda>(s, f). Filter_pollflags f \<noteq> {}) srcs)"

definition internal_pollfds :: "'k notifier_fd \<Rightarrow> 'k timeout \<Rightarrow> pollfd list" where
  "internal_pollfds N T =
     PollFd_from (nf_raw_fd N) read_flags #
     (case to_maybe_fd T of None \<Rightarrow> [] | Some fd \<Rightarrow> [PollFd_from fd read_flags])"

definition ready_fd :: "pollfd \<Rightarrow> bool" where
  "ready_fd p \<longleftrightarrow> pf_revents p \<noteq> {}"

definition pollfd_event :: "pollfd \<Rightarrow> Source \<times> Filter" where
  "pollfd_event p = (pf_fd p, Filter_of_revents (pf_revents p))"

text \<open>The \<open>match\<close> on the result of \<open>poll\<close>.\<close>

definition poll_outcome :: "nat \<Rightarrow> nat \<Rightarrow> pollfd list \<Rightarrow> (Source \<times> Filter) list option" where
  "poll_outcome n event_len fds =
     (if n = 0 then None
      else if (n = 1 \<or> n = 2) \<and> length (filter ready_fd (drop event_len fds)) = n then None
      else Some (map pollfd_event (filter ready_fd fds)))"

definition set_revents :: "pollfd list \<Rightarrow> pollflag set list \<Rightarrow> pollfd list" where
  "set_revents fds rs = map2 (\<lambda>p r. p\<lparr>pf_revents := r\<rparr>) fds rs"

definition PollPoller_poll ::
  "'k os \<Rightarrow> 'k notifier_fd \<Rightarrow> 'k timeout \<Rightarrow> duration option \<Rightarrow> (Source \<times> Filter) list \<Rightarrow>
     poll_poller \<Rightarrow> 'k \<Rightarrow> (Source \<times> Filter) list option res \<times> poll_poller \<times> 'k" where
  "PollPoller_poll os N T timeout event_sources p k =
     (let p0 = p\<lparr>pollfds := []\<rparr>
      in case to_set_timeout T timeout k of
           (Err e, k1) \<Rightarrow> (Err e, p0, k1)
         | (Panic m, k1) \<Rightarrow> (Panic m, p0, k1)
         | (Ok poll_timeout, k1) \<Rightarrow>
             (let srcs = source_pollfds event_sources;
                  event_len = length srcs;
                  fds = srcs @ internal_pollfds N T
              in case sys_poll os (map (\<lambda>f. (pf_fd f, pf_events f)) fds) poll_timeout k1 of
                   (Inl e, k2) \<Rightarrow> (Err e, p0\<lparr>pollfds := fds\<rparr>, k2)
                 | (Inr (n, rs), k2) \<Rightarrow>
                     (let fds' = set_revents fds rs
                      in (Ok (poll_outcome n event_len fds'), p0\<lparr>pollfds := fds'\<rparr>, k2))))"

definition PollPoller_register :: "Source \<Rightarrow> poll_poller \<Rightarrow> unit res \<times> poll_poller" where
  "PollPoller_register source p = (Ok (), p)"

definition PollPoller_modify :: "Source \<Rightarrow> Filter \<Rightarrow> poll_poller \<Rightarrow> unit res \<times> poll_poller" where
  "PollPoller_modify source f p = (Ok (), p)"

definition PollPoller_deregister :: "Source \<Rightarrow> poll_poller \<Rightarrow> unit res \<times> poll_poller" where
  "PollPoller_deregister source p = (Ok (), p)"

definition PollPoller :: "'k os \<Rightarrow> 'k notifier_fd \<Rightarrow> 'k timeout \<Rightarrow> (poll_poller, 'k) event_poller" where
  "PollPoller os N T =
     \<lparr>ep_register = PollPoller_register, ep_modify = PollPoller_modify,
      ep_deregister = PollPoller_deregister, ep_poll = PollPoller_poll os N T\<rparr>"

text \<open>
  \<open>PollPoller::new\<close>: the notifier is made before the timeout; on Linux both are
  descriptors, on the other systems the notifier is a pipe and there is no timer
  descriptor.
\<close>

definition PollPoller_new :: "'k os \<Rightarrow> 'k \<Rightarrow> (poll_poller \<times> 'k notifier_fd \<times> 'k timeout) res \<times> 'k" where
  "PollPoller_new os k =
     (case EventFd_new os k of
        (Err e, k1) \<Rightarrow> (Err e, k1)
      | (Panic m, k1) \<Rightarrow> (Panic m, k1)
      | (Ok efd, k1) \<Rightarrow>
          (case TimerFd_new os k1 of
             (Err e, k2) \<Rightarrow> (Err e, k2)
           | (Panic m, k2) \<Rightarrow> (Panic m, k2)
           | (Ok tfd, k2) \<Rightarrow> (Ok (\<lparr>pollfds = []\<rparr>, EventFd os efd, TimerFd os tfd), k2)))"

definition PollPoller_new_portable ::
  "'k os \<Rightarrow> 'k \<Rightarrow> (poll_poller \<times> 'k notifier_fd \<times> 'k timeout) res \<times> 'k" where
  "PollPoller_new_portable os k =
     (case PipeFd_new Other_Unix os k of
        (Err e, k1) \<Rightarrow> (Err e, k1)
      | (Panic m, k1) \<Rightarrow> (Panic m, k1)
      | (Ok p, k1) \<Rightarrow> (Ok (\<lparr>pollfds = []\<rparr>, PipeFd os p, PollTimeout), k1))"

text \<open>
  The documented result of \<open>poll(2)\<close>: one entry of returned events per descriptor, and
  the number of descriptors whose entry is not empty.
\<close>

definition poll_counts :: "'k os \<Rightarrow> bool" where
  "poll_counts os \<longleftrightarrow> (\<forall>fds t k n rs k'. sys_poll os fds t k = (Inr (n, rs), k') \<longrightarrow>
     length rs = length fds \<and> n = length (filter (\<lambda>r. r \<noteq> {}) rs))"

lemma poll_countsD:
  assumes "poll_counts os" and "sys_poll os fds t k = (Inr (n, rs), k')"
  shows "length rs = length fds" "n = length (filter (\<lambda>r. r \<noteq> {}) rs)"
  using assms unfolding poll_counts_def by blast+

lemma Filter_pollflags_empty [simp]:
  "Filter_pollflags f = {} \<longleftrightarrow> \<not> fl_read f \<and> \<not> fl_write f"
  by (auto simp: Filter_pollflags_def read_flags_def write_flags_def)

lemma length_internal: "length (internal_pollfds N T) \<in> {1, 2}"
  by (auto simp: internal_pollfds_def split: option.splits)

lemma set_revents_append:
  "length rs = length fds + length gds \<Longrightarrow>
   set_revents (fds @ gds) rs = set_revents fds (take (length fds) rs) @ set_revents gds (drop (length fds) rs)"
  by (simp add: set_revents_def zip_append1)

lemma length_set_revents [simp]: "length (set_revents fds rs) = min (length fds) (length rs)"
  by (simp add: set_revents_def)

lemma count_set_revents:
  "length rs = length fds \<Longrightarrow>
   length (filter ready_fd (set_revents fds rs)) = length (filter (\<lambda>r. r \<noteq> {}) rs)"
  by (induction fds rs rule: list_induct2') (auto simp: set_revents_def ready_fd_def)

text \<open>
  With the documented count, the poller reports nothing exactly when no event source is
  ready; otherwise it reports every ready descriptor, in the order it polled them.
\<close>

lemma poll_outcome_cases:
  assumes len: "length rs = length srcs + length ints" and ints: "length ints \<in> {1, 2}"
    and n: "n = length (filter (\<lambda>r. r \<noteq> {}) rs)"
  defines "fds \<equiv> set_revents (srcs @ ints) rs"
  shows "poll_outcome n (length srcs) fds =
    (if filter ready_fd (take (length srcs) fds) = [] then None
     else Some (map pollfd_event (filter ready_fd fds)))"
proof -
  let ?s = "set_revents srcs (take (length srcs) rs)"
  let ?i = "set_revents ints (drop (length srcs) rs)"
  have fds: "fds = ?s @ ?i" and ls: "length ?s = length srcs"
    using len by (simp_all add: fds_def set_revents_append)
  have n': "n = length (filter ready_fd ?s) + length (filter ready_fd ?i)"
    using count_set_revents [of rs "srcs @ ints"] len n fds by (simp add: fds_def)
  have "length (filter ready_fd ?i) \<le> 2"
    using len ints length_filter_le [of ready_fd ?i] by auto
  then have "length (filter ready_fd ?i) = 0 \<or> length (filter ready_fd ?i) = 1
      \<or> length (filter ready_fd ?i) = 2"
    by linarith
  then show ?thesis
    using fds ls n' by (auto simp: poll_outcome_def)
qed

lemma map_fd_set_revents: "length rs = length fds \<Longrightarrow> map pf_fd (set_revents fds rs) = map pf_fd fds"
  by (induction fds rs rule: list_induct2') (auto simp: set_revents_def)

lemma map_fd_sources:
  "map pf_fd (source_pollfds srcs) = map fst (filter (\<lambda>(s, f). fl_read f \<or> fl_write f) srcs)"
  by (induction srcs) (auto simp: source_pollfds_def PollFd_from_def)

lemma PollPoller_poll_Ok:
  assumes "poll_counts os" and "PollPoller_poll os N T timeout srcs p k = (Ok r, p', k')"
  shows "map pf_fd (pollfds p') = map fst (filter (\<lambda>(s, f). fl_read f \<or> fl_write f) srcs)
           @ map pf_fd (internal_pollfds N T)"
    and "r = (if filter ready_fd (take (length (source_pollfds srcs)) (pollfds p')) = [] then None
           else Some (map pollfd_event (filter ready_fd (pollfds p'))))"
proof -
  let ?fds = "source_pollfds srcs @ internal_pollfds N T"
  obtain t k1 where t: "to_set_timeout T timeout k = (Ok t, k1)"
    using assms(2) by (auto simp: PollPoller_poll_def Let_def split: prod.splits res.splits)
  obtain n rs where
      poll: "sys_poll os (map (\<lambda>f. (pf_fd f, pf_events f)) ?fds) t k1 = (Inr (n, rs), k')"
    and p': "pollfds p' = set_revents ?fds rs"
    and r: "r = poll_outcome n (length (source_pollfds srcs)) (set_revents ?fds rs)"
    using assms(2) t by (auto simp: PollPoller_poll_def Let_def split: prod.splits sum.splits)
  have len: "length rs = length ?fds" and n: "n = length (filter (\<lambda>r. r \<noteq> {}) rs)"
    using poll_countsD [OF assms(1) poll] by simp_all
  show "map pf_fd (pollfds p') = map fst (filter (\<lambda>(s, f). fl_read f \<or> fl_write f) srcs)
           @ map pf_fd (internal_pollfds N T)"
    using p' map_fd_set_revents [OF len] by (simp add: map_fd_sources)
  show "r = (if filter ready_fd (take (length (source_pollfds srcs)) (pollfds p')) = [] then None
           else Some (map pollfd_event (filter ready_fd (pollfds p'))))"
    unfolding p' r by (rule poll_outcome_cases [OF _ length_internal n]) (simp add: len)
qed

section \<open>Properties\<close>

text \<open>
  C24: Both ways of limiting a wait keep to their types and never end it early. The argument of
  \<open>poll\<close> is between -1 and \<open>i32::MAX\<close>, the timer's seconds are an \<open>i64\<close> and its nanoseconds
  below a second, and both mean no limit exactly when none was asked for. A limit is reached
  no earlier than asked, up to the longest wait the type can express, and at most a
  millisecond, or a nanosecond, later.
\<close>

theorem timeouts_in_bounds:
  "PollTimeout_millis t \<in> {- 1..i32_MAX}
   \<and> (poll_delay (PollTimeout_millis t) = None \<longleftrightarrow> t = None)
   \<and> (\<exists>n. poll_delay (PollTimeout_millis (Some d)) = Some n
        \<and> min d (nat i32_MAX * MILLI) \<le> n \<and> n \<le> d + MILLI)
   \<and> tv_sec (it_value (TimerFd_itimerspec t)) \<in> {0..i64_MAX}
   \<and> tv_nsec (it_value (TimerFd_itimerspec t)) \<in> {0..<int NANOS}
   \<and> (timerfd_delay (TimerFd_itimerspec t) = None \<longleftrightarrow> t = None)
   \<and> (\<exists>n. timerfd_delay (TimerFd_itimerspec (Some d)) = Some n
        \<and> min d (nat i64_MAX * NANOS) \<le> n \<and> n \<le> d + 1)"
proof (intro conjI)
  show "PollTimeout_millis t \<in> {- 1..i32_MAX}"
    by (cases t) (auto simp: PollTimeout_Some PollTimeout_millis_def [of None] i32_MAX_def)
  show "tv_sec (it_value (TimerFd_itimerspec t)) \<in> {0..i64_MAX}"
    by (cases t) (auto simp: TimerFd_itimerspec_def i64_MAX_def)
  show "tv_nsec (it_value (TimerFd_itimerspec t)) \<in> {0..<int NANOS}"
    by (cases t) (auto simp: TimerFd_itimerspec_def NANOS_def)
qed (rule poll_limit.unlimited_iff poll_limit.limited timerfd_limit.unlimited_iff timerfd_limit.limited)+

end
