(* ===== verification/Reactor.thy ===== *)
theory Reactor
  imports Timer_Queue Poller
begin

text \<open>
  The reactor of \<open>src/src/reactor.rs\<close>: the table of event sources with their wakers,
  the timer queue, and \<open>wait\<close>. A waker is a value of an arbitrary type; what waking it
  does is a function on the notifier's world that the operations take as an argument.
\<close>

section \<open>State and operations\<close>

datatype Interest = Interest_Read | Interest_Write

record 'w wakeup =
  enabled :: bool
  waker :: "'w option"

record 'w event_data =
  ed_read :: "'w wakeup"
  ed_write :: "'w wakeup"

record ('p, 'w) reactor =
  poller :: 'p
  event_sources :: "(Source, 'w event_data) btree"
  timer_queue :: "'w timer_queue"

definition Wakeup_default :: "'w wakeup" where
  "Wakeup_default = \<lparr>enabled = False, waker = None\<rparr>"

text \<open>The wakers that are called come first in the result.\<close>

definition Wakeup_wake :: "'w wakeup \<Rightarrow> 'w list \<times> 'w wakeup" where
  "Wakeup_wake u =
     (case (enabled u, waker u) of
        (True, Some w) \<Rightarrow> ([w], u\<lparr>enabled := False\<rparr>)
      | _ \<Rightarrow> ([], u))"

definition Wakeup_enable :: "'w \<Rightarrow> 'w wakeup \<Rightarrow> 'w wakeup" where
  "Wakeup_enable w u = u\<lparr>enabled := True, waker := Some w\<rparr>"

definition EventData_default :: "'w event_data" where
  "EventData_default = \<lparr>ed_read = Wakeup_default, ed_write = Wakeup_default\<rparr>"

definition EventData_filter :: "'w event_data \<Rightarrow> Filter" where
  "EventData_filter d = \<lparr>fl_read = enabled (ed_read d), fl_write = enabled (ed_write d)\<rparr>"

definition Reactor_new :: "'p \<Rightarrow> ('p, 'w) reactor" where
  "Reactor_new p = \<lparr>poller = p, event_sources = [], timer_queue = TimerQueue_new\<rparr>"

definition Reactor_register_event ::
  "('p, 'k) event_poller \<Rightarrow> Source \<Rightarrow> ('p, 'w) reactor \<Rightarrow> unit res \<times> ('p, 'w) reactor" where
  "Reactor_register_event EP source r =
     (case ep_register EP source (poller r) of
        (Err e, p) \<Rightarrow> (Err e, r\<lparr>poller := p\<rparr>)
      | (Panic m, p) \<Rightarrow> (Panic m, r\<lparr>poller := p\<rparr>)
      | (Ok _, p) \<Rightarrow>
          (case bt_insert source EventData_default (event_sources r) of
             (Some prev, m) \<Rightarrow>
               (Err (Other ''event source already registered in reactor''),
                r\<lparr>poller := p, event_sources := snd (bt_insert source prev m)\<rparr>)
           | (None, m) \<Rightarrow> (Ok (), r\<lparr>poller := p, event_sources := m\<rparr>)))"

definition Reactor_deregister_event ::
  "('p, 'k) event_poller \<Rightarrow> Source \<Rightarrow> ('p, 'w) reactor \<Rightarrow> unit res \<times> ('p, 'w) reactor" where
  "Reactor_deregister_event EP source r =
     (case bt_remove source (event_sources r) of
        (None, m) \<Rightarrow> (Panic ''deregistering non-existent event source'', r\<lparr>event_sources := m\<rparr>)
      | (Some _, m) \<Rightarrow>
          (let (res, p) = ep_deregister EP source (poller r)
           in (res, r\<lparr>poller := p, event_sources := m\<rparr>)))"

definition dir_enable :: "Interest \<Rightarrow> 'w \<Rightarrow> 'w event_data \<Rightarrow> 'w event_data" where
  "dir_enable i w d =
     (case i of
        Interest_Read \<Rightarrow> d\<lparr>ed_read := Wakeup_enable w (ed_read d)\<rparr>
      | Interest_Write \<Rightarrow> d\<lparr>ed_write := Wakeup_enable w (ed_write d)\<rparr>)"

definition dir_of :: "Interest \<Rightarrow> 'w event_data \<Rightarrow> 'w wakeup" where
  "dir_of i d = (case i of Interest_Read \<Rightarrow> ed_read d | Interest_Write \<Rightarrow> ed_write d)"

definition Reactor_enable_event ::
  "('p, 'k) event_poller \<Rightarrow> Source \<Rightarrow> Interest \<Rightarrow> 'w \<Rightarrow> ('p, 'w) reactor \<Rightarrow>
     unit res \<times> ('p, 'w) reactor" where
  "Reactor_enable_event EP source i w r =
     (case map_of (event_sources r) source of
        None \<Rightarrow> (Panic ''enabling non-existent event source'', r)
      | Some d \<Rightarrow>
          (let d' = dir_enable i w d;
               (res, p) = ep_modify EP source (EventData_filter d') (poller r)
           in (res, r\<lparr>poller := p, event_sources := bt_put source d' (event_sources r)\<rparr>)))"

definition Reactor_is_event_ready :: "Source \<Rightarrow> Interest \<Rightarrow> ('p, 'w) reactor \<Rightarrow> bool res" where
  "Reactor_is_event_ready source i r =
     (case map_of (event_sources r) source of
        None \<Rightarrow> Panic ''checking non-existent event source''
      | Some d \<Rightarrow> Ok (\<not> enabled (dir_of i d)))"

definition Reactor_register_timer ::
  "instant \<Rightarrow> 'w \<Rightarrow> ('p, 'w) reactor \<Rightarrow> (Id_rs \<times> ('p, 'w) reactor) option" where
  "Reactor_register_timer expiry w r =
     map_option (\<lambda>(i, q). (i, r\<lparr>timer_queue := q\<rparr>)) (TimerQueue_register expiry w (timer_queue r))"

definition Reactor_cancel_timer :: "Id_rs \<Rightarrow> instant \<Rightarrow> ('p, 'w) reactor \<Rightarrow> ('p, 'w) reactor" where
  "Reactor_cancel_timer i expiry r =
     r\<lparr>timer_queue := TimerQueue_cancel i expiry (timer_queue r)\<rparr>"

definition Reactor_modify_timer ::
  "Id_rs \<Rightarrow> instant \<Rightarrow> 'w \<Rightarrow> ('p, 'w) reactor \<Rightarrow> ('p, 'w) reactor" where
  "Reactor_modify_timer i expiry w r =
     r\<lparr>timer_queue := TimerQueue_modify i expiry w (timer_queue r)\<rparr>"

text \<open>\<open>clear_notifications\<close> logs an error of the notifier and goes on.\<close>

definition Reactor_clear_notifications :: "'k notifier_fd \<Rightarrow> 'k nworld \<Rightarrow> 'k nworld" where
  "Reactor_clear_notifications N n = snd (WithFlag_clear N n)"

definition Reactor_is_empty :: "('p, 'w) reactor \<Rightarrow> bool" where
  "Reactor_is_empty r \<longleftrightarrow> TimerQueue_is_empty (timer_queue r) \<and> event_sources r = []"

text \<open>The body of the loop over the returned events: read before write.\<close>

definition event_fire :: "Filter \<Rightarrow> 'w event_data \<Rightarrow> 'w list \<times> 'w event_data" where
  "event_fire f d =
     (let (ws, d1) = (if fl_read f
                      then (let (ws, u) = Wakeup_wake (ed_read d) in (ws, d\<lparr>ed_read := u\<rparr>))
                      else ([], d));
          (ws', d2) = (if fl_write f
                       then (let (ws, u) = Wakeup_wake (ed_write d1) in (ws, d1\<lparr>ed_write := u\<rparr>))
                       else ([], d1))
      in (ws @ ws', d2))"

fun dispatch_events ::
  "('w \<Rightarrow> 'n \<Rightarrow> 'n) \<Rightarrow> (Source \<times> Filter) list \<Rightarrow> (Source, 'w event_data) btree \<Rightarrow> 'n \<Rightarrow>
     unit res \<times> (Source, 'w event_data) btree \<times> 'n" where
  "dispatch_events wake [] m n = (Ok (), m, n)"
| "dispatch_events wake ((source, f) # evs) m n =
     (case map_of m source of
        None \<Rightarrow> (Panic ''called Option::unwrap() on a None value'', m, n)
      | Some d \<Rightarrow>
          (let (ws, d') = event_fire f d
           in dispatch_events wake evs (bt_put source d' m) (fold wake ws n)))"

text \<open>The sources with their enabled directions, as \<open>wait\<close> hands them to the poller.\<close>

definition Reactor_interests :: "('p, 'w) reactor \<Rightarrow> (Source \<times> Filter) list" where
  "Reactor_interests r = map (\<lambda>(s, d). (s, EventData_filter d)) (event_sources r)"

text \<open>
  The end of \<open>wait\<close>: clear the expired timers, calling their wakers, then the notifier.
\<close>

definition wait_finish ::
  "'k os \<Rightarrow> 'k notifier_fd \<Rightarrow> ('w \<Rightarrow> 'k nworld \<Rightarrow> 'k nworld) \<Rightarrow> ('p, 'w) reactor \<Rightarrow> 'k nworld \<Rightarrow>
     unit res \<times> ('p, 'w) reactor \<times> 'k nworld" where
  "wait_finish os N wake r n =
     (let (now, k) = sys_now os (kernel n);
          (ws, q) = TimerQueue_clear_expired now (timer_queue r);
          n1 = fold wake ws (n\<lparr>kernel := k\<rparr>)
      in (Ok (), r\<lparr>timer_queue := q\<rparr>, Reactor_clear_notifications N n1))"

definition Reactor_wait ::
  "('p, 'k) event_poller \<Rightarrow> 'k os \<Rightarrow> 'k notifier_fd \<Rightarrow> ('w \<Rightarrow> 'k nworld \<Rightarrow> 'k nworld) \<Rightarrow>
     ('p, 'w) reactor \<Rightarrow> 'k nworld \<Rightarrow> unit res \<times> ('p, 'w) reactor \<times> 'k nworld" where
  "Reactor_wait EP os N wake r n =
     (let (now, k) = sys_now os (kernel n);
          timeout = TimerQueue_next_timeout now (timer_queue r);
          n0 = n\<lparr>kernel := k\<rparr>
      in if timeout = Some 0 \<or> is_notified n0 then wait_finish os N wake r n0
         else (case ep_poll EP timeout (Reactor_interests r) (poller r) (kernel n0) of
                 (Err e, p, k1) \<Rightarrow> (Err e, r\<lparr>poller := p\<rparr>, n0\<lparr>kernel := k1\<rparr>)
               | (Panic m, p, k1) \<Rightarrow> (Panic m, r\<lparr>poller := p\<rparr>, n0\<lparr>kernel := k1\<rparr>)
               | (Ok revents, p, k1) \<Rightarrow>
                   (let n1 = WithFlag_set_to_notified (n0\<lparr>kernel := k1\<rparr>);
                        evs = (case revents of None \<Rightarrow> [] | Some es \<Rightarrow> es)
                    in case dispatch_events wake evs (event_sources r) n1 of
                         (Ok _, m, n2) \<Rightarrow>
                           wait_finish os N wake (r\<lparr>poller := p, event_sources := m\<rparr>) n2
                       | (Err e, m, n2) \<Rightarrow> (Err e, r\<lparr>poller := p, event_sources := m\<rparr>, n2)
                       | (Panic msg, m, n2) \<Rightarrow>
                           (Panic msg, r\<lparr>poller := p, event_sources := m\<rparr>, n2))))"

text \<open>
  Invariant: both maps are ordered, and a direction that is enabled has a waker.
\<close>

definition wakeup_ok :: "'w wakeup \<Rightarrow> bool" where
  "wakeup_ok u \<longleftrightarrow> (enabled u \<longrightarrow> waker u \<noteq> None)"

definition event_data_ok :: "'w event_data \<Rightarrow> bool" where
  "event_data_ok d \<longleftrightarrow> wakeup_ok (ed_read d) \<and> wakeup_ok (ed_write d)"

definition sources_ok :: "(Source, 'w event_data) btree \<Rightarrow> bool" where
  "sources_ok m \<longleftrightarrow> bt_ok m \<and> (\<forall>e \<in> set m. event_data_ok (snd e))"

definition reactor_ok :: "('p, 'w) reactor \<Rightarrow> bool" where
  "reactor_ok r \<longleftrightarrow> sources_ok (event_sources r) \<and> tq_ok (timer_queue r)"

abbreviation source_data :: "('p, 'w) reactor \<Rightarrow> Source \<Rightarrow> 'w event_data option" where
  "source_data r \<equiv> map_of (event_sources r)"

section \<open>Invariant\<close>

lemma wakeup_ok_simps [simp]:
  "wakeup_ok Wakeup_default" "wakeup_ok (Wakeup_enable w u)"
  by (simp_all add: wakeup_ok_def Wakeup_default_def Wakeup_enable_def)

lemma event_data_ok_simps [simp]:
  "event_data_ok EventData_default" "event_data_ok d \<Longrightarrow> event_data_ok (dir_enable i w d)"
  by (auto simp: event_data_ok_def EventData_default_def dir_enable_def split: Interest.splits)

text \<open>What an event does to an entry that satisfies the invariant.\<close>

definition fired_wakers :: "Filter \<Rightarrow> 'w event_data \<Rightarrow> 'w list" where
  "fired_wakers f d =
     (if fl_read f \<and> enabled (ed_read d) then [the (waker (ed_read d))] else []) @
     (if fl_write f \<and> enabled (ed_write d) then [the (waker (ed_write d))] else [])"

definition fired_data :: "Filter \<Rightarrow> 'w event_data \<Rightarrow> 'w event_data" where
  "fired_data f d =
     d\<lparr>ed_read := (ed_read d)\<lparr>enabled := enabled (ed_read d) \<and> \<not> fl_read f\<rparr>,
       ed_write := (ed_write d)\<lparr>enabled := enabled (ed_write d) \<and> \<not> fl_write f\<rparr>\<rparr>"

lemma Wakeup_wake_ok:
  "wakeup_ok u \<Longrightarrow> Wakeup_wake u =
     ((if enabled u then [the (waker u)] else []), u\<lparr>enabled := False\<rparr>)"
  by (cases u) (auto simp: Wakeup_wake_def wakeup_ok_def split: bool.splits option.splits)

lemma event_fire_ok:
  "event_data_ok d \<Longrightarrow> event_fire f d = (fired_wakers f d, fired_data f d)"
  by (cases d, cases "ed_read d", cases "ed_write d")
    (auto simp: event_fire_def event_data_ok_def Wakeup_wake_ok fired_wakers_def fired_data_def)

lemma fired_data_ok: "event_data_ok d \<Longrightarrow> event_data_ok (fired_data f d)"
  by (auto simp: event_data_ok_def wakeup_ok_def fired_data_def)

lemma sources_ok_lookup: "sources_ok m \<Longrightarrow> map_of m s = Some d \<Longrightarrow> event_data_ok d"
  by (force simp: sources_ok_def dest: map_of_SomeD)

lemma sources_ok_put: "sources_ok m \<Longrightarrow> event_data_ok d \<Longrightarrow> sources_ok (bt_put s d m)"
  by (auto simp: sources_ok_def bt_put_ok set_bt_put)

lemma sources_ok_del: "sources_ok m \<Longrightarrow> sources_ok (bt_del s m)"
  by (auto simp: sources_ok_def bt_del_ok set_bt_del)

lemma sources_ok_Nil [simp]: "sources_ok []"
  by (simp add: sources_ok_def)

lemma reactor_ok_new [rt_inv]: "reactor_ok (Reactor_new p)"
  by (simp add: reactor_ok_def Reactor_new_def)

lemma Reactor_register_event_eq:
  assumes "reactor_ok r"
  shows "Reactor_register_event EP s r =
    (let (res, p) = ep_register EP s (poller r)
     in case res of
          Ok _ \<Rightarrow> (case source_data r s of
              None \<Rightarrow> (Ok (), r\<lparr>poller := p, event_sources := bt_put s EventData_default (event_sources r)\<rparr>)
            | Some d \<Rightarrow> (Err (Other ''event source already registered in reactor''), r\<lparr>poller := p\<rparr>))
        | Err e \<Rightarrow> (Err e, r\<lparr>poller := p\<rparr>)
        | Panic m \<Rightarrow> (Panic m, r\<lparr>poller := p\<rparr>))"
proof -
  have ok: "bt_ok (event_sources r)"
    using assms by (simp add: reactor_ok_def sources_ok_def)
  have "snd (bt_insert s d (bt_put s EventData_default (event_sources r))) = event_sources r"
    if "source_data r s = Some d" for d
    using bt.insert_restore [OF ok, of s EventData_default d] that by (simp add: bt_insert_def)
  then show ?thesis
    by (auto simp: Reactor_register_event_def bt_insert_def Let_def
        split: prod.splits res.splits option.splits)
qed

lemma reactor_ok_register_event [rt_inv]:
  "reactor_ok r \<Longrightarrow> reactor_ok (snd (Reactor_register_event EP s r))"
  by (auto simp: Reactor_register_event_eq Let_def split: prod.splits res.splits option.splits)
    (auto simp: reactor_ok_def sources_ok_put)

lemma reactor_ok_deregister_event [rt_inv]:
  "reactor_ok r \<Longrightarrow> reactor_ok (snd (Reactor_deregister_event EP s r))"
  by (auto simp: reactor_ok_def Reactor_deregister_event_def bt_remove_def sources_ok_del
      split: prod.splits option.splits)

lemma reactor_ok_enable_event [rt_inv]:
  "reactor_ok r \<Longrightarrow> reactor_ok (snd (Reactor_enable_event EP s i w r))"
  by (auto simp: reactor_ok_def Reactor_enable_event_def sources_ok_put sources_ok_lookup Let_def
      split: prod.splits option.splits)

lemma dispatch_events_ok:
  "sources_ok m \<Longrightarrow> sources_ok (fst (snd (dispatch_events wake evs m n)))"
  by (induction wake evs m n rule: dispatch_events.induct)
    (auto simp: sources_ok_put sources_ok_lookup event_fire_ok fired_data_ok
      split: prod.splits option.splits)

lemma wait_finish_ok: "reactor_ok r \<Longrightarrow> reactor_ok (fst (snd (wait_finish os N wake r n)))"
  using tq_ok_clear [of "timer_queue r"]
  by (auto simp: reactor_ok_def wait_finish_def Let_def split: prod.splits) (metis snd_conv)

lemma reactor_ok_wait [rt_inv]:
  assumes "reactor_ok r"
  shows "reactor_ok (fst (snd (Reactor_wait EP os N wake r n)))"
proof -
  have disp: "sources_ok m" if "dispatch_events wake evs (event_sources r) n' = (res, m, n'')"
    for evs n' res m n''
    using dispatch_events_ok [of "event_sources r" wake evs n'] that assms
    by (simp add: reactor_ok_def)
  have fin: "reactor_ok (fst (snd (wait_finish os N wake r' n')))"
    if "sources_ok (event_sources r')" "timer_queue r' = timer_queue r"
    for r' :: "('a, 'b) reactor" and n'
    using that assms by (intro wait_finish_ok) (simp add: reactor_ok_def)
  show ?thesis
    using assms fin disp
    by (auto simp: Reactor_wait_def Let_def reactor_ok_def [of r] split: prod.splits res.splits)
      (auto simp: reactor_ok_def dest: disp)
qed

interpretation rtimers: timer_store "\<lambda>r. armed (timer_queue r)" Reactor_register_timer
  Reactor_modify_timer Reactor_cancel_timer
  "\<lambda>now r. r\<lparr>timer_queue := snd (TimerQueue_clear_expired now (timer_queue r))\<rparr>" reactor_ok
proof (unfold_locales, goal_cases)
  case (1 s e w i s')
  then show ?case by (auto simp: reactor_ok_def Reactor_register_timer_def tq.register_fresh)
next
  case (2 s e w i s')
  then show ?case by (auto simp: reactor_ok_def Reactor_register_timer_def tq.register_armed)
next
  case (3 s e w i s')
  then show ?case by (auto simp: reactor_ok_def Reactor_register_timer_def tq.register_ok)
next
  case (4 s i e w)
  then show ?case by (simp add: reactor_ok_def Reactor_modify_timer_def tq.modify_armed)
next
  case (6 s i e)
  then show ?case by (simp add: reactor_ok_def Reactor_cancel_timer_def tq.cancel_armed)
next
  case (8 s now k)
  then show ?case by (simp add: reactor_ok_def tq.clear_armed)
qed (auto simp: reactor_ok_def Reactor_modify_timer_def Reactor_cancel_timer_def rt_inv)

section \<open>Sources\<close>

text \<open>
  A poller whose registration calls always succeed and change nothing: what the reactor
  needs for its own table to decide the outcome.
\<close>

locale passive_poller =
  fixes EP :: "('p, 'k) event_poller"
  assumes register_noop: "ep_register EP s p = (Ok (), p)"
    and modify_noop: "ep_modify EP s f p = (Ok (), p)"
    and deregister_noop: "ep_deregister EP s p = (Ok (), p)"
begin

lemma register_fresh:
  "reactor_ok r \<Longrightarrow> source_data r s = None \<Longrightarrow>
   Reactor_register_event EP s r =
     (Ok (), r\<lparr>event_sources := bt_put s EventData_default (event_sources r)\<rparr>)"
  by (simp add: Reactor_register_event_eq register_noop)

lemma register_again:
  "reactor_ok r \<Longrightarrow> source_data r s \<noteq> None \<Longrightarrow>
   Reactor_register_event EP s r = (Err (Other ''event source already registered in reactor''), r)"
  by (auto simp: Reactor_register_event_eq register_noop)

lemma enable_registered:
  "source_data r s = Some d \<Longrightarrow>
   Reactor_enable_event EP s i w r =
     (Ok (), r\<lparr>event_sources := bt_put s (dir_enable i w d) (event_sources r)\<rparr>)"
  by (simp add: Reactor_enable_event_def modify_noop)

lemma deregister_registered:
  "source_data r s \<noteq> None \<Longrightarrow>
   Reactor_deregister_event EP s r = (Ok (), r\<lparr>event_sources := bt_del s (event_sources r)\<rparr>)"
  by (auto simp: Reactor_deregister_event_def bt_remove_def deregister_noop)

text \<open>Registering a source and deregistering it restores the reactor.\<close>

lemma register_deregister:
  assumes "reactor_ok r" and "source_data r s = None"
  shows "Reactor_deregister_event EP s (snd (Reactor_register_event EP s r)) = (Ok (), r)"
proof -
  have ok: "bt_ok (event_sources r)"
    using assms(1) by (simp add: reactor_ok_def sources_ok_def)
  have "bt_del s (bt_put s EventData_default (event_sources r)) = event_sources r"
    using bt.insert_remove [OF ok, of s EventData_default] assms(2)
    by (simp add: bt_insert_def bt_remove_def)
  then show ?thesis
    using assms by (simp add: register_fresh deregister_registered)
qed

lemma enable_not_ready:
  assumes "source_data r s \<noteq> None"
  shows "Reactor_is_event_ready s i (snd (Reactor_enable_event EP s i w r)) = Ok False"
  using assms
  by (cases i) (auto simp: enable_registered Reactor_is_event_ready_def dir_of_def dir_enable_def
      Wakeup_enable_def)

end

interpretation ppoll: passive_poller "PollPoller os N T"
  for os :: "'k os" and N T
  by unfold_locales
    (simp_all add: PollPoller_def PollPoller_register_def PollPoller_modify_def PollPoller_deregister_def)

section \<open>Dispatching events\<close>

lemma dispatch_events_registered:
  assumes "sources_ok m" and "distinct (map fst evs)" and "\<forall>e \<in> set evs. map_of m (fst e) \<noteq> None"
  shows "\<exists>m'. dispatch_events wake evs m n =
      (Ok (), m', fold wake (concat (map (\<lambda>(s, f). fired_wakers f (the (map_of m s))) evs)) n)
    \<and> (\<forall>s. map_of m' s = (case map_of evs s of
             None \<Rightarrow> map_of m s | Some f \<Rightarrow> map_option (fired_data f) (map_of m s)))"
  using assms
proof (induction evs arbitrary: m n)
  case Nil
  then show ?case by simp
next
  case (Cons ev evs)
  obtain s f where ev: "ev = (s, f)" by fastforce
  obtain d where d: "map_of m s = Some d" using Cons.prems(3) ev by auto
  have dok: "event_data_ok d" using sources_ok_lookup Cons.prems(1) d by blast
  let ?m = "bt_put s (fired_data f d) m"
  have ok: "sources_ok ?m" using Cons.prems(1) dok by (simp add: sources_ok_put fired_data_ok)
  have rest: "map_of ?m s' = map_of m s'" if "s' \<in> fst ` set evs" for s'
    using that Cons.prems(2) ev by auto
  have eq: "concat (map (\<lambda>(s, f). fired_wakers f (the (map_of ?m s))) evs) =
      concat (map (\<lambda>(s, f). fired_wakers f (the (map_of m s))) evs)"
  proof -
    have "fired_wakers f' (the (map_of ?m s')) = fired_wakers f' (the (map_of m s'))"
      if "(s', f') \<in> set evs" for s' f'
      using that by (subst rest) (force intro: rev_image_eqI)+
    then show ?thesis by (intro arg_cong [where f = concat] map_cong) auto
  qed
  obtain m' where m': "dispatch_events wake evs ?m (fold wake (fired_wakers f d) n) =
      (Ok (), m', fold wake (concat (map (\<lambda>(s, f). fired_wakers f (the (map_of m s))) evs))
         (fold wake (fired_wakers f d) n))"
    and lk: "\<forall>s. map_of m' s = (case map_of evs s of
             None \<Rightarrow> map_of ?m s | Some f \<Rightarrow> map_option (fired_data f) (map_of ?m s))"
    using Cons.IH [OF ok, of "fold wake (fired_wakers f d) n"] Cons.prems eq rest by auto
  have "s \<notin> fst ` set evs" using Cons.prems(2) ev by auto
  then have "map_of evs s = None" by (simp add: map_of_eq_None_iff)
  then have "\<forall>s'. map_of m' s' = (case map_of (ev # evs) s' of
             None \<Rightarrow> map_of m s' | Some f \<Rightarrow> map_option (fired_data f) (map_of m s'))"
    using lk ev d by (auto split: option.splits)
  then show ?case
    using m' ev d dok by (simp add: event_fire_ok)
qed

text \<open>The loop panics exactly when an event of an unregistered source comes up.\<close>

lemma dispatch_events_panic:
  "is_panic (fst (dispatch_events wake evs m n)) \<longleftrightarrow> (\<exists>e \<in> set evs. map_of m (fst e) = None)"
proof (induction wake evs m n rule: dispatch_events.induct)
  case (2 wake source f evs m n)
  show ?case
  proof (cases "map_of m source")
    case (Some d)
    obtain ws d' where ef: "event_fire f d = (ws, d')" by fastforce
    have "is_panic (fst (dispatch_events wake ((source, f) # evs) m n)) \<longleftrightarrow>
        (\<exists>e \<in> set evs. map_of (bt_put source d' m) (fst e) = None)"
      using 2 [OF Some ef [symmetric] refl] Some ef by simp
    also have "\<dots> \<longleftrightarrow> (\<exists>e \<in> set evs. map_of m (fst e) = None)"
      using Some by (intro bex_cong) auto
    finally show ?thesis using Some by simp
  qed simp
qed simp

lemma dispatch_events_not_Err: "fst (dispatch_events wake evs m n) \<noteq> Err e"
  by (induction wake evs m n rule: dispatch_events.induct) (auto split: prod.splits option.splits)

lemma dispatch_events_dom:
  "dom (map_of (fst (snd (dispatch_events wake evs m n)))) = dom (map_of m)"
proof (induction wake evs m n rule: dispatch_events.induct)
  case (2 wake source f evs m n)
  show ?case
  proof (cases "map_of m source")
    case (Some d)
    obtain ws d' where ef: "event_fire f d = (ws, d')" by fastforce
    have "dom (map_of (bt_put source d' m)) = dom (map_of m)"
      using Some by auto
    from trans [OF 2 [OF Some ef [symmetric] refl] this] show ?thesis using Some ef by simp
  qed simp
qed simp

section \<open>Waiting\<close>

lemma wait_finish_eq:
  assumes "tq_ok (timer_queue r)" and "sys_now os (kernel n) = (now, k)"
  shows "wait_finish os N wake r n =
    (Ok (),
     r\<lparr>timer_queue := (timer_queue r)\<lparr>timers := filter (\<lambda>e. now < fst (fst e)) (timers (timer_queue r))\<rparr>\<rparr>,
     Reactor_clear_notifications N
       (fold wake (map snd (filter (\<lambda>e. fst (fst e) \<le> now) (timers (timer_queue r)))) (n\<lparr>kernel := k\<rparr>)))"
  using assms by (simp add: wait_finish_def TimerQueue_clear_expired_eq)

lemma wait_finish_Ok [simp]: "fst (wait_finish os N wake r n) = Ok ()"
  by (simp add: wait_finish_def Let_def split: prod.splits)

lemma wait_finish_flag: "\<not> is_notified (snd (snd (wait_finish os N wake r n)))"
  using notif.lower_flag
  by (auto simp: wait_finish_def Let_def Reactor_clear_notifications_def split: prod.splits)

lemma Reactor_wait_skip:
  assumes "sys_now os (kernel n) = (now, k)"
    and "TimerQueue_next_timeout now (timer_queue r) = Some 0 \<or> is_notified n"
  shows "Reactor_wait EP os N wake r n = wait_finish os N wake r (n\<lparr>kernel := k\<rparr>)"
  using assms by (auto simp: Reactor_wait_def)

lemma Reactor_wait_poll:
  assumes "sys_now os (kernel n) = (now, k)"
    and "TimerQueue_next_timeout now (timer_queue r) \<noteq> Some 0" and "\<not> is_notified n"
    and "ep_poll EP (TimerQueue_next_timeout now (timer_queue r)) (Reactor_interests r) (poller r) k =
           (Ok revents, p, k1)"
  shows "Reactor_wait EP os N wake r n =
    (let evs = (case revents of None \<Rightarrow> [] | Some es \<Rightarrow> es)
     in case dispatch_events wake evs (event_sources r) \<lparr>kernel = k1, is_notified = True\<rparr> of
          (Ok _, m, n2) \<Rightarrow> wait_finish os N wake (r\<lparr>poller := p, event_sources := m\<rparr>) n2
        | (Err e, m, n2) \<Rightarrow> (Err e, r\<lparr>poller := p, event_sources := m\<rparr>, n2)
        | (Panic msg, m, n2) \<Rightarrow> (Panic msg, r\<lparr>poller := p, event_sources := m\<rparr>, n2))"
proof -
  have "WithFlag_set_to_notified (n\<lparr>kernel := k, kernel := k1\<rparr>) = \<lparr>kernel = k1, is_notified = True\<rparr>"
    by (cases n) (simp add: WithFlag_set_to_notified_def)
  then show ?thesis
    using assms by (simp add: Reactor_wait_def Let_def)
qed

lemma Reactor_wait_panic:
  assumes "sys_now os (kernel n) = (now, k)"
    and "TimerQueue_next_timeout now (timer_queue r) \<noteq> Some 0" and "\<not> is_notified n"
    and "ep_poll EP (TimerQueue_next_timeout now (timer_queue r)) (Reactor_interests r) (poller r) k =
           (Ok revents, p, k1)"
  shows "is_panic (fst (Reactor_wait EP os N wake r n)) \<longleftrightarrow>
    (\<exists>es. revents = Some es \<and> (\<exists>e \<in> set es. source_data r (fst e) = None))"
proof -
  let ?evs = "case revents of None \<Rightarrow> [] | Some es \<Rightarrow> es"
  have "is_panic (fst (Reactor_wait EP os N wake r n)) \<longleftrightarrow>
      is_panic (fst (dispatch_events wake ?evs (event_sources r) \<lparr>kernel = k1, is_notified = True\<rparr>))"
    unfolding Reactor_wait_poll [OF assms] by (auto simp: Let_def split: prod.splits res.splits)
  then show ?thesis
    by (cases revents) (simp_all add: dispatch_events_panic)
qed

lemma fst_interests:
  "fst ` set (filter (\<lambda>(s, f). fl_read f \<or> fl_write f) (Reactor_interests r)) \<subseteq> dom (source_data r)"
  by (auto simp: Reactor_interests_def dom_map_of_conv_image_fst intro: rev_image_eqI)

text \<open>
  C4: With the Unix poller, \<open>wait\<close> panics exactly when \<open>poll\<close> returns with a registered
  event source ready and, in the same call, the notifier's or the timer's own descriptor
  ready: the poller then reports its own descriptor too, and the loop over the reported
  events looks it up in the table of registered sources.
\<close>

theorem PollPoller_wait_panic_iff:
  assumes "poll_counts os" and "sys_now os (kernel n) = (now, k)"
    and "TimerQueue_next_timeout now (timer_queue r) \<noteq> Some 0" and "\<not> is_notified n"
    and poll: "PollPoller_poll os N T (TimerQueue_next_timeout now (timer_queue r))
           (Reactor_interests r) (poller r) k = (Ok revents, p, k1)"
    and own: "\<forall>f \<in> set (internal_pollfds N T). source_data r (pf_fd f) = None"
  shows "is_panic (fst (Reactor_wait (PollPoller os N T) os N wake r n)) \<longleftrightarrow>
    (let m = length (source_pollfds (Reactor_interests r))
     in (\<exists>f \<in> set (take m (pollfds p)). ready_fd f) \<and> (\<exists>f \<in> set (drop m (pollfds p)). ready_fd f))"
proof -
  let ?m = "length (source_pollfds (Reactor_interests r))"
  let ?fds = "pollfds p"
  let ?S = "map fst (filter (\<lambda>(s, f). fl_read f \<or> fl_write f) (Reactor_interests r))"
  note fds = PollPoller_poll_Ok(1) [OF assms(1) poll]
  note out = PollPoller_poll_Ok(2) [OF assms(1) poll]
  have m: "?m = length ?S" using arg_cong [OF map_fd_sources, of length] by simp
  have "map pf_fd (take ?m ?fds) = ?S" and "map pf_fd (drop ?m ?fds) = map pf_fd (internal_pollfds N T)"
    using fds m by (simp_all flip: take_map drop_map)
  from this [THEN arg_cong [where f = set]]
  have fd_set: "pf_fd ` set (take ?m ?fds) = set ?S"
      "pf_fd ` set (drop ?m ?fds) = pf_fd ` set (internal_pollfds N T)"
    by simp_all
  have reg: "source_data r (pf_fd f) \<noteq> None" if "f \<in> set (take ?m ?fds)" for f
  proof -
    have "pf_fd f \<in> set ?S" using that fd_set(1) by blast
    then show ?thesis using fst_interests [of r] by auto
  qed
  have unreg: "source_data r (pf_fd f) = None" if "f \<in> set (drop ?m ?fds)" for f
  proof -
    have "pf_fd f \<in> pf_fd ` set (internal_pollfds N T)" using that fd_set(2) by blast
    then show ?thesis using own by auto
  qed
  have split: "set ?fds = set (take ?m ?fds) \<union> set (drop ?m ?fds)"
    by (metis append_take_drop_id set_append)
  have "is_panic (fst (Reactor_wait (PollPoller os N T) os N wake r n)) \<longleftrightarrow>
      (\<exists>es. revents = Some es \<and> (\<exists>e \<in> set es. source_data r (fst e) = None))"
    using poll by (intro Reactor_wait_panic [OF assms(2-4)]) (simp add: PollPoller_def)
  also have "\<dots> \<longleftrightarrow> (\<exists>f \<in> set (take ?m ?fds). ready_fd f) \<and>
      (\<exists>f \<in> set ?fds. ready_fd f \<and> source_data r (pf_fd f) = None)"
    unfolding out by (auto simp: filter_empty_conv pollfd_event_def)
  also have "\<dots> \<longleftrightarrow> (\<exists>f \<in> set (take ?m ?fds). ready_fd f) \<and> (\<exists>f \<in> set (drop ?m ?fds). ready_fd f)"
    using reg unreg split by blast
  finally show ?thesis by (simp add: Let_def)
qed

text \<open>
  A system whose \<open>poll\<close> reports every polled descriptor readable, with a clock that
  stands still: the setting for the concrete instances below.
\<close>

definition busy_os :: "unit os" where
  "busy_os = \<lparr>
     sys_read = (\<lambda>_ n k. (Inr n, k)),
     sys_write = (\<lambda>_ bs k. (Inr (length bs), k)),
     sys_poll = (\<lambda>fds _ k. (Inr (length fds, map (\<lambda>_. {P_IN}) fds), k)),
     sys_timerfd_settime = (\<lambda>_ _ k. (Inr (), k)),
     sys_now = (\<lambda>k. (0, k)),
     sys_eventfd = (\<lambda>_ _ k. (Inr 3, k)),
     sys_pipe = (\<lambda>k. (Inr (3, 4), k)),
     sys_timerfd_create = (\<lambda>_ k. (Inr 4, k)),
     sys_ioctl_fionbio = (\<lambda>_ _ k. (Inr (), k)),
     sys_fcntl_getfl = (\<lambda>_ k. (Inr {}, k)),
     sys_fcntl_setfl = (\<lambda>_ _ k. (Inr (), k))\<rparr>"

definition busy_notifier :: "unit notifier_fd" where
  "busy_notifier = EventFd busy_os 3"

definition one_reader :: "(poll_poller, nat) reactor" where
  "one_reader = \<lparr>poller = \<lparr>pollfds = []\<rparr>,
     event_sources = [(7, dir_enable Interest_Read 42 EventData_default)],
     timer_queue = TimerQueue_new\<rparr>"

definition idle_world :: "unit nworld" where
  "idle_world = \<lparr>kernel = (), is_notified = False\<rparr>"

lemma busy_poll_counts: "poll_counts busy_os"
  by (simp add: poll_counts_def busy_os_def filter_map o_def)

lemmas busy_defs = busy_os_def busy_notifier_def one_reader_def idle_world_def EventFd_def
  TimerQueue_next_timeout_def TimerQueue_new_def bt_first_def Reactor_interests_def
  EventData_filter_def EventData_default_def Wakeup_default_def Wakeup_enable_def dir_enable_def

lemma busy_polls:
  "PollPoller_poll busy_os busy_notifier PollTimeout None (Reactor_interests one_reader)
     (poller one_reader) () =
   (Ok (Some [(7, \<lparr>fl_read = True, fl_write = False\<rparr>), (3, \<lparr>fl_read = True, fl_write = False\<rparr>)]),
    \<lparr>pollfds = [\<lparr>pf_fd = 7, pf_events = read_flags, pf_revents = {P_IN}\<rparr>,
                \<lparr>pf_fd = 3, pf_events = read_flags, pf_revents = {P_IN}\<rparr>]\<rparr>, ())"
  by (simp add: PollPoller_poll_def busy_defs PollTimeout_def PollTimeout_set_timeout_def
      source_pollfds_def internal_pollfds_def PollFd_from_def Filter_pollflags_def set_revents_def
      poll_outcome_def ready_fd_def pollfd_event_def Filter_of_revents_def read_flags_def write_flags_def)

theorem PollPoller_wait_panic_iff_witness:
  "is_panic (fst (Reactor_wait (PollPoller busy_os busy_notifier PollTimeout) busy_os busy_notifier
     (\<lambda>w n. n) one_reader idle_world))"
proof -
  have "sys_now busy_os (kernel idle_world) = (0, ())" "\<not> is_notified idle_world"
    and t: "TimerQueue_next_timeout 0 (timer_queue one_reader) = None"
    by (simp_all add: busy_defs)
  moreover have "TimerQueue_next_timeout 0 (timer_queue one_reader) \<noteq> Some 0"
    using t by simp
  moreover have "\<forall>f \<in> set (internal_pollfds busy_notifier PollTimeout).
      source_data one_reader (pf_fd f) = None"
    by (simp add: internal_pollfds_def PollFd_from_def PollTimeout_def busy_defs)
  moreover have "length (source_pollfds (Reactor_interests one_reader)) = 1"
    by (simp add: source_pollfds_def busy_defs)
  ultimately show ?thesis
    using PollPoller_wait_panic_iff [OF busy_poll_counts, of idle_world 0 "()" one_reader
        busy_notifier PollTimeout] busy_polls
    by (simp add: ready_fd_def Let_def)
qed

lemma wait_dispatch_facts:
  assumes ok: "reactor_ok r" and now: "sys_now os (kernel n) = (now, k)"
    and idle: "TimerQueue_next_timeout now (timer_queue r) \<noteq> Some 0" "\<not> is_notified n"
    and poll: "ep_poll EP (TimerQueue_next_timeout now (timer_queue r)) (Reactor_interests r) (poller r) k =
           (Ok (Some evs), p, k1)"
    and evs: "distinct (map fst evs)" "\<forall>e \<in> set evs. source_data r (fst e) \<noteq> None"
  shows "\<exists>r' n1 now2 k2.
      n1 = fold wake (concat (map (\<lambda>(s, f). fired_wakers f (the (source_data r s))) evs))
             \<lparr>kernel = k1, is_notified = True\<rparr>
    \<and> sys_now os (kernel n1) = (now2, k2)
    \<and> Reactor_wait EP os N wake r n = (Ok (), r', Reactor_clear_notifications N
        (fold wake (map snd (filter (\<lambda>e. fst (fst e) \<le> now2) (timers (timer_queue r))))
           (n1\<lparr>kernel := k2\<rparr>)))
    \<and> (\<forall>s. source_data r' s = (case map_of evs s of
           None \<Rightarrow> source_data r s | Some f \<Rightarrow> map_option (fired_data f) (source_data r s)))
    \<and> (\<forall>key. armed (timer_queue r') key =
           (if fst key \<le> now2 then None else armed (timer_queue r) key))"
proof -
  have "sources_ok (event_sources r)" using ok by (simp add: reactor_ok_def)
  from dispatch_events_registered [OF this evs, of wake "\<lparr>kernel = k1, is_notified = True\<rparr>"]
  obtain m where m: "dispatch_events wake evs (event_sources r) \<lparr>kernel = k1, is_notified = True\<rparr> =
      (Ok (), m, fold wake (concat (map (\<lambda>(s, f). fired_wakers f (the (source_data r s))) evs))
         \<lparr>kernel = k1, is_notified = True\<rparr>)" (is "_ = (_, _, ?n1)")
    and lk: "\<forall>s. map_of m s = (case map_of evs s of
           None \<Rightarrow> source_data r s | Some f \<Rightarrow> map_option (fired_data f) (source_data r s))"
    by blast
  obtain now2 k2 where now2: "sys_now os (kernel ?n1) = (now2, k2)" by fastforce
  let ?r = "r\<lparr>poller := p, event_sources := m\<rparr>"
  have "tq_ok (timer_queue ?r)" using ok by (simp add: reactor_ok_def)
  note fin = wait_finish_eq [OF this now2, of N wake]
  let ?q = "(timer_queue r)\<lparr>timers := filter (\<lambda>e. now2 < fst (fst e)) (timers (timer_queue r))\<rparr>"
  have "Reactor_wait EP os N wake r n = (Ok (), ?r\<lparr>timer_queue := ?q\<rparr>, Reactor_clear_notifications N
        (fold wake (map snd (filter (\<lambda>e. fst (fst e) \<le> now2) (timers (timer_queue r))))
           (?n1\<lparr>kernel := k2\<rparr>)))"
    using Reactor_wait_poll [OF now idle poll, of N wake] m fin by simp
  then show ?thesis
    using lk now2 by (intro exI [of _ "?r\<lparr>timer_queue := ?q\<rparr>"] exI conjI) (auto simp: map_of_filter_later)
qed

lemma wait_dispatch_ex:
  assumes "reactor_ok r" and "sys_now os (kernel n) = (now, k)"
    and "TimerQueue_next_timeout now (timer_queue r) \<noteq> Some 0" "\<not> is_notified n"
    and "ep_poll EP (TimerQueue_next_timeout now (timer_queue r)) (Reactor_interests r) (poller r) k =
           (Ok (Some evs), p, k1)"
    and "distinct (map fst evs)" "\<forall>e \<in> set evs. source_data r (fst e) \<noteq> None"
  shows "\<exists>r' ws' k2. Reactor_wait EP os N wake r n = (Ok (), r', Reactor_clear_notifications N
        (fold wake ws' ((fold wake (concat (map (\<lambda>(s, f). fired_wakers f (the (source_data r s))) evs))
             \<lparr>kernel = k1, is_notified = True\<rparr>)\<lparr>kernel := k2\<rparr>)))
    \<and> (\<forall>s. source_data r' s = (case map_of evs s of
           None \<Rightarrow> source_data r s | Some f \<Rightarrow> map_option (fired_data f) (source_data r s)))"
  using wait_dispatch_facts [OF assms, of wake N] by blast

text \<open>
  C3: When every reported event belongs to a registered source, \<open>wait\<close> returns \<open>Ok\<close>;
  it calls the wakers of exactly the reported directions that were enabled, in the order of
  the report and read before write, disables those directions and leaves every other
  source as it was; then it calls the wakers of exactly the timers that have expired, in
  order of expiry, and removes those timers; last, it clears the notifier.
\<close>

theorem wait_dispatch:
  assumes ok: "reactor_ok r" and now: "sys_now os (kernel n) = (now, k)"
    and idle: "TimerQueue_next_timeout now (timer_queue r) \<noteq> Some 0" "\<not> is_notified n"
    and poll: "ep_poll EP (TimerQueue_next_timeout now (timer_queue r)) (Reactor_interests r) (poller r) k =
           (Ok (Some evs), p, k1)"
    and evs: "distinct (map fst evs)" "\<forall>e \<in> set evs. source_data r (fst e) \<noteq> None"
  shows "\<exists>r' n1 now2 k2.
      n1 = fold wake (concat (map (\<lambda>(s, f). fired_wakers f (the (source_data r s))) evs))
             \<lparr>kernel = k1, is_notified = True\<rparr>
    \<and> sys_now os (kernel n1) = (now2, k2)
    \<and> Reactor_wait EP os N wake r n = (Ok (), r', Reactor_clear_notifications N
        (fold wake (map snd (filter (\<lambda>e. fst (fst e) \<le> now2) (timers (timer_queue r))))
           (n1\<lparr>kernel := k2\<rparr>)))
    \<and> (\<forall>s. source_data r' s = (case map_of evs s of
           None \<Rightarrow> source_data r s | Some f \<Rightarrow> map_option (fired_data f) (source_data r s)))
    \<and> (\<forall>key. armed (timer_queue r') key =
           (if fst key \<le> now2 then None else armed (timer_queue r) key))"
  using assms by (rule wait_dispatch_facts)

theorem wait_dispatch_witness:
  "\<exists>r'. Reactor_wait (PollPoller busy_os busy_notifier PollTimeout
       \<lparr>ep_poll := \<lambda>_ _ p k. (Ok (Some [(7, \<lparr>fl_read = True, fl_write = True\<rparr>)]), p, k)\<rparr>)
     busy_os busy_notifier (\<lambda>w n. n) one_reader idle_world = (Ok (), r', idle_world)
   \<and> source_data r' 7 = Some (fired_data \<lparr>fl_read = True, fl_write = True\<rparr>
        (dir_enable Interest_Read 42 EventData_default))"
proof -
  have ok: "reactor_ok one_reader"
    by (simp add: reactor_ok_def one_reader_def sources_ok_def bt_ok_Cons)
  have pre: "sys_now busy_os (kernel idle_world) = (0, ())" "\<not> is_notified idle_world"
    "TimerQueue_next_timeout 0 (timer_queue one_reader) \<noteq> Some 0"
    "timers (timer_queue one_reader) = []"
    "\<forall>e \<in> set [(7, f)]. source_data one_reader (fst e) \<noteq> None" for f :: Filter
    by (simp_all add: busy_defs)
  have sd: "source_data one_reader 7 = Some (dir_enable Interest_Read 42 EventData_default)"
    by (simp add: one_reader_def)
  have fin: "Reactor_clear_notifications busy_notifier \<lparr>kernel = (), is_notified = True\<rparr> = idle_world"
    by (simp add: Reactor_clear_notifications_def notifier_defs EventFd_clear_def busy_defs)
  let ?f = "\<lparr>fl_read = True, fl_write = True\<rparr>"
  let ?EP = "PollPoller busy_os busy_notifier PollTimeout\<lparr>ep_poll := \<lambda>_ _ p k. (Ok (Some [(7, ?f)]), p, k)\<rparr>"
  have nop: "fold (\<lambda>w n. n) ws x = x" for ws :: "nat list" and x :: "unit nworld"
    by (induction ws) auto
  have poll: "ep_poll ?EP (TimerQueue_next_timeout 0 (timer_queue one_reader))
      (Reactor_interests one_reader) (poller one_reader) () = (Ok (Some [(7, ?f)]), poller one_reader, ())"
    and dist: "distinct (map fst [(7 :: Source, ?f)])"
    by simp_all
  obtain r' where r': "Reactor_wait ?EP busy_os busy_notifier (\<lambda>w n. n) one_reader idle_world =
      (Ok (), r', Reactor_clear_notifications busy_notifier \<lparr>kernel = (), is_notified = True\<rparr>)"
    "\<forall>s. source_data r' s = (case map_of [(7, ?f)] s of
       None \<Rightarrow> source_data one_reader s | Some f \<Rightarrow> map_option (fired_data f) (source_data one_reader s))"
    using wait_dispatch [OF ok pre(1) pre(3,2) poll dist pre(5), of "\<lambda>w n. n" busy_notifier]
    unfolding nop by auto
  then show ?thesis using fin sd by simp
qed

text \<open>
  C23: \<open>wait\<close> returns an error exactly when it calls the poller, having no notification and no
  timer due, and the poller fails with that error. It has then called no waker and changed
  nothing but the poller's scratch list and the kernel: the sources with their enabled
  directions and the timers are as before, so the next \<open>wait\<close> still delivers them.
\<close>

theorem wait_error:
  assumes "sys_now os (kernel n) = (now, k)"
    and "ep_poll EP (TimerQueue_next_timeout now (timer_queue r)) (Reactor_interests r) (poller r) k =
      (res, p, k1)"
  shows "(fst (Reactor_wait EP os N wake r n) = Err e \<longleftrightarrow>
      TimerQueue_next_timeout now (timer_queue r) \<noteq> Some 0 \<and> \<not> is_notified n \<and> res = Err e)
    \<and> (fst (Reactor_wait EP os N wake r n) = Err e \<longrightarrow>
        Reactor_wait EP os N wake r n = (Err e, r\<lparr>poller := p\<rparr>, \<lparr>kernel = k1, is_notified = False\<rparr>))"
proof (cases "TimerQueue_next_timeout now (timer_queue r) = Some 0 \<or> is_notified n")
  case True
  then show ?thesis using Reactor_wait_skip [OF assms(1) True, of EP N wake] by auto
next
  case False
  then have idle: "TimerQueue_next_timeout now (timer_queue r) \<noteq> Some 0" "\<not> is_notified n" by simp_all
  show ?thesis
  proof (cases res)
    case (Ok revents)
    let ?evs = "case revents of None \<Rightarrow> [] | Some es \<Rightarrow> es"
    have "fst (Reactor_wait EP os N wake r n) \<noteq> Err e"
      using Reactor_wait_poll [OF assms(1) idle assms(2) [unfolded Ok], of N wake]
        dispatch_events_not_Err [of wake ?evs "event_sources r" "\<lparr>kernel = k1, is_notified = True\<rparr>" e]
      by (auto simp: Let_def split: prod.splits res.splits)
    then show ?thesis using Ok by simp
  next
    case (Err e')
    then show ?thesis using assms idle by (cases n) (auto simp: Reactor_wait_def)
  next
    case (Panic m)
    then show ?thesis using assms idle by (simp add: Reactor_wait_def)
  qed
qed

theorem wait_error_witness:
  "Reactor_wait (PollPoller busy_os busy_notifier PollTimeout
       \<lparr>ep_poll := \<lambda>_ _ p k. (Err (Os 4), p, k)\<rparr>) busy_os busy_notifier (\<lambda>w n. n) one_reader idle_world =
     (Err (Os 4), one_reader, idle_world)"
proof -
  let ?EP = "PollPoller busy_os busy_notifier PollTimeout\<lparr>ep_poll := \<lambda>_ _ p k. (Err (Os 4), p, k)\<rparr>"
  have now: "sys_now busy_os (kernel idle_world) = (0, ())"
    and idle: "TimerQueue_next_timeout 0 (timer_queue one_reader) \<noteq> Some 0" "\<not> is_notified idle_world"
    by (simp_all add: busy_defs)
  have poll: "ep_poll ?EP (TimerQueue_next_timeout 0 (timer_queue one_reader)) (Reactor_interests one_reader)
      (poller one_reader) () = (Err (Os 4), poller one_reader, ())" by simp
  from wait_error [OF now poll, of busy_notifier "\<lambda>w n. n" "Os 4"] idle
  show ?thesis by (simp add: idle_world_def)
qed

end
