(* ===== verification/Timers.thy ===== *)
theory Timers
  imports Reactor
begin

text \<open>
  The timer futures of \<open>src/src/time.rs\<close> over the thread's reactor: \<open>Timer\<close>, \<open>Periodic\<close>
  and \<open>Timeout\<close>, and the system of all timer futures of a thread as a step relation, with
  the invariant that ties them to the timer queue.
\<close>

section \<open>Timer\<close>

record timer =
  tm_expiry :: instant
  tm_id :: "Id_rs option"

definition Timer_at :: "instant \<Rightarrow> timer" where
  "Timer_at expiry = \<lparr>tm_expiry = expiry, tm_id = None\<rparr>"

definition Timer_delay :: "'k os \<Rightarrow> duration \<Rightarrow> 'k \<Rightarrow> timer res \<times> 'k" where
  "Timer_delay os delay k =
     (let (now, k1) = sys_now os k
      in (bind_res (instant_add now delay) (\<lambda>expiry. Ok (Timer_at expiry)), k1))"

text \<open>\<open>None\<close> stands for a registration that does not return.\<close>

definition Timer_register ::
  "'w \<Rightarrow> timer \<Rightarrow> ('p, 'w) reactor \<Rightarrow> (timer \<times> ('p, 'w) reactor) option" where
  "Timer_register w t r =
     (case tm_id t of
        None \<Rightarrow> map_option (\<lambda>(i, r'). (t\<lparr>tm_id := Some i\<rparr>, r'))
                  (Reactor_register_timer (tm_expiry t) w r)
      | Some i \<Rightarrow> Some (t, Reactor_modify_timer i (tm_expiry t) w r))"

definition cancel_taken :: "timer \<Rightarrow> ('p, 'w) reactor \<Rightarrow> timer \<times> ('p, 'w) reactor" where
  "cancel_taken t r =
     (case tm_id t of
        None \<Rightarrow> (t, r)
      | Some i \<Rightarrow> (t\<lparr>tm_id := None\<rparr>, Reactor_cancel_timer i (tm_expiry t) r))"

text \<open>\<open>poll\<close> once the clock has been read.\<close>

definition Timer_poll_at ::
  "instant \<Rightarrow> 'w \<Rightarrow> timer \<Rightarrow> ('p, 'w) reactor \<Rightarrow> (instant poll \<times> timer \<times> ('p, 'w) reactor) option" where
  "Timer_poll_at now w t r =
     (if tm_expiry t \<le> now
      then (let (t', r') = cancel_taken t r in Some (Ready (tm_expiry t), t', r'))
      else map_option (\<lambda>(t', r'). (Pending, t', r')) (Timer_register w t r))"

definition Timer_poll ::
  "'k os \<Rightarrow> 'w \<Rightarrow> timer \<Rightarrow> ('p, 'w) reactor \<Rightarrow> 'k \<Rightarrow>
     (instant poll \<times> timer \<times> ('p, 'w) reactor \<times> 'k) option" where
  "Timer_poll os w t r k =
     (let (now, k1) = sys_now os k
      in map_option (\<lambda>(p, t', r'). (p, t', r', k1)) (Timer_poll_at now w t r))"

definition Timer_drop :: "timer \<Rightarrow> ('p, 'w) reactor \<Rightarrow> ('p, 'w) reactor" where
  "Timer_drop t r = snd (cancel_taken t r)"

definition sleep :: "'k os \<Rightarrow> duration \<Rightarrow> 'k \<Rightarrow> timer res \<times> 'k" where
  "sleep os d k = Timer_delay os d k"

section \<open>Periodic\<close>

record periodic =
  pd_timer :: timer
  pd_period :: duration

definition Periodic_periodic :: "'k os \<Rightarrow> duration \<Rightarrow> 'k \<Rightarrow> periodic res \<times> 'k" where
  "Periodic_periodic os period k =
     (let (t, k1) = Timer_delay os period k
      in (bind_res t (\<lambda>t. Ok \<lparr>pd_timer = t, pd_period = period\<rparr>), k1))"

definition Periodic_periodic_at :: "instant \<Rightarrow> duration \<Rightarrow> periodic" where
  "Periodic_periodic_at start period = \<lparr>pd_timer = Timer_at start, pd_period = period\<rparr>"

definition Periodic_set_period :: "duration \<Rightarrow> periodic \<Rightarrow> periodic" where
  "Periodic_set_period period p = p\<lparr>pd_period := period\<rparr>"

definition Periodic_poll_next ::
  "'k os \<Rightarrow> 'w \<Rightarrow> periodic \<Rightarrow> ('p, 'w) reactor \<Rightarrow> 'k \<Rightarrow>
     (instant option poll res \<times> periodic \<times> ('p, 'w) reactor \<times> 'k) option" where
  "Periodic_poll_next os w p r k =
     map_option (\<lambda>(res, t, r', k').
        (case res of
           Ready expiry \<Rightarrow>
             (case instant_add expiry (pd_period p) of
                Ok next' \<Rightarrow>
                  (Ok (Ready (Some expiry)), p\<lparr>pd_timer := t\<lparr>tm_expiry := next'\<rparr>\<rparr>, r', k')
              | Err e \<Rightarrow> (Err e, p\<lparr>pd_timer := t\<rparr>, r', k')
              | Panic m \<Rightarrow> (Panic m, p\<lparr>pd_timer := t\<rparr>, r', k'))
         | Pending \<Rightarrow> (Ok Pending, p\<lparr>pd_timer := t\<rparr>, r', k')))
       (Timer_poll os w (pd_timer p) r k)"

section \<open>Timeout\<close>

datatype timed_out = TimedOut

text \<open>\<open>Display\<close>: what \<open>fmt\<close> writes to the formatter.\<close>

definition TimedOut_fmt :: "timed_out \<Rightarrow> string \<Rightarrow> string" where
  "TimedOut_fmt e out = out @ ''Future timed out''"

definition io_error_of_TimedOut :: "timed_out \<Rightarrow> io_error" where
  "io_error_of_TimedOut e = TimedOut_kind"

text \<open>
  The inner future is a parameter: polled with a waker it may use the reactor and the
  kernel, and may panic or not return.
\<close>

type_synonym ('f, 'w, 'p, 'k, 'v) reactor_future =
  "'w \<Rightarrow> 'f \<Rightarrow> ('p, 'w) reactor \<Rightarrow> 'k \<Rightarrow> ('v poll \<times> 'f \<times> ('p, 'w) reactor \<times> 'k) option"

record 'f timeout_future =
  to_timer :: timer
  to_fut :: 'f

definition Timeout_poll ::
  "'k os \<Rightarrow> ('f, 'w, 'p, 'k, 'v) reactor_future \<Rightarrow> 'w \<Rightarrow> 'f timeout_future \<Rightarrow> ('p, 'w) reactor \<Rightarrow> 'k \<Rightarrow>
     ((timed_out + 'v) poll \<times> 'f timeout_future \<times> ('p, 'w) reactor \<times> 'k) option" where
  "Timeout_poll os F w s r k =
     Option.bind (F w (to_fut s) r k) (\<lambda>(p, f', r1, k1).
       (case p of
          Ready out \<Rightarrow> Some (Ready (Inr out), s\<lparr>to_fut := f'\<rparr>, r1, k1)
        | Pending \<Rightarrow>
            map_option (\<lambda>(q, t', r2, k2).
               ((case q of Ready _ \<Rightarrow> Ready (Inl TimedOut) | Pending \<Rightarrow> Pending),
                \<lparr>to_timer = t', to_fut = f'\<rparr>, r2, k2))
              (Timer_poll os w (to_timer s) r1 k1)))"

definition timeout_rs :: "'k os \<Rightarrow> 'f \<Rightarrow> duration \<Rightarrow> 'k \<Rightarrow> 'f timeout_future res \<times> 'k" where
  "timeout_rs os fut d k =
     (let (t, k1) = Timer_delay os d k
      in (bind_res t (\<lambda>t. Ok \<lparr>to_timer = t, to_fut = fut\<rparr>), k1))"

definition timeout_at :: "'f \<Rightarrow> instant \<Rightarrow> 'f timeout_future" where
  "timeout_at fut expiry = \<lparr>to_timer = Timer_at expiry, to_fut = fut\<rparr>"

section \<open>One poll\<close>

abbreviation tarmed :: "('p, 'w) reactor \<Rightarrow> timer_key \<Rightarrow> 'w option" where
  "tarmed r \<equiv> armed (timer_queue r)"

lemma cancel_taken_facts:
  assumes "reactor_ok r" "cancel_taken t r = (t', r')"
  shows "t' = t\<lparr>tm_id := None\<rparr>" "reactor_ok r'"
    "tarmed r' = (case tm_id t of None \<Rightarrow> tarmed r | Some i \<Rightarrow> (tarmed r)((tm_expiry t, i) := None))"
    "event_sources r' = event_sources r" "poller r' = poller r"
  using assms rtimers.cancel_ok rtimers.cancel_armed
  by (auto simp: cancel_taken_def Reactor_cancel_timer_def split: option.splits)

lemma Timer_register_facts:
  assumes "reactor_ok r" "Timer_register w t r = Some (t', r')"
    "\<And>i. tm_id t = Some i \<Longrightarrow> tarmed r (tm_expiry t, i) \<noteq> None"
  obtains i where "tm_id t' = Some i" "tm_expiry t' = tm_expiry t" "reactor_ok r'"
    "tarmed r' = (tarmed r)((tm_expiry t, i) \<mapsto> w)"
    "tm_id t = None \<Longrightarrow> tarmed r (tm_expiry t, i) = None" "tm_id t \<noteq> None \<Longrightarrow> tm_id t = Some i"
proof (cases "tm_id t")
  case None
  then obtain i where reg: "Reactor_register_timer (tm_expiry t) w r = Some (i, r')"
      and t': "t' = t\<lparr>tm_id := Some i\<rparr>"
    using assms(2) by (auto simp: Timer_register_def)
  show thesis
    using rtimers.register_ok [OF assms(1) reg] rtimers.register_armed [OF assms(1) reg]
      rtimers.register_fresh [OF assms(1) reg] t' None by (intro that [of i]) auto
next
  case (Some i)
  then have "r' = Reactor_modify_timer i (tm_expiry t) w r" "t' = t"
    using assms(2) by (auto simp: Timer_register_def)
  then show thesis
    using rtimers.modify_ok [OF assms(1)] rtimers.modify_armed [OF assms(1)] assms(3) [OF Some] Some
    by (intro that [of i]) auto
qed

lemma Timer_register_total:
  assumes "reactor_ok r" "length (timers (timer_queue r)) < 2 ^ 64 - 1"
  shows "\<exists>t' r'. Timer_register w t r = Some (t', r')"
proof (cases "tm_id t")
  case None
  obtain j where "Id_valid j" "tarmed r (tm_expiry t, j) = None"
    using free_id_exists [OF assms(2)] by blast
  then show ?thesis
    using TimerQueue_register_terminates [of "timer_queue r" j "tm_expiry t" w] assms(1) None
    by (auto simp: reactor_ok_def tq_ok_def Timer_register_def Reactor_register_timer_def)
qed (simp add: Timer_register_def)

section \<open>All timer futures of a thread\<close>

text \<open>
  The state: the clock as it was last read, the time of the last \<open>clear_expired\<close>, the
  live \<open>Timer\<close>s with the waker each was last polled with, and the reactor.
\<close>

record ('p, 'w) tsys =
  ts_clock :: instant
  ts_cleared :: instant
  ts_futs :: "nat \<rightharpoonup> timer \<times> 'w option"
  ts_reactor :: "('p, 'w) reactor"

text \<open>
  The steps: a timer is created, polled, polled by \<open>Periodic::poll_next\<close>, which sets its
  next expiry, or dropped; and \<open>Reactor::wait\<close> clears the expired timers. The clock does
  not go back.
\<close>

inductive tstep :: "('p, 'w) tsys \<Rightarrow> ('p, 'w) tsys \<Rightarrow> bool" where
  create: "ts_futs s n = None \<Longrightarrow> tstep s (s\<lparr>ts_futs := (ts_futs s)(n \<mapsto> (Timer_at e, None))\<rparr>)"
| poll: "ts_futs s n = Some (t, lw) \<Longrightarrow> ts_clock s \<le> now \<Longrightarrow>
    Timer_poll_at now w t (ts_reactor s) = Some (res, t', r') \<Longrightarrow>
    tstep s (s\<lparr>ts_clock := now, ts_futs := (ts_futs s)(n \<mapsto> (t', Some w)), ts_reactor := r'\<rparr>)"
| again: "ts_futs s n = Some (t, lw) \<Longrightarrow> ts_clock s \<le> now \<Longrightarrow>
    Timer_poll_at now w t (ts_reactor s) = Some (Ready e, t', r') \<Longrightarrow>
    instant_add e period = Ok e' \<Longrightarrow>
    tstep s (s\<lparr>ts_clock := now, ts_futs := (ts_futs s)(n \<mapsto> (t'\<lparr>tm_expiry := e'\<rparr>, Some w)),
       ts_reactor := r'\<rparr>)"
| drop: "ts_futs s n = Some (t, lw) \<Longrightarrow>
    tstep s (s\<lparr>ts_futs := (ts_futs s)(n := None), ts_reactor := Timer_drop t (ts_reactor s)\<rparr>)"
| wait: "ts_clock s \<le> now \<Longrightarrow>
    tstep s (s\<lparr>ts_clock := now, ts_cleared := now, ts_reactor := (ts_reactor s)
       \<lparr>timer_queue := snd (TimerQueue_clear_expired now (timer_queue (ts_reactor s)))\<rparr>\<rparr>)"

definition tinit :: "('p, 'w) tsys \<Rightarrow> bool" where
  "tinit s \<longleftrightarrow> ts_futs s = Map.empty \<and> ts_cleared s \<le> ts_clock s \<and> (\<exists>p. ts_reactor s = Reactor_new p)"

definition holds :: "('p, 'w) tsys \<Rightarrow> nat \<Rightarrow> timer_key \<Rightarrow> 'w option \<Rightarrow> bool" where
  "holds s n key lw \<longleftrightarrow>
     (\<exists>t. ts_futs s n = Some (t, lw) \<and> tm_expiry t = fst key \<and> tm_id t = Some (snd key))"

text \<open>
  The invariant: a key is held by one timer; a timer that holds a key later than the last
  clear is armed with the waker of its last poll; and nothing else is armed.
\<close>

definition tinv :: "('p, 'w) tsys \<Rightarrow> bool" where
  "tinv s \<longleftrightarrow> reactor_ok (ts_reactor s) \<and> ts_cleared s \<le> ts_clock s
     \<and> (\<forall>n m key lw lw'. holds s n key lw \<longrightarrow> holds s m key lw' \<longrightarrow> n = m)
     \<and> (\<forall>n key lw. holds s n key lw \<longrightarrow> ts_cleared s < fst key \<longrightarrow>
          lw \<noteq> None \<and> tarmed (ts_reactor s) key = lw)
     \<and> (\<forall>key. tarmed (ts_reactor s) key \<noteq> None \<longrightarrow>
          ts_cleared s < fst key \<and> (\<exists>n lw. holds s n key lw))"

lemma tinvD:
  assumes "tinv s"
  shows "reactor_ok (ts_reactor s)" "ts_cleared s \<le> ts_clock s"
    "holds s n key lw \<Longrightarrow> holds s m key lw' \<Longrightarrow> n = m"
    "holds s n key lw \<Longrightarrow> ts_cleared s < fst key \<Longrightarrow> tarmed (ts_reactor s) key = lw \<and> lw \<noteq> None"
    "tarmed (ts_reactor s) key \<noteq> None \<Longrightarrow> ts_cleared s < fst key"
    "tarmed (ts_reactor s) key \<noteq> None \<Longrightarrow> \<exists>n lw. holds s n key lw"
  using assms unfolding tinv_def by blast+

lemma holds_upd:
  "holds (s\<lparr>ts_clock := c, ts_futs := (ts_futs s)(n := v), ts_reactor := r\<rparr>) m key lw \<longleftrightarrow>
     (if m = n then (\<exists>t. v = Some (t, lw) \<and> tm_expiry t = fst key \<and> tm_id t = Some (snd key))
      else holds s m key lw)"
  by (simp add: holds_def)

text \<open>A timer that gives its key up, keeping none.\<close>

lemma tinv_release:
  assumes "tinv s" "ts_futs s n = Some (t, lw)" "cancel_taken t (ts_reactor s) = (t', r')"
    "ts_clock s \<le> c" "\<And>u lw. v = Some (u, lw) \<Longrightarrow> tm_id u = None"
  shows "tinv (s\<lparr>ts_clock := c, ts_futs := (ts_futs s)(n := v), ts_reactor := r'\<rparr>)" (is "tinv ?s")
proof -
  note I = tinvD [OF assms(1)] and C = cancel_taken_facts [OF I(1) assms(3)]
  have none: "\<not> holds ?s n key lw" for key lw using assms(5) by (auto simp: holds_def)
  have other: "m \<noteq> n \<Longrightarrow> holds ?s m key lw = holds s m key lw" for m key lw
    by (simp add: holds_def)
  have own: "holds s n (tm_expiry t, i) lw" if "tm_id t = Some i" for i
    using that assms(2) by (simp add: holds_def)
  have arm: "tarmed r' key = (if \<exists>lw. holds s n key lw then None else tarmed (ts_reactor s) key)" for key
    using C(3) assms(2) by (cases "tm_id t") (auto simp: holds_def)
  show ?thesis unfolding tinv_def
  proof (intro conjI allI impI)
    show "reactor_ok (ts_reactor ?s)" using C(2) by simp
    show "ts_cleared ?s \<le> ts_clock ?s" using I(2) assms(4) by simp
  next
    fix m m' key lw lw' assume "holds ?s m key lw" "holds ?s m' key lw'"
    then show "m = m'" using none other I(3) by metis
  next
    fix m key lw assume h: "holds ?s m key lw" "ts_cleared ?s < fst key"
    then have "m \<noteq> n" using none by metis
    then have "holds s m key lw" "\<nexists>lw. holds s n key lw" using h(1) other I(3) by metis+
    then show "lw \<noteq> None" "tarmed (ts_reactor ?s) key = lw"
      using I(4) h(2) arm by simp_all
  next
    fix key assume a: "tarmed (ts_reactor ?s) key \<noteq> None"
    then have b: "\<nexists>lw. holds s n key lw" "tarmed (ts_reactor s) key \<noteq> None"
      using arm [of key] by (auto split: if_splits)
    show "ts_cleared ?s < fst key" using I(5) [OF b(2)] by simp
    show "\<exists>m lw. holds ?s m key lw" using I(6) [OF b(2)] b(1) other by metis
  qed
qed

text \<open>A timer that is polled before its expiry.\<close>

lemma tinv_arm:
  assumes "tinv s" "ts_futs s n = Some (t, lw)" "Timer_register w t (ts_reactor s) = Some (t', r')"
    "ts_clock s \<le> now" "now < tm_expiry t"
  shows "tinv (s\<lparr>ts_clock := now, ts_futs := (ts_futs s)(n \<mapsto> (t', Some w)), ts_reactor := r'\<rparr>)"
    (is "tinv ?s")
proof -
  note I = tinvD [OF assms(1)]
  have late: "ts_cleared s < tm_expiry t" using I(2) assms(4,5) by simp
  have own: "holds s n (tm_expiry t, i) lw" if "tm_id t = Some i" for i
    using that assms(2) by (simp add: holds_def)
  have "tarmed (ts_reactor s) (tm_expiry t, i) \<noteq> None" if "tm_id t = Some i" for i
    using I(4) [OF own [OF that]] late by auto
  then obtain i where t': "tm_id t' = Some i" "tm_expiry t' = tm_expiry t" and r': "reactor_ok r'"
      "tarmed r' = (tarmed (ts_reactor s))((tm_expiry t, i) \<mapsto> w)"
    and new: "tm_id t = None \<Longrightarrow> tarmed (ts_reactor s) (tm_expiry t, i) = None"
      "tm_id t \<noteq> None \<Longrightarrow> tm_id t = Some i"
    using Timer_register_facts [OF I(1) assms(3)] by metis
  have free: "m = n" if "holds s m (tm_expiry t, i) lw'" for m lw'
    using I(3) [OF that own] I(4) [OF that] new late by (cases "tm_id t") auto
  have self: "holds ?s n key lw' \<longleftrightarrow> key = (tm_expiry t, i) \<and> lw' = Some w" for key lw'
    using t' by (auto simp: holds_def prod_eq_iff)
  have other: "m \<noteq> n \<Longrightarrow> holds ?s m key lw' = holds s m key lw'" for m key lw'
    by (simp add: holds_def)
  have was: "holds s n key lw' \<Longrightarrow> key = (tm_expiry t, i)" for key lw'
    using assms(2) new(2) by (auto simp: holds_def prod_eq_iff)
  show ?thesis unfolding tinv_def
  proof (intro conjI allI impI)
    show "reactor_ok (ts_reactor ?s)" using r' by simp
    show "ts_cleared ?s \<le> ts_clock ?s" using I(2) assms(4) by simp
  next
    fix m m' key l l' assume "holds ?s m key l" "holds ?s m' key l'"
    then show "m = m'" using self other free I(3) by metis
  next
    fix m key l assume h: "holds ?s m key l" "ts_cleared ?s < fst key"
    have "key = (tm_expiry t, i) \<and> l = Some w \<or> key \<noteq> (tm_expiry t, i) \<and> holds s m key l"
      using h(1) self other free by metis
    then show "l \<noteq> None" "tarmed (ts_reactor ?s) key = l" using r'(2) I(4) [of m key l] h(2) by auto
  next
    fix key assume a: "tarmed (ts_reactor ?s) key \<noteq> None"
    show "ts_cleared ?s < fst key"
      using a r'(2) late I(5) by (cases "key = (tm_expiry t, i)") auto
    show "\<exists>m l. holds ?s m key l"
    proof (cases "key = (tm_expiry t, i)")
      case True
      then show ?thesis using self by metis
    next
      case False
      then have "tarmed (ts_reactor s) key \<noteq> None" using a r'(2) by simp
      then show ?thesis using I(6) was other False by metis
    qed
  qed
qed

lemma tinv_tstep: "tstep s s' \<Longrightarrow> tinv s \<Longrightarrow> tinv s'"
proof (induction rule: tstep.induct)
  case (create s n e)
  let ?s = "s\<lparr>ts_futs := (ts_futs s)(n \<mapsto> (Timer_at e, None))\<rparr>"
  have "holds ?s = holds s"
    by (intro ext) (use create(1) in \<open>auto simp: holds_def Timer_at_def\<close>)
  moreover have "ts_reactor ?s = ts_reactor s" "ts_clock ?s = ts_clock s" "ts_cleared ?s = ts_cleared s"
    by simp_all
  ultimately have "tinv ?s = tinv s" by (simp only: tinv_def)
  then show ?case using create(2) by blast
next
  case (poll s n t lw now w res t' r')
  show ?case
  proof (cases "tm_expiry t \<le> now")
    case True
    then have c: "cancel_taken t (ts_reactor s) = (t', r')"
      using poll(3) by (auto simp: Timer_poll_at_def split: prod.splits)
    show ?thesis
      using tinv_release [OF poll(4,1) c poll(2), of "Some (t', Some w)"]
        cancel_taken_facts(1) [OF tinvD(1) [OF poll(4)] c] by simp
  next
    case False
    then have "Timer_register w t (ts_reactor s) = Some (t', r')"
      using poll(3) by (auto simp: Timer_poll_at_def)
    then show ?thesis using tinv_arm [OF poll(4,1) _ poll(2)] False by simp
  qed
next
  case (again s n t lw now w e t' r' period e')
  then have c: "cancel_taken t (ts_reactor s) = (t', r')"
    by (auto simp: Timer_poll_at_def split: prod.splits if_splits)
  show ?case
    using tinv_release [OF again(5,1) c again(2), of "Some (t'\<lparr>tm_expiry := e'\<rparr>, Some w)"]
      cancel_taken_facts(1) [OF tinvD(1) [OF again(5)] c] by simp
next
  case (drop s n t lw)
  have "cancel_taken t (ts_reactor s) = (fst (cancel_taken t (ts_reactor s)), Timer_drop t (ts_reactor s))"
    by (simp add: Timer_drop_def)
  from tinv_release [OF drop(2,1) this order_refl, of None] show ?case by simp
next
  case (wait s now)
  note I = tinvD [OF wait(2)]
  let ?s = "s\<lparr>ts_clock := now, ts_cleared := now, ts_reactor := (ts_reactor s)
       \<lparr>timer_queue := snd (TimerQueue_clear_expired now (timer_queue (ts_reactor s)))\<rparr>\<rparr>"
  have holds: "holds ?s = holds s" by (intro ext) (simp add: holds_def)
  have arm: "tarmed (ts_reactor ?s) key = (if fst key \<le> now then None else tarmed (ts_reactor s) key)" for key
    using rtimers.clear_armed [OF I(1), of now key] by simp
  show ?case unfolding tinv_def holds
  proof (intro conjI allI impI)
    show "reactor_ok (ts_reactor ?s)" using rtimers.clear_ok [OF I(1)] by simp
    show "ts_cleared ?s \<le> ts_clock ?s" by simp
  next
    fix n m key lw lw' assume "holds s n key lw" "holds s m key lw'"
    then show "n = m" by (rule I(3))
  next
    fix n key lw assume "holds s n key lw" "ts_cleared ?s < fst key"
    then show "lw \<noteq> None" "tarmed (ts_reactor ?s) key = lw"
      using I(4) [of n key lw] I(2) wait(1) arm by auto
  next
    fix key assume "tarmed (ts_reactor ?s) key \<noteq> None"
    then show "ts_cleared ?s < fst key" "\<exists>n lw. holds s n key lw"
      using arm [of key] I(6) [of key] by (auto split: if_splits)
  qed
qed

lemma tinv_tinit: "tinit s \<Longrightarrow> tinv s"
  using reactor_ok_new
  by (auto simp: tinit_def tinv_def holds_def Reactor_new_def TimerQueue_new_def)

interpretation tsystem: step_system tinit tstep tinv
  by unfold_locales (auto intro: tinv_tinit tinv_tstep)

section \<open>Properties\<close>

text \<open>
  C5: In every state that the timer futures of a thread and its reactor reach, a \<open>Timer\<close>
  that holds an identifier and expires after the last \<open>clear_expired\<close> is armed under its
  key with the waker of its last poll (so no timer is lost and \<open>modify_timer\<close> never finds
  its key missing), no two timers share a key, and every armed key is held by a live timer
  (so a dropped or completed timer leaves nothing behind).
\<close>

theorem timers_match_queue:
  assumes "reachable tinit tstep s"
  shows "(\<forall>n t lw i. ts_futs s n = Some (t, lw) \<longrightarrow> tm_id t = Some i \<longrightarrow> ts_cleared s < tm_expiry t \<longrightarrow>
       (\<exists>w. lw = Some w \<and> armed (timer_queue (ts_reactor s)) (tm_expiry t, i) = Some w))
    \<and> (\<forall>n m t u lw lw'. ts_futs s n = Some (t, lw) \<longrightarrow> ts_futs s m = Some (u, lw') \<longrightarrow> n \<noteq> m \<longrightarrow>
       tm_id t \<noteq> None \<longrightarrow> (tm_expiry t, tm_id t) \<noteq> (tm_expiry u, tm_id u))
    \<and> (\<forall>e i. armed (timer_queue (ts_reactor s)) (e, i) \<noteq> None \<longrightarrow>
       (\<exists>n t lw. ts_futs s n = Some (t, lw) \<and> tm_expiry t = e \<and> tm_id t = Some i))"
proof -
  note I = tinvD [OF tsystem.reachable_inv [OF assms]]
  have h: "ts_futs s n = Some (t, lw) \<Longrightarrow> tm_id t = Some i \<Longrightarrow> holds s n (tm_expiry t, i) lw" for n t lw i
    by (simp add: holds_def)
  have "\<exists>w. lw = Some w \<and> armed (timer_queue (ts_reactor s)) (tm_expiry t, i) = Some w"
    if "ts_futs s n = Some (t, lw)" "tm_id t = Some i" "ts_cleared s < tm_expiry t" for n t lw i
    using I(4) [OF h [OF that(1,2)]] that(3) by auto
  moreover have "(tm_expiry t, tm_id t) \<noteq> (tm_expiry u, tm_id u)"
    if "ts_futs s n = Some (t, lw)" "ts_futs s m = Some (u, lw')" "n \<noteq> m" "tm_id t \<noteq> None"
    for n m t u lw lw'
    using that I(3) h by (metis option.exhaust prod.inject)
  moreover have "\<exists>n t lw. ts_futs s n = Some (t, lw) \<and> tm_expiry t = e \<and> tm_id t = Some i"
    if "armed (timer_queue (ts_reactor s)) (e, i) \<noteq> None" for e i
    using I(6) [OF that] by (auto simp: holds_def)
  ultimately show ?thesis by (intro conjI allI impI) blast+
qed

definition tsys_start :: "(unit, nat) tsys" where
  "tsys_start = \<lparr>ts_clock = 0, ts_cleared = 0, ts_futs = Map.empty, ts_reactor = Reactor_new ()\<rparr>"

definition tsys_armed :: "(unit, nat) tsys" where
  "tsys_armed = \<lparr>ts_clock = 2, ts_cleared = 0,
     ts_futs = [0 \<mapsto> (\<lparr>tm_expiry = 5, tm_id = Some (Id_rs 1)\<rparr>, Some 7)],
     ts_reactor = \<lparr>poller = (), event_sources = [],
       timer_queue = \<lparr>current_id = Id_rs 2, timers = [((5, Id_rs 1), 7)]\<rparr>\<rparr>\<rparr>"

lemma tsys_armed_reachable: "reachable tinit tstep tsys_armed"
proof -
  let ?s = "tsys_start\<lparr>ts_futs := [0 \<mapsto> (Timer_at 5, None)]\<rparr>"
  have 0: "reachable tinit tstep tsys_start"
    by (rule reach_init) (simp add: tinit_def tsys_start_def)
  have 1: "tstep tsys_start ?s"
    using tstep.create [of tsys_start 0 5] by (simp add: tsys_start_def)
  have "TimerQueue_register 5 7 TimerQueue_new =
      Some (Id_rs 1, \<lparr>current_id = Id_rs 2, timers = [((5, Id_rs 1), 7::nat)]\<rparr>)"
    by (subst TimerQueue_register.simps)
      (simp add: TimerQueue_new_def bt_insert_def bt_put_def Let_def Id_overflowing_incr_def
        usize_checked_add_def)
  then have "Timer_poll_at 2 7 (Timer_at 5) (Reactor_new () :: (unit, nat) reactor) =
      Some (Pending, \<lparr>tm_expiry = 5, tm_id = Some (Id_rs 1)\<rparr>, ts_reactor tsys_armed)"
    by (simp add: Timer_poll_at_def Timer_at_def Timer_register_def Reactor_register_timer_def
        Reactor_new_def tsys_armed_def)
  then have "tstep ?s tsys_armed"
    using tstep.poll [of ?s 0 "Timer_at 5" None 2 7] by (simp add: tsys_start_def tsys_armed_def)
  then show ?thesis using reach_step [OF reach_step [OF 0 1]] by blast
qed

theorem timers_match_queue_witness:
  "reachable tinit tstep tsys_armed \<and>
   armed (timer_queue (ts_reactor tsys_armed)) (5, Id_rs 1) = Some 7"
  using timers_match_queue [OF tsys_armed_reachable] tsys_armed_reachable
  by (auto simp: tsys_armed_def)

text \<open>What one poll at \<open>now\<close> with waker \<open>w\<close> does: ready exactly from the expiry on, with the
  key given up; before it, pending with the key armed with \<open>w\<close>.\<close>

definition poll_effect ::
  "instant \<Rightarrow> 'w \<Rightarrow> timer \<Rightarrow> ('p, 'w) reactor \<Rightarrow> instant poll \<Rightarrow> timer \<Rightarrow> ('p, 'w) reactor \<Rightarrow> bool" where
  "poll_effect now w t r res t' r' \<longleftrightarrow> reactor_ok r' \<and> tm_expiry t' = tm_expiry t \<and>
     (if tm_expiry t \<le> now
      then res = Ready (tm_expiry t) \<and> tm_id t' = None \<and>
        tarmed r' = (case tm_id t of None \<Rightarrow> tarmed r | Some i \<Rightarrow> (tarmed r)((tm_expiry t, i) := None))
      else res = Pending \<and> (\<exists>i. tm_id t' = Some i \<and> tarmed r' = (tarmed r)((tm_expiry t, i) \<mapsto> w)))"

definition pollable :: "instant \<Rightarrow> timer \<Rightarrow> ('p, 'w) reactor \<Rightarrow> bool" where
  "pollable now t r \<longleftrightarrow> reactor_ok r \<and> length (timers (timer_queue r)) < 2 ^ 64 - 1 \<and>
     (case tm_id t of None \<Rightarrow> True
      | Some i \<Rightarrow> tarmed r (tm_expiry t, i) \<noteq> None \<or> tm_expiry t \<le> now)"

lemma Timer_poll_effect:
  assumes "pollable now t r" "sys_now os k = (now, k1)"
  obtains res t' r' where "Timer_poll os w t r k = Some (res, t', r', k1)"
    "poll_effect now w t r res t' r'"
proof (cases "tm_expiry t \<le> now")
  case True
  obtain t' r' where c: "cancel_taken t r = (t', r')" by fastforce
  have ok: "reactor_ok r" using assms(1) by (simp add: pollable_def)
  show thesis
    using cancel_taken_facts [OF ok c] True c assms(2)
    by (intro that [of "Ready (tm_expiry t)" t' r'])
      (simp_all add: Timer_poll_def Timer_poll_at_def poll_effect_def)
next
  case False
  have ok: "reactor_ok r" "length (timers (timer_queue r)) < 2 ^ 64 - 1"
    "\<And>i. tm_id t = Some i \<Longrightarrow> tarmed r (tm_expiry t, i) \<noteq> None"
    using assms(1) False by (auto simp: pollable_def)
  obtain t' r' where reg: "Timer_register w t r = Some (t', r')"
    using Timer_register_total [OF ok(1,2)] by blast
  have "\<exists>i. tm_id t' = Some i \<and> tarmed r' = (tarmed r)((tm_expiry t, i) \<mapsto> w)"
    "tm_expiry t' = tm_expiry t" "reactor_ok r'"
    using Timer_register_facts [OF ok(1) reg ok(3)] by metis+
  then show thesis
    using False reg assms(2) by (intro that [of Pending t' r'])
      (simp_all add: Timer_poll_def Timer_poll_at_def poll_effect_def)
qed

text \<open>
  C25: \<open>Timer::poll\<close> always returns. It is ready with its expiry exactly when the clock has
  reached the expiry, never earlier, and then its key is out of the queue, so its waker is
  not called again; before that it is pending, and its key is armed with the waker of this
  poll, in place of the waker of an earlier poll; no other timer changes.
\<close>

theorem timer_poll:
  assumes "pollable now t r" "sys_now os k = (now, k1)"
  shows "\<exists>res t' r'. Timer_poll os w t r k = Some (res, t', r', k1) \<and> poll_effect now w t r res t' r'"
  using Timer_poll_effect [OF assms] by metis

lemma pollable_new: "pollable now (Timer_at e) (Reactor_new p)"
  by (simp add: pollable_def reactor_ok_new Timer_at_def) (simp add: Reactor_new_def TimerQueue_new_def)

lemma busy_now: "sys_now busy_os () = (0, ())"
  by (simp add: busy_os_def)

theorem timer_poll_witness:
  "\<exists>t' r' i. Timer_poll busy_os 7 (Timer_at 5) (Reactor_new () :: (unit, nat) reactor) () =
     Some (Pending, t', r', ()) \<and> tm_id t' = Some i \<and> tarmed r' (5, i) = Some 7"
  using timer_poll [OF pollable_new [of 0 5 "()"] busy_now, of "7::nat"]
  by (auto simp: poll_effect_def Timer_at_def)

text \<open>
  C37: A \<open>Periodic\<close> yields its expiry exactly when the clock has reached it, and schedules
  the next firing one period after that expiry, however late it was polled, so late polls
  cause no drift; the stream never ends. When the next expiry has no representation, the
  poll panics.
\<close>

theorem periodic_poll:
  assumes "pollable now (pd_timer p) r" "sys_now os k = (now, k1)"
  shows "\<exists>res p' r'. Periodic_poll_next os w p r k = Some (res, p', r', k1)
    \<and> pd_period p' = pd_period p \<and> reactor_ok r'
    \<and> (let e = tm_expiry (pd_timer p); e' = e + int (pd_period p) in
       if now < e then res = Ok Pending \<and> tm_expiry (pd_timer p') = e
         \<and> (\<exists>i. tm_id (pd_timer p') = Some i \<and> tarmed r' (e, i) = Some w)
       else if e' \<le> INSTANT_MAX then res = Ok (Ready (Some e)) \<and> pd_timer p' = Timer_at e'
       else is_panic res)"
proof -
  obtain q t' r' where 1: "Timer_poll os w (pd_timer p) r k = Some (q, t', r', k1)"
    and 2: "poll_effect now w (pd_timer p) r q t' r'"
    using Timer_poll_effect [OF assms] by metis
  let ?e = "tm_expiry (pd_timer p)"
  have t': "tm_id t' = None \<Longrightarrow> t'\<lparr>tm_expiry := x\<rparr> = Timer_at x" for x
    by (cases t') (simp add: Timer_at_def)
  consider (wait) "now < ?e" | (fire) "?e \<le> now" "?e + int (pd_period p) \<le> INSTANT_MAX"
    | (over) "?e \<le> now" "\<not> ?e + int (pd_period p) \<le> INSTANT_MAX" by linarith
  then show ?thesis
  proof cases
    case wait
    then show ?thesis using 1 2 by (auto simp: Periodic_poll_next_def poll_effect_def Let_def)
  next
    case fire
    then show ?thesis using 1 2 t'
      by (auto simp: Periodic_poll_next_def poll_effect_def Let_def instant_add_def)
  next
    case over
    then show ?thesis using 1 2
      by (auto simp: Periodic_poll_next_def poll_effect_def Let_def instant_add_def)
  qed
qed

theorem periodic_poll_witness:
  "\<exists>r'. Periodic_poll_next busy_os 7 (Periodic_periodic_at (- 3) 10) (Reactor_new () :: (unit, nat) reactor) () =
     Some (Ok (Ready (Some (- 3))), Periodic_periodic_at 7 10, r', ())"
proof -
  have 1: "pollable 0 (pd_timer (Periodic_periodic_at (- 3) 10)) (Reactor_new () :: (unit, nat) reactor)"
    by (simp add: Periodic_periodic_at_def pollable_new)
  have 2: "- 3 + int 10 \<le> INSTANT_MAX" by (simp add: INSTANT_MAX_def NANOS_def)
  obtain p' r' where *: "Periodic_poll_next busy_os 7 (Periodic_periodic_at (- 3) 10)
      (Reactor_new () :: (unit, nat) reactor) () = Some (Ok (Ready (Some (- 3))), p', r', ())"
      "pd_timer p' = Timer_at 7" "pd_period p' = 10"
    using periodic_poll [OF 1 busy_now, of 7] 2
    by (auto simp: Periodic_periodic_at_def Timer_at_def Let_def)
  then have "p' = Periodic_periodic_at 7 10" by (cases p') (simp add: Periodic_periodic_at_def)
  then show ?thesis using * by blast
qed

text \<open>
  C38: \<open>Timeout::poll\<close> polls the future first and returns its output whenever it is ready,
  even after the deadline. When the future is pending, it times out exactly from the
  deadline on; before that it is pending and the deadline is armed with the waker of this
  poll, on top of what the future did with the reactor.
\<close>

theorem timeout_poll:
  assumes "F w (to_fut s) r k = Some (res, f', r1, k1)"
    "pollable now (to_timer s) r1" "sys_now os k1 = (now, k2)"
  shows "\<exists>out s' r' k'. Timeout_poll os F w s r k = Some (out, s', r', k') \<and> to_fut s' = f'
    \<and> (case res of
         Ready v \<Rightarrow> out = Ready (Inr v) \<and> r' = r1 \<and> to_timer s' = to_timer s
       | Pending \<Rightarrow> poll_effect now w (to_timer s) r1
             (if tm_expiry (to_timer s) \<le> now then Ready (tm_expiry (to_timer s)) else Pending) (to_timer s') r'
           \<and> out = (if tm_expiry (to_timer s) \<le> now then Ready (Inl TimedOut) else Pending))"
proof (cases res)
  case (Ready v)
  then show ?thesis using assms(1) by (simp add: Timeout_poll_def)
next
  case Pending
  obtain q t' r' where 1: "Timer_poll os w (to_timer s) r1 k1 = Some (q, t', r', k2)"
    and 2: "poll_effect now w (to_timer s) r1 q t' r'"
    using Timer_poll_effect [OF assms(2,3)] by metis
  have "q = (if tm_expiry (to_timer s) \<le> now then Ready (tm_expiry (to_timer s)) else Pending)"
    using 2 by (simp add: poll_effect_def split: if_splits)
  then show ?thesis using assms(1) Pending 1 2
    by (intro exI conjI) (auto simp: Timeout_poll_def split: if_splits)
qed

definition stuck :: "(unit, nat, unit, unit, nat) reactor_future" where
  "stuck w f r k = Some (Pending, f, r, k)"

theorem timeout_poll_witness:
  "\<exists>s' r' k'. Timeout_poll busy_os stuck 7 (timeout_at () (- 1)) (Reactor_new ()) () =
     Some (Ready (Inl TimedOut), s', r', k')"
proof -
  have 1: "stuck 7 (to_fut (timeout_at () (- 1))) (Reactor_new ()) () =
      Some (Pending, (), Reactor_new (), ())"
    "pollable 0 (to_timer (timeout_at () (- 1))) (Reactor_new () :: (unit, nat) reactor)"
    by (simp_all add: stuck_def timeout_at_def pollable_new)
  show ?thesis using timeout_poll [of stuck 7 "timeout_at () (- 1)", OF 1 busy_now]
    by (auto simp: timeout_at_def Timer_at_def)
qed

end
