(* ===== verification/Externals.thy ===== *)
theory Externals
  imports Runtime_Base
begin

text \<open>
  The third-party types the runtime is built on, as parameters: the operations of
  \<open>AtomicWaker\<close> (crate \<open>atomic-waker\<close>), of the unbounded \<open>ConcurrentQueue\<close> (crate
  \<open>concurrent-queue\<close>) and the choice of key by \<open>Slab::vacant_entry\<close> (crate
  \<open>slab\<close>), each with its documented laws as a named predicate, and a reference
  instance of each for concrete evaluation.
\<close>

section \<open>AtomicWaker\<close>

text \<open>
  \<open>aw_take\<close> is the waker that \<open>AtomicWaker::wake\<close> calls, with the cell after the call.
\<close>

record ('a, 'w) atomic_waker =
  aw_new :: 'a
  aw_register :: "'w \<Rightarrow> 'a \<Rightarrow> 'a"
  aw_take :: "'a \<Rightarrow> 'w option \<times> 'a"

text \<open>
  Documented behaviour: nothing is registered at first, \<open>wake\<close> calls the last waker
  passed to \<open>register\<close>, and a waker is called once per registration.
\<close>

definition aw_laws :: "('a, 'w) atomic_waker \<Rightarrow> bool" where
  "aw_laws A \<longleftrightarrow> fst (aw_take A (aw_new A)) = None
     \<and> (\<forall>w a. fst (aw_take A (aw_register A w a)) = Some w)
     \<and> (\<forall>a. fst (aw_take A (snd (aw_take A a))) = None)"

definition cell_waker :: "('w option, 'w) atomic_waker" where
  "cell_waker = \<lparr>aw_new = None, aw_register = (\<lambda>w a. Some w), aw_take = (\<lambda>a. (a, None))\<rparr>"

lemma cell_waker_laws: "aw_laws cell_waker"
  by (simp add: aw_laws_def cell_waker_def)

text \<open>
  A base waker cell together with the log of the outer wakers called through it.
\<close>

record ('a, 'o) base =
  base_cell :: 'a
  base_log :: "'o list"

definition base_register :: "('a, 'o) atomic_waker \<Rightarrow> 'o \<Rightarrow> ('a, 'o) base \<Rightarrow> ('a, 'o) base" where
  "base_register A w b = b\<lparr>base_cell := aw_register A w (base_cell b)\<rparr>"

definition base_wake :: "('a, 'o) atomic_waker \<Rightarrow> ('a, 'o) base \<Rightarrow> ('a, 'o) base" where
  "base_wake A b =
     (let (w, c) = aw_take A (base_cell b)
      in b\<lparr>base_cell := c, base_log := base_log b @ (case w of None \<Rightarrow> [] | Some o' \<Rightarrow> [o'])\<rparr>)"

text \<open>
  Where a cell can be after \<open>cx\<close> was registered with the log at \<open>l\<close>: \<open>cx\<close> is still
  registered, or it has been called, once.
\<close>

definition cx_waiting :: "('a, 'o) atomic_waker \<Rightarrow> 'o \<Rightarrow> 'o list \<Rightarrow> ('a, 'o) base \<Rightarrow> bool" where
  "cx_waiting A cx l b \<longleftrightarrow> fst (aw_take A (base_cell b)) = Some cx \<and> base_log b = l"

definition cx_called :: "('a, 'o) atomic_waker \<Rightarrow> 'o \<Rightarrow> 'o list \<Rightarrow> ('a, 'o) base \<Rightarrow> bool" where
  "cx_called A cx l b \<longleftrightarrow> fst (aw_take A (base_cell b)) = None \<and> base_log b = l @ [cx]"

definition cx_state :: "('a, 'o) atomic_waker \<Rightarrow> 'o \<Rightarrow> 'o list \<Rightarrow> ('a, 'o) base \<Rightarrow> bool" where
  "cx_state A cx l b \<longleftrightarrow> cx_waiting A cx l b \<or> cx_called A cx l b"

lemma cx_waiting_register: "aw_laws A \<Longrightarrow> cx_waiting A cx (base_log b) (base_register A cx b)"
  by (simp add: aw_laws_def cx_waiting_def base_register_def)

lemma cx_state_register: "aw_laws A \<Longrightarrow> cx_state A cx (base_log b) (base_register A cx b)"
  by (simp add: cx_state_def cx_waiting_register)

lemma cx_called_wake: "aw_laws A \<Longrightarrow> cx_state A cx l b \<Longrightarrow> cx_called A cx l (base_wake A b)"
  by (auto simp: aw_laws_def cx_state_def cx_waiting_def cx_called_def base_wake_def
      split: prod.splits) (metis fst_conv snd_conv)+

lemma cx_stateI: "cx_called A cx l b \<Longrightarrow> cx_state A cx l b"
  by (simp add: cx_state_def)

lemma cx_called_log: "cx_called A cx l b \<Longrightarrow> base_log b = l @ [cx]"
  by (simp add: cx_called_def)

section \<open>ConcurrentQueue\<close>

text \<open>
  \<open>cq_items\<close> is the documented content of the queue, oldest first; the queue is
  unbounded and never closed by the runtime, so \<open>push\<close> succeeds.
\<close>

record ('c, 'v) concurrent_queue =
  cq_unbounded :: 'c
  cq_push :: "'v \<Rightarrow> 'c \<Rightarrow> 'c"
  cq_pop :: "'c \<Rightarrow> 'v option \<times> 'c"
  cq_len :: "'c \<Rightarrow> nat"
  cq_items :: "'c \<Rightarrow> 'v list"

definition cq_laws :: "('c, 'v) concurrent_queue \<Rightarrow> bool" where
  "cq_laws C \<longleftrightarrow> cq_items C (cq_unbounded C) = []
     \<and> (\<forall>v c. cq_items C (cq_push C v c) = cq_items C c @ [v])
     \<and> (\<forall>c. fst (cq_pop C c) = (case cq_items C c of [] \<Rightarrow> None | v # vs \<Rightarrow> Some v))
     \<and> (\<forall>c. cq_items C (snd (cq_pop C c)) = tl (cq_items C c))
     \<and> (\<forall>c. cq_len C c = length (cq_items C c))"

definition list_queue :: "('v list, 'v) concurrent_queue" where
  "list_queue = \<lparr>cq_unbounded = [], cq_push = (\<lambda>v c. c @ [v]),
     cq_pop = (\<lambda>c. (case c of [] \<Rightarrow> None | v # vs \<Rightarrow> Some v, tl c)),
     cq_len = length, cq_items = id\<rparr>"

lemma list_queue_laws: "cq_laws list_queue"
  by (simp add: cq_laws_def list_queue_def)

lemma cq_simps:
  assumes "cq_laws C"
  shows "cq_items C (cq_unbounded C) = []"
    "cq_items C (cq_push C v c) = cq_items C c @ [v]"
    "fst (cq_pop C c) = (case cq_items C c of [] \<Rightarrow> None | v # vs \<Rightarrow> Some v)"
    "cq_items C (snd (cq_pop C c)) = tl (cq_items C c)"
    "cq_len C c = length (cq_items C c)"
  using assms by (simp_all add: cq_laws_def)

section \<open>Slab\<close>

text \<open>
  A slab is a map from keys to values; the key of the next vacant entry depends on the
  history of the slab, which the first argument stands for, and on the keys in use. Keys
  are indices into a \<open>Vec\<close>, whose capacity is below \<open>isize::MAX\<close>.
\<close>

type_synonym slab_key = "nat \<Rightarrow> usize set \<Rightarrow> usize"

definition slab_max :: nat where
  "slab_max = 2 ^ 63 - 1"

definition slab_laws :: "slab_key \<Rightarrow> bool" where
  "slab_laws vk \<longleftrightarrow> (\<forall>h K. K \<noteq> UNIV \<longrightarrow> vk h K \<notin> K)
     \<and> (\<forall>h K. card K < slab_max \<longrightarrow> unat (vk h K) < slab_max)"

definition lowest_vacant :: slab_key where
  "lowest_vacant h K =
     (case find (\<lambda>n. of_nat n \<notin> K) [0..<Suc (card K)] of None \<Rightarrow> 0 | Some n \<Rightarrow> of_nat n)"

lemma vacant_exists:
  fixes K :: "usize set"
  assumes "K \<noteq> UNIV"
  shows "\<exists>n \<in> set [0..<Suc (card K)]. of_nat n \<notin> K"
proof (rule ccontr)
  assume "\<not> ?thesis"
  then have sub: "of_nat ` {0..<Suc (card K)} \<subseteq> K"
    by (auto simp del: upt_Suc simp: less_Suc_eq_le)
  have "card K < card (UNIV :: usize set)"
    using assms by (intro psubset_card_mono) auto
  then have "card K < 2 ^ 64" by (simp add: card_word)
  then have "inj_on (of_nat :: nat \<Rightarrow> usize) {0..<Suc (card K)}"
    by (intro inj_onI) (auto simp: word_of_nat_eq_iff take_bit_nat_eq_self)
  then have "card ((of_nat :: nat \<Rightarrow> usize) ` {0..<Suc (card K)}) = Suc (card K)"
    by (simp add: card_image)
  then show False using card_mono [OF _ sub] by simp
qed

lemma lowest_vacant_laws: "slab_laws lowest_vacant"
proof -
  have *: "lowest_vacant h K \<notin> K \<and> unat (lowest_vacant h K) \<le> card K" if K: "K \<noteq> UNIV" for h K
  proof -
    obtain n where n: "find (\<lambda>n. of_nat n \<notin> K) [0..<Suc (card K)] = Some n"
      using vacant_exists [OF K] by (metis find_None_iff not_None_eq)
    then have "of_nat n \<notin> K" "n \<in> set [0..<Suc (card K)]"
      by (metis find_Some_iff, metis find_Some_iff nth_mem)
    moreover from this have "n \<le> card K" by (auto simp del: upt_Suc)
    moreover have "unat (of_nat n :: usize) \<le> n"
      by (simp add: unat_of_nat take_bit_nat_less_eq_self)
    ultimately show ?thesis
      by (simp only: lowest_vacant_def n option.case) simp
  qed
  moreover have "K \<noteq> UNIV" if "card K < slab_max" for K :: "usize set"
    using that by (auto simp: card_word slab_max_def)
  ultimately show ?thesis unfolding slab_laws_def by (meson le_less_trans)
qed

end
