(* ===== verification/Concurrency.thy ===== *)
theory Concurrency
  imports Externals
begin

text \<open>
  The combinators of \<open>src/src/concurrency.rs\<close>: \<open>FlagWaker\<close>, \<open>JoinFuture\<close> (the
  \<open>join!\<close> macro) and the two merged streams over \<open>poll_merged\<close> (\<open>merge_futures!\<close>,
  \<open>merge_streams!\<close>).

  The inner futures are a parameter. Polling the future in slot \<open>i\<close> with state \<open>f\<close>
  takes what the futures share (\<open>'x\<close>) and yields the flag wakers it calls, in order, its
  next state, the new shared state and its result. Any interaction of the futures with
  each other's wakers is such a list.
\<close>

type_synonym ('f, 'x, 'r) inner_poll = "nat \<Rightarrow> 'f \<Rightarrow> 'x \<Rightarrow> nat list \<times> 'f \<times> 'x \<times> 'r poll"

section \<open>Flag wakers\<close>

text \<open>The array of \<open>FlagWaker\<close>s of one combinator, their common base waker, and what
  the inner futures share.\<close>

record ('a, 'o, 'x) flag_wakers =
  fw_base :: "('a, 'o) base"
  fw_awoken :: "bool list"
  fw_env :: 'x

definition FlagWaker_set_awoken :: "nat \<Rightarrow> ('a, 'o, 'x) flag_wakers \<Rightarrow> ('a, 'o, 'x) flag_wakers" where
  "FlagWaker_set_awoken i s = s\<lparr>fw_awoken := (fw_awoken s)[i := True]\<rparr>"

definition FlagWaker_check_awoken ::
  "nat \<Rightarrow> ('a, 'o, 'x) flag_wakers \<Rightarrow> bool \<times> ('a, 'o, 'x) flag_wakers" where
  "FlagWaker_check_awoken i s = (fw_awoken s ! i, s\<lparr>fw_awoken := (fw_awoken s)[i := False]\<rparr>)"

definition FlagWaker_wake ::
  "('a, 'o) atomic_waker \<Rightarrow> nat \<Rightarrow> ('a, 'o, 'x) flag_wakers \<Rightarrow> ('a, 'o, 'x) flag_wakers" where
  "FlagWaker_wake A i s =
     (let s1 = FlagWaker_set_awoken i s in s1\<lparr>fw_base := base_wake A (fw_base s1)\<rparr>)"

text \<open>\<open>n\<close> wakers over a new base waker; every flag starts set.\<close>

definition FlagWaker_waker_pairs :: "('a, 'o) atomic_waker \<Rightarrow> 'x \<Rightarrow> nat \<Rightarrow> ('a, 'o, 'x) flag_wakers" where
  "FlagWaker_waker_pairs A x n =
     \<lparr>fw_base = \<lparr>base_cell = aw_new A, base_log = []\<rparr>, fw_awoken = replicate n True, fw_env = x\<rparr>"

definition poll_inner ::
  "('a, 'o) atomic_waker \<Rightarrow> ('f, 'x, 'r) inner_poll \<Rightarrow> nat \<Rightarrow> 'f \<Rightarrow> ('a, 'o, 'x) flag_wakers \<Rightarrow>
     'r poll \<times> 'f \<times> ('a, 'o, 'x) flag_wakers" where
  "poll_inner A P i f s =
     (let (acts, f', x', r) = P i f (fw_env s)
      in (r, f', fold (FlagWaker_wake A) acts (s\<lparr>fw_env := x'\<rparr>)))"

text \<open>
  The safety of the flags: since \<open>cx\<close> was registered, either no slot of \<open>S\<close> has its flag
  set or \<open>cx\<close> has been called.
\<close>

definition flags_heard ::
  "('a, 'o) atomic_waker \<Rightarrow> 'o \<Rightarrow> 'o list \<Rightarrow> nat set \<Rightarrow> ('a, 'o, 'x) flag_wakers \<Rightarrow> bool" where
  "flags_heard A cx l S s \<longleftrightarrow> cx_state A cx l (fw_base s) \<and>
     ((\<forall>i \<in> S. i < length (fw_awoken s) \<longrightarrow> \<not> fw_awoken s ! i) \<or> cx_called A cx l (fw_base s))"

lemma length_awoken [simp]:
  "length (fw_awoken (FlagWaker_set_awoken i s)) = length (fw_awoken s)"
  "length (fw_awoken (FlagWaker_wake A i s)) = length (fw_awoken s)"
  "length (fw_awoken (snd (FlagWaker_check_awoken i s))) = length (fw_awoken s)"
  by (simp_all add: FlagWaker_set_awoken_def FlagWaker_wake_def FlagWaker_check_awoken_def Let_def)

lemma length_awoken_fold [simp]:
  "length (fw_awoken (fold (FlagWaker_wake A) acts s)) = length (fw_awoken s)"
  by (induction acts arbitrary: s) simp_all

lemma flags_heard_check:
  "flags_heard A cx l S s \<Longrightarrow>
   flags_heard A cx l (Set.insert i S) (snd (FlagWaker_check_awoken i s))"
proof -
  have "\<not> (fw_awoken s)[i := False] ! k"
    if "k = i \<or> \<not> fw_awoken s ! k" "k < length (fw_awoken s)" for k
    using that by (cases "k = i") simp_all
  moreover assume "flags_heard A cx l S s"
  ultimately show ?thesis
    by (simp add: flags_heard_def FlagWaker_check_awoken_def) blast
qed

lemma flags_heard_wake:
  "aw_laws A \<Longrightarrow> flags_heard A cx l S s \<Longrightarrow> flags_heard A cx l S' (FlagWaker_wake A i s)"
  by (simp add: flags_heard_def FlagWaker_wake_def FlagWaker_set_awoken_def Let_def cx_called_wake
      cx_stateI)

lemma flags_heard_wakes:
  "aw_laws A \<Longrightarrow> flags_heard A cx l S s \<Longrightarrow> flags_heard A cx l S (fold (FlagWaker_wake A) acts s)"
  by (induction acts arbitrary: s) (auto intro: flags_heard_wake)

lemma flags_heard_env [simp]: "flags_heard A cx l S (s\<lparr>fw_env := x\<rparr>) = flags_heard A cx l S s"
  by (simp add: flags_heard_def)

lemma poll_inner_heard:
  "aw_laws A \<Longrightarrow> flags_heard A cx l S s \<Longrightarrow> poll_inner A P i f s = (r, f', s') \<Longrightarrow>
   flags_heard A cx l S s' \<and> length (fw_awoken s') = length (fw_awoken s)"
  by (auto simp: poll_inner_def Let_def flags_heard_wakes split: prod.splits)

lemma flags_heard_mono: "flags_heard A cx l S s \<Longrightarrow> S' \<subseteq> S \<Longrightarrow> flags_heard A cx l S' s"
  by (auto simp: flags_heard_def)

lemma flags_heard_start:
  "aw_laws A \<Longrightarrow> flags_heard A cx (base_log (fw_base s)) {}
     (s\<lparr>fw_base := base_register A cx (fw_base s)\<rparr>)"
  by (simp add: flags_heard_def cx_state_register)

section \<open>Join\<close>

datatype ('f, 'v) inflight = Fut 'f | Done 'v

record ('f, 'v, 'a, 'o, 'x) join_future =
  jf_inflight :: "('f, 'v) inflight list option"
  jf_wakers :: "('a, 'o, 'x) flag_wakers"

fun Inflight_unwrap_done :: "('f, 'v) inflight \<Rightarrow> 'v res" where
  "Inflight_unwrap_done (Fut _) = Panic ''expected inflight future to be done''"
| "Inflight_unwrap_done (Done v) = Ok v"

fun map_res :: "('a \<Rightarrow> 'b res) \<Rightarrow> 'a list \<Rightarrow> 'b list res" where
  "map_res g [] = Ok []"
| "map_res g (x # xs) = bind_res (g x) (\<lambda>y. bind_res (map_res g xs) (\<lambda>ys. Ok (y # ys)))"

definition JoinFuture_new ::
  "('a, 'o) atomic_waker \<Rightarrow> 'x \<Rightarrow> 'f list \<Rightarrow> ('f, 'v, 'a, 'o, 'x) join_future" where
  "JoinFuture_new A x futures =
     \<lparr>jf_inflight = Some (map Fut futures),
      jf_wakers = FlagWaker_waker_pairs A x (length futures)\<rparr>"

text \<open>
  The body of the loop at slot \<open>i\<close>; the first result says whether the slot is done, and
  otherwise the loop sets \<open>out\<close> to \<open>Pending\<close>.
\<close>

definition poll_join_slot ::
  "('a, 'o) atomic_waker \<Rightarrow> ('f, 'x, 'v) inner_poll \<Rightarrow> nat \<Rightarrow>
     ('f, 'v) inflight list \<Rightarrow> ('a, 'o, 'x) flag_wakers \<Rightarrow>
     bool \<times> ('f, 'v) inflight list \<times> ('a, 'o, 'x) flag_wakers" where
  "poll_join_slot A P i infl s =
     (case infl ! i of
        Done v \<Rightarrow> (True, infl, s)
      | Fut f \<Rightarrow>
          (let (awoken, s1) = FlagWaker_check_awoken i s
           in if awoken
              then (case poll_inner A P i f s1 of
                      (Ready v, f', s2) \<Rightarrow> (True, infl[i := Done v], s2)
                    | (Pending, f', s2) \<Rightarrow> (False, infl[i := Fut f'], s2))
              else (False, infl, s1)))"

fun poll_join_loop ::
  "('a, 'o) atomic_waker \<Rightarrow> ('f, 'x, 'v) inner_poll \<Rightarrow> nat list \<Rightarrow> unit poll \<Rightarrow>
     ('f, 'v) inflight list \<Rightarrow> ('a, 'o, 'x) flag_wakers \<Rightarrow>
     unit poll \<times> ('f, 'v) inflight list \<times> ('a, 'o, 'x) flag_wakers" where
  "poll_join_loop A P [] out infl s = (out, infl, s)"
| "poll_join_loop A P (i # is) out infl s =
     (let (ok, infl', s') = poll_join_slot A P i infl s
      in poll_join_loop A P is (if ok then out else Pending) infl' s')"

definition poll_join ::
  "('a, 'o) atomic_waker \<Rightarrow> ('f, 'x, 'v) inner_poll \<Rightarrow>
     ('f, 'v) inflight list \<Rightarrow> ('a, 'o, 'x) flag_wakers \<Rightarrow>
     unit poll \<times> ('f, 'v) inflight list \<times> ('a, 'o, 'x) flag_wakers" where
  "poll_join A P infl s =
     poll_join_loop A P [0..<min (length infl) (length (fw_awoken s))] (Ready ()) infl s"

definition JoinFuture_poll ::
  "('a, 'o) atomic_waker \<Rightarrow> ('f, 'x, 'v) inner_poll \<Rightarrow> 'o \<Rightarrow> ('f, 'v, 'a, 'o, 'x) join_future \<Rightarrow>
     'v list poll res \<times> ('f, 'v, 'a, 'o, 'x) join_future" where
  "JoinFuture_poll A P cx j =
     (let s = (jf_wakers j)\<lparr>fw_base := base_register A cx (fw_base (jf_wakers j))\<rparr>
      in case jf_inflight j of
           None \<Rightarrow> (Panic ''called Option::unwrap() on a None value'', j\<lparr>jf_wakers := s\<rparr>)
         | Some infl \<Rightarrow>
             (case poll_join A P infl s of
                (Pending, infl', s') \<Rightarrow>
                  (Ok Pending, \<lparr>jf_inflight = Some infl', jf_wakers = s'\<rparr>)
              | (Ready _, infl', s') \<Rightarrow>
                  (bind_res (map_res Inflight_unwrap_done infl') (\<lambda>vs. Ok (Ready vs)),
                   \<lparr>jf_inflight = None, jf_wakers = s'\<rparr>)))"

text \<open>
  The \<open>join!\<close> macro: an async block around the future, whose arguments are expressions that the
  block evaluates, in order, when it is polled for the first time.
\<close>

fun eval_args :: "('x \<Rightarrow> 'f \<times> 'x) list \<Rightarrow> 'x \<Rightarrow> 'f list \<times> 'x" where
  "eval_args [] x = ([], x)"
| "eval_args (e # es) x = (let (f, x1) = e x; (fs, x2) = eval_args es x1 in (f # fs, x2))"

datatype ('f, 'v, 'a, 'o, 'x) join_block =
    Join_Start "('x \<Rightarrow> 'f \<times> 'x) list"
  | Join_Await "('f, 'v, 'a, 'o, 'x) join_future"
  | Join_End

definition join_await ::
  "('a, 'o) atomic_waker \<Rightarrow> ('f, 'x, 'v) inner_poll \<Rightarrow> 'o \<Rightarrow> ('f, 'v, 'a, 'o, 'x) join_future \<Rightarrow>
     'v list poll res \<times> ('f, 'v, 'a, 'o, 'x) join_block \<times> 'x" where
  "join_await A P cx j =
     (case JoinFuture_poll A P cx j of
        (Ok Pending, j') \<Rightarrow> (Ok Pending, Join_Await j', fw_env (jf_wakers j'))
      | (res, j') \<Rightarrow> (res, Join_End, fw_env (jf_wakers j')))"

definition join_macro_poll ::
  "('a, 'o) atomic_waker \<Rightarrow> ('f, 'x, 'v) inner_poll \<Rightarrow> 'o \<Rightarrow> ('f, 'v, 'a, 'o, 'x) join_block \<Rightarrow> 'x \<Rightarrow>
     'v list poll res \<times> ('f, 'v, 'a, 'o, 'x) join_block \<times> 'x" where
  "join_macro_poll A P cx b x =
     (case b of
        Join_Start es \<Rightarrow> (let (fs, x1) = eval_args es x in join_await A P cx (JoinFuture_new A x1 fs))
      | Join_Await j \<Rightarrow> join_await A P cx (j\<lparr>jf_wakers := (jf_wakers j)\<lparr>fw_env := x\<rparr>\<rparr>)
      | Join_End \<Rightarrow> (Panic ''async fn resumed after completion'', Join_End, x))"

definition join_ok :: "('f, 'v, 'a, 'o, 'x) join_future \<Rightarrow> bool" where
  "join_ok j \<longleftrightarrow> (case jf_inflight j of
     None \<Rightarrow> True | Some infl \<Rightarrow> length infl = length (fw_awoken (jf_wakers j)))"

fun is_Fut :: "('f, 'v) inflight \<Rightarrow> bool" where
  "is_Fut (Fut f) = True"
| "is_Fut (Done v) = False"

lemma is_Fut_iff: "is_Fut x \<longleftrightarrow> (\<forall>v. x \<noteq> Done v)"
  by (cases x) simp_all

lemma poll_inner_length:
  "poll_inner A P i f s = (r, f', s') \<Longrightarrow> length (fw_awoken s') = length (fw_awoken s)"
  by (auto simp: poll_inner_def Let_def split: prod.splits)

lemma check_awoken_simps [simp]:
  "fst (FlagWaker_check_awoken i s) = fw_awoken s ! i"
  "fw_base (snd (FlagWaker_check_awoken i s)) = fw_base s"
  "fw_env (snd (FlagWaker_check_awoken i s)) = fw_env s"
  by (simp_all add: FlagWaker_check_awoken_def)

lemma poll_join_slot_eq:
  "poll_join_slot A P i infl s =
     (case infl ! i of
        Done v \<Rightarrow> (True, infl, s)
      | Fut f \<Rightarrow>
          if fw_awoken s ! i
          then (case poll_inner A P i f (snd (FlagWaker_check_awoken i s)) of
                  (r, f', s2) \<Rightarrow> (r \<noteq> Pending,
                    infl[i := (case r of Ready v \<Rightarrow> Done v | Pending \<Rightarrow> Fut f')], s2))
          else (False, infl, snd (FlagWaker_check_awoken i s)))"
  by (simp add: poll_join_slot_def FlagWaker_check_awoken_def split: inflight.split poll.split prod.split)

text \<open>The three ways through the body of the loop.\<close>

lemma poll_join_slot_cases:
  assumes "poll_join_slot A P i infl s = (ok, infl', s')"
  obtains (finished) v where "infl ! i = Done v" "ok" "infl' = infl" "s' = s"
  | (asleep) f where "infl ! i = Fut f" "\<not> fw_awoken s ! i" "\<not> ok" "infl' = infl"
      "s' = snd (FlagWaker_check_awoken i s)"
  | (polled) f f' r where "infl ! i = Fut f" "fw_awoken s ! i"
      "poll_inner A P i f (snd (FlagWaker_check_awoken i s)) = (r, f', s')"
      "ok \<longleftrightarrow> r \<noteq> Pending"
      "infl' = infl[i := (case r of Ready v \<Rightarrow> Done v | Pending \<Rightarrow> Fut f')]"
proof (cases "infl ! i")
  case (Done v)
  with assms show thesis by (intro finished [OF Done]) (simp_all add: poll_join_slot_eq)
next
  case (Fut f)
  obtain r f' s2 where p: "poll_inner A P i f (snd (FlagWaker_check_awoken i s)) = (r, f', s2)"
    by (metis prod_cases3)
  show thesis
  proof (cases "fw_awoken s ! i")
    case False
    with assms Fut show thesis by (intro asleep [OF Fut False]) (simp_all add: poll_join_slot_eq)
  next
    case True
    then have "(ok, infl', s') = (r \<noteq> Pending,
        infl[i := (case r of Ready v \<Rightarrow> Done v | Pending \<Rightarrow> Fut f')], s2)"
      using assms by (simp only: poll_join_slot_eq Fut p inflight.case if_True prod.case)
    then show thesis using p by (intro polled [OF Fut True, of r f']) (simp_all only: prod.inject)
  qed
qed

lemma poll_join_slot_length:
  "poll_join_slot A P i infl s = (ok, infl', s') \<Longrightarrow>
   length infl' = length infl \<and> length (fw_awoken s') = length (fw_awoken s)"
  by (erule poll_join_slot_cases) (auto dest: poll_inner_length)

lemma poll_join_slot_ok:
  "poll_join_slot A P i infl s = (ok, infl', s') \<Longrightarrow> i < length infl \<Longrightarrow> ok \<longleftrightarrow> \<not> is_Fut (infl' ! i)"
  by (erule poll_join_slot_cases) (auto split: poll.splits)

lemma poll_join_slot_done:
  "poll_join_slot A P i infl s = (ok, infl', s') \<Longrightarrow> infl ! k = Done v \<Longrightarrow> infl' ! k = Done v"
  by (cases "k = i"; erule poll_join_slot_cases) simp_all

lemma poll_join_slot_heard:
  "aw_laws A \<Longrightarrow> poll_join_slot A P i infl s = (ok, infl', s') \<Longrightarrow> flags_heard A cx l S s \<Longrightarrow>
   flags_heard A cx l (if is_Fut (infl ! i) then Set.insert i S else S) s'"
  by (erule poll_join_slot_cases)
    (auto intro: flags_heard_check dest: poll_inner_heard [OF _ flags_heard_check])

text \<open>The same facts for the loop.\<close>

lemma poll_join_loop_length:
  "poll_join_loop A P is out infl s = (out', infl', s') \<Longrightarrow>
   length infl' = length infl \<and> length (fw_awoken s') = length (fw_awoken s)"
  by (induction "is" arbitrary: out infl s)
    (auto simp: Let_def split: prod.splits dest!: poll_join_slot_length)

lemma poll_join_loop_done:
  "poll_join_loop A P is out infl s = (out', infl', s') \<Longrightarrow> infl ! k = Done v \<Longrightarrow>
   infl' ! k = Done v"
  by (induction "is" arbitrary: out infl s)
    (auto simp: Let_def split: prod.splits dest: poll_join_slot_done)

lemma poll_join_slot_other:
  "poll_join_slot A P i infl s = (ok, infl', s') \<Longrightarrow> k \<noteq> i \<Longrightarrow> infl' ! k = infl ! k"
  by (erule poll_join_slot_cases) auto

lemma poll_join_loop_other:
  "poll_join_loop A P is out infl s = (out', infl', s') \<Longrightarrow> k \<notin> set is \<Longrightarrow> infl' ! k = infl ! k"
  by (induction "is" arbitrary: out infl s)
    (auto simp: Let_def split: prod.splits dest: poll_join_slot_other)

lemma poll_join_loop_ready:
  "poll_join_loop A P is out infl s = (out', infl', s') \<Longrightarrow> distinct is \<Longrightarrow>
   \<forall>i \<in> set is. i < length infl \<Longrightarrow>
   out' = Ready () \<longleftrightarrow> out = Ready () \<and> (\<forall>i \<in> set is. \<not> is_Fut (infl' ! i))"
proof (induction "is" arbitrary: out infl s)
  case (Cons i "is")
  obtain ok infl1 s1 where 1: "poll_join_slot A P i infl s = (ok, infl1, s1)"
    by (metis prod_cases3)
  have 2: "poll_join_loop A P is (if ok then out else Pending) infl1 s1 = (out', infl', s')"
    using Cons.prems(1) 1 by simp
  have "length infl1 = length infl" using poll_join_slot_length [OF 1] by simp
  then have "out' = Ready () \<longleftrightarrow> (if ok then out else Pending) = Ready () \<and>
      (\<forall>i \<in> set is. \<not> is_Fut (infl' ! i))"
    using Cons.IH [OF 2] Cons.prems by simp
  moreover have "ok \<longleftrightarrow> \<not> is_Fut (infl1 ! i)" using poll_join_slot_ok [OF 1] Cons.prems by simp
  moreover have "infl' ! i = infl1 ! i" using poll_join_loop_other [OF 2] Cons.prems by simp
  ultimately show ?case by auto
qed auto

lemma poll_join_loop_heard:
  "aw_laws A \<Longrightarrow> poll_join_loop A P is out infl s = (out', infl', s') \<Longrightarrow> flags_heard A cx l S s \<Longrightarrow>
   distinct is \<Longrightarrow> flags_heard A cx l (S \<union> {i \<in> set is. is_Fut (infl ! i)}) s'"
proof (induction "is" arbitrary: out infl s S)
  case (Cons i "is")
  obtain ok infl1 s1 where 1: "poll_join_slot A P i infl s = (ok, infl1, s1)"
    by (metis prod_cases3)
  have 2: "poll_join_loop A P is (if ok then out else Pending) infl1 s1 = (out', infl', s')"
    using Cons.prems(2) 1 by simp
  let ?S = "if is_Fut (infl ! i) then Set.insert i S else S"
  have "flags_heard A cx l ?S s1" by (rule poll_join_slot_heard [OF Cons.prems(1) 1 Cons.prems(3)])
  then have "flags_heard A cx l (?S \<union> {i \<in> set is. is_Fut (infl1 ! i)}) s'"
    using Cons.IH [OF Cons.prems(1) 2] Cons.prems(4) by simp
  moreover have "{k \<in> set is. is_Fut (infl1 ! k)} = {k \<in> set is. is_Fut (infl ! k)}"
    using Cons.prems(4) poll_join_slot_other [OF 1] by (metis (mono_tags, lifting) distinct.simps(2))
  ultimately show ?case by (elim flags_heard_mono) auto
qed auto

lemma poll_join_result:
  assumes "poll_join A P infl s = (out, infl', s')" and "length infl = length (fw_awoken s)"
  shows "length infl' = length infl" "length (fw_awoken s') = length (fw_awoken s)"
    "out = Ready () \<longleftrightarrow> (\<forall>x \<in> set infl'. \<not> is_Fut x)"
    "infl ! k = Done v \<Longrightarrow> infl' ! k = Done v"
    "aw_laws A \<Longrightarrow> flags_heard A cx l {} s \<Longrightarrow>
       flags_heard A cx l {i. i < length infl \<and> is_Fut (infl ! i)} s'"
proof -
  have loop: "poll_join_loop A P [0..<length infl] (Ready ()) infl s = (out, infl', s')"
    using assms by (simp add: poll_join_def)
  show len: "length infl' = length infl" "length (fw_awoken s') = length (fw_awoken s)"
    using poll_join_loop_length [OF loop] by simp_all
  show "out = Ready () \<longleftrightarrow> (\<forall>x \<in> set infl'. \<not> is_Fut x)"
    unfolding all_set_conv_all_nth using poll_join_loop_ready [OF loop] len by (simp add: Ball_def)

  show "infl ! k = Done v \<Longrightarrow> infl' ! k = Done v" by (rule poll_join_loop_done [OF loop])
  show "flags_heard A cx l {i. i < length infl \<and> is_Fut (infl ! i)} s'"
    if "aw_laws A" "flags_heard A cx l {} s"
    using poll_join_loop_heard [OF that(1) loop that(2)] by (simp add: atLeast_upt Collect_conj_eq Int_commute)
qed

lemma map_res_done:
  "\<forall>x \<in> set infl. \<not> is_Fut x \<Longrightarrow>
   \<exists>vs. map_res Inflight_unwrap_done infl = Ok vs \<and> infl = map Done vs"
proof (induction infl)
  case (Cons x infl)
  then obtain vs where "map_res Inflight_unwrap_done infl = Ok vs" "infl = map Done vs" by auto
  moreover obtain v where "x = Done v" using Cons.prems by (cases x) auto
  ultimately show ?case by (intro exI [of _ "v # vs"]) simp
qed simp

text \<open>A slot that becomes done got its value from its own future.\<close>

definition yields :: "('f, 'x, 'r) inner_poll \<Rightarrow> nat \<Rightarrow> 'f \<Rightarrow> 'r \<Rightarrow> bool" where
  "yields P i f v \<longleftrightarrow> (\<exists>x acts f' x'. P i f x = (acts, f', x', Ready v))"

lemma poll_inner_yields: "poll_inner A P i f s = (Ready v, f', s') \<Longrightarrow> yields P i f v"
  by (auto simp: poll_inner_def yields_def Let_def split: prod.splits)

lemma poll_join_slot_value:
  "poll_join_slot A P i infl s = (ok, infl', s') \<Longrightarrow> infl ! i = Fut f \<Longrightarrow> infl' ! i = Done v \<Longrightarrow>
   i < length infl \<Longrightarrow> yields P i f v"
  by (erule poll_join_slot_cases) (auto split: poll.splits dest: poll_inner_yields)

lemma poll_join_loop_value:
  "poll_join_loop A P is out infl s = (out', infl', s') \<Longrightarrow> distinct is \<Longrightarrow>
   infl ! k = Fut f \<Longrightarrow> infl' ! k = Done v \<Longrightarrow> k < length infl \<Longrightarrow> yields P k f v"
proof (induction "is" arbitrary: out infl s)
  case (Cons i "is")
  obtain ok infl1 s1 where 1: "poll_join_slot A P i infl s = (ok, infl1, s1)"
    by (metis prod_cases3)
  have 2: "poll_join_loop A P is (if ok then out else Pending) infl1 s1 = (out', infl', s')"
    using Cons.prems(1) 1 by simp
  show ?case
  proof (cases "k = i")
    case True
    then have "infl1 ! i = Done v"
      using poll_join_loop_other [OF 2, of i] Cons.prems by simp
    then show ?thesis using poll_join_slot_value [OF 1] Cons.prems True by simp
  next
    case False
    then show ?thesis
      using Cons.IH [OF 2] Cons.prems poll_join_slot_other [OF 1 False] poll_join_slot_length [OF 1]
      by simp
  qed
qed auto

lemma poll_join_value:
  "poll_join A P infl s = (out, infl', s') \<Longrightarrow> length infl = length (fw_awoken s) \<Longrightarrow>
   infl ! k = Fut f \<Longrightarrow> infl' ! k = Done v \<Longrightarrow> k < length infl \<Longrightarrow> yields P k f v"
  unfolding poll_join_def by (erule poll_join_loop_value) simp_all

definition slot_value :: "('f, 'x, 'v) inner_poll \<Rightarrow> nat \<Rightarrow> ('f, 'v) inflight \<Rightarrow> 'v \<Rightarrow> bool" where
  "slot_value P i x v \<longleftrightarrow> (case x of Done w \<Rightarrow> v = w | Fut f \<Rightarrow> yields P i f v)"

text \<open>The result of one poll of a \<open>JoinFuture\<close> that has not returned its output yet.\<close>

lemma JoinFuture_poll_result:
  assumes "jf_inflight j = Some infl" "join_ok j" "JoinFuture_poll A P cx j = (r, j')"
  obtains (pending) infl' where "r = Ok Pending" "jf_inflight j' = Some infl'"
      "length infl' = length infl" "\<exists>x \<in> set infl'. is_Fut x"
      "\<forall>k v. infl ! k = Done v \<longrightarrow> infl' ! k = Done v"
  | (ready) vs where "r = Ok (Ready vs)" "jf_inflight j' = None" "length vs = length infl"
      "\<forall>k < length infl. slot_value P k (infl ! k) (vs ! k)"
proof -
  let ?s = "(jf_wakers j)\<lparr>fw_base := base_register A cx (fw_base (jf_wakers j))\<rparr>"
  obtain out infl' s' where p: "poll_join A P infl ?s = (out, infl', s')" by (metis prod_cases3)
  have len: "length infl = length (fw_awoken ?s)" using assms(1,2) by (simp add: join_ok_def)
  note res = poll_join_result [OF p len]
  show thesis
  proof (cases out)
    case Pending
    have "r = Ok Pending" "jf_inflight j' = Some infl'"
      using assms(1,3) p Pending by (auto simp: JoinFuture_poll_def)
    then show thesis using pending res Pending by simp
  next
    case (Ready u)
    then have all: "\<forall>x \<in> set infl'. \<not> is_Fut x" using res(3) by simp
    obtain vs where vs: "map_res Inflight_unwrap_done infl' = Ok vs" "infl' = map Done vs"
      using map_res_done [OF all] by blast
    have "slot_value P k (infl ! k) (vs ! k)" if "k < length infl" for k
    proof -
      have vk: "infl' ! k = Done (vs ! k)" using that vs(2) res(1) by simp
      show ?thesis
      proof (cases "infl ! k")
        case (Fut f)
        then show ?thesis using poll_join_value [OF p len Fut vk that] by (simp add: slot_value_def)
      next
        case (Done w)
        then show ?thesis using res(4) [OF Done] vk by (simp add: slot_value_def)
      qed
    qed
    moreover have "r = Ok (Ready vs)" "jf_inflight j' = None"
      using assms(1,3) p Ready vs by (auto simp: JoinFuture_poll_def)
    moreover have "length vs = length infl" using vs(2) res(1) by simp
    ultimately show thesis using ready by blast
  qed
qed

lemma JoinFuture_poll_heard:
  assumes "aw_laws A" "jf_inflight j = Some infl" "join_ok j"
    "JoinFuture_poll A P cx j = (Ok Pending, j')"
  shows "flags_heard A cx (base_log (fw_base (jf_wakers j)))
    {i. i < length infl \<and> is_Fut (infl ! i)} (jf_wakers j')"
proof -
  let ?s = "(jf_wakers j)\<lparr>fw_base := base_register A cx (fw_base (jf_wakers j))\<rparr>"
  obtain out infl' s' where p: "poll_join A P infl ?s = (out, infl', s')" by (metis prod_cases3)
  have len: "length infl = length (fw_awoken ?s)" using assms(2,3) by (simp add: join_ok_def)
  have "jf_wakers j' = s'"
    using assms(2,4) p by (auto simp: JoinFuture_poll_def split: poll.splits)
  then show ?thesis
    using poll_join_result(5) [OF p len assms(1) flags_heard_start [OF assms(1)]] by simp
qed

lemma JoinFuture_poll_ok:
  assumes "join_ok j" "JoinFuture_poll A P cx j = (r, j')"
  shows "join_ok j'"
proof (cases "jf_inflight j")
  case None
  then show ?thesis using assms by (auto simp: JoinFuture_poll_def join_ok_def)
next
  case (Some infl)
  let ?s = "(jf_wakers j)\<lparr>fw_base := base_register A cx (fw_base (jf_wakers j))\<rparr>"
  obtain out infl' s' where p: "poll_join A P infl ?s = (out, infl', s')" by (metis prod_cases3)
  have len: "length infl = length (fw_awoken ?s)" using Some assms(1) by (simp add: join_ok_def)
  show ?thesis using poll_join_result(1,2) [OF p len] assms(2) Some p len
    by (auto simp: JoinFuture_poll_def join_ok_def split: poll.splits)
qed

lemma JoinFuture_new_ok [simp]: "join_ok (JoinFuture_new A x fs)"
  by (simp add: join_ok_def JoinFuture_new_def FlagWaker_waker_pairs_def)

text \<open>
  The block is the future it awaits: before the first poll nothing has been evaluated, and the
  first poll evaluates every argument once and polls the new future.
\<close>

lemma eval_args_length: "length (fst (eval_args es x)) = length es"
  by (induction es arbitrary: x) (auto simp: case_prod_unfold Let_def)

lemma join_macro_first:
  "join_macro_poll A P cx (Join_Start es) x =
     join_await A P cx (JoinFuture_new A (snd (eval_args es x)) (fst (eval_args es x)))"
  by (simp add: join_macro_poll_def case_prod_unfold Let_def)

subsection \<open>Properties of join\<close>

text \<open>
  C27: A poll of a \<open>JoinFuture\<close> that has not completed never panics and keeps the arrays
  in step. It completes exactly when no slot is left in flight, and then returns one value
  per slot in slot order: the value kept from an earlier poll, or the one the slot's own
  future has just returned. Otherwise it stays live and keeps the values it has.
\<close>

theorem join_poll:
  assumes "jf_inflight j = Some infl" "join_ok j" "JoinFuture_poll A P cx j = (r, j')"
  shows "join_ok j' \<and>
    (case r of
       Ok Pending \<Rightarrow> (\<exists>infl'. jf_inflight j' = Some infl' \<and> length infl' = length infl
           \<and> (\<exists>x \<in> set infl'. is_Fut x) \<and> (\<forall>k v. infl ! k = Done v \<longrightarrow> infl' ! k = Done v))
     | Ok (Ready vs) \<Rightarrow> jf_inflight j' = None \<and> length vs = length infl
           \<and> (\<forall>k < length infl. slot_value P k (infl ! k) (vs ! k))
     | _ \<Rightarrow> False)"
  using assms(1,2,3) JoinFuture_poll_ok [OF assms(2,3)]
  by (cases rule: JoinFuture_poll_result) auto

text \<open>Two futures: the first returns at once, the second wakes itself once and returns 9
  when its counter is up.\<close>

definition two_polls :: "(nat, unit, nat) inner_poll" where
  "two_polls i f x = (if i = 0 then ([], 0, (), Ready 7)
     else if f = 0 then ([], 0, (), Ready 9) else ([1], f - 1, (), Pending))"

definition two_join :: "(nat, nat, nat option, nat, unit) join_future" where
  "two_join = JoinFuture_new cell_waker () [5, 1]"

lemmas join_eval = two_polls_def two_join_def JoinFuture_new_def JoinFuture_poll_def poll_join_def
  poll_join_slot_def FlagWaker_check_awoken_def FlagWaker_waker_pairs_def FlagWaker_wake_def
  FlagWaker_set_awoken_def poll_inner_def base_register_def base_wake_def cell_waker_def Let_def
  numeral_2_eq_2

theorem join_poll_witness:
  "fst (JoinFuture_poll cell_waker two_polls 3 two_join) = Ok Pending \<and>
   jf_inflight (snd (JoinFuture_poll cell_waker two_polls 3 two_join)) = Some [Done 7, Fut 0] \<and>
   (\<exists>infl'. jf_inflight (snd (JoinFuture_poll cell_waker two_polls 3 two_join)) = Some infl' \<and>
      length infl' = 2 \<and> (\<exists>x \<in> set infl'. is_Fut x))"
proof -
  have 1: "jf_inflight two_join = Some [Fut 5, Fut 1]" "join_ok two_join"
    by (simp_all add: two_join_def) (simp add: JoinFuture_new_def)
  have 2: "fst (JoinFuture_poll cell_waker two_polls 3 two_join) = Ok Pending"
    "jf_inflight (snd (JoinFuture_poll cell_waker two_polls 3 two_join)) = Some [Done 7, Fut 0]"
    by (simp_all add: join_eval)
  then have 3: "JoinFuture_poll cell_waker two_polls 3 two_join =
      (Ok Pending, snd (JoinFuture_poll cell_waker two_polls 3 two_join))"
    by (metis prod.collapse)
  show ?thesis using join_poll [OF 1 3] 2 by auto
qed

text \<open>
  C26: No wakeup of a joined future is lost. When a poll of a \<open>JoinFuture\<close> returns
  \<open>Pending\<close>, the task waker \<open>cx\<close> of that poll is still registered with the base waker, so
  the next wake of any slot calls it, or it has been called already, exactly once; and if a
  future that is still in flight has its flag set, it has been called.
\<close>

theorem join_no_lost_wakeup:
  assumes "aw_laws A" "join_ok j" "JoinFuture_poll A P cx j = (Ok Pending, j')"
    "jf_inflight j' = Some infl'"
  shows "cx_state A cx (base_log (fw_base (jf_wakers j))) (fw_base (jf_wakers j')) \<and>
    ((\<exists>i < length infl'. is_Fut (infl' ! i) \<and> fw_awoken (jf_wakers j') ! i) \<longrightarrow>
      base_log (fw_base (jf_wakers j')) = base_log (fw_base (jf_wakers j)) @ [cx])"
proof -
  obtain infl where infl: "jf_inflight j = Some infl"
    using assms(3) by (cases "jf_inflight j") (auto simp: JoinFuture_poll_def)
  from infl assms(2,3)
  have keep: "length infl' = length infl" "\<And>k v. infl ! k = Done v \<Longrightarrow> infl' ! k = Done v"
    by (cases rule: JoinFuture_poll_result, use assms(4) in auto)+
  then have fut: "is_Fut (infl' ! i) \<Longrightarrow> is_Fut (infl ! i)" for i
    by (cases "infl ! i") auto
  have "length (fw_awoken (jf_wakers j')) = length infl'"
    using JoinFuture_poll_ok [OF assms(2,3)] assms(4) by (simp add: join_ok_def)
  then show ?thesis
    using JoinFuture_poll_heard [OF assms(1) infl assms(2,3)] keep(1) fut
    by (auto simp: flags_heard_def dest: cx_called_log)
qed

theorem join_no_lost_wakeup_witness:
  "base_log (fw_base (jf_wakers (snd (JoinFuture_poll cell_waker two_polls 3 two_join)))) = [3]"
proof -
  let ?j = "snd (JoinFuture_poll cell_waker two_polls 3 two_join)"
  have 1: "jf_inflight ?j = Some [Done 7, Fut 0]" "fst (JoinFuture_poll cell_waker two_polls 3 two_join) = Ok Pending"
    "fw_awoken (jf_wakers ?j) = [False, True]" "base_log (fw_base (jf_wakers two_join)) = []"
    by (simp_all add: join_eval)
  have 2: "join_ok two_join" by (simp add: two_join_def)
  have 3: "JoinFuture_poll cell_waker two_polls 3 two_join = (Ok Pending, ?j)"
    using 1(2) by (metis prod.collapse)
  have "\<exists>i < length [Done (7::nat), Fut 0]. is_Fut ([Done (7::nat), Fut (0::nat)] ! i) \<and> fw_awoken (jf_wakers ?j) ! i"
    using 1(3) by (intro exI [of _ 1]) simp
  then show ?thesis
    using join_no_lost_wakeup [OF cell_waker_laws 2 3 1(1)] 1(4) by simp
qed

lemma check_awoken_asleep [simp]:
  "\<not> fw_awoken s ! i \<Longrightarrow> snd (FlagWaker_check_awoken i s) = s"
  by (cases "i < length (fw_awoken s)")
    (simp_all add: FlagWaker_check_awoken_def list_update_same_conv list_update_beyond)

lemma poll_join_loop_spurious:
  "\<forall>i \<in> set is. is_Fut (infl ! i) \<longrightarrow> \<not> fw_awoken s ! i \<Longrightarrow>
   poll_join_loop A P is out infl s =
     (if \<exists>i \<in> set is. is_Fut (infl ! i) then Pending else out, infl, s)"
proof (induction "is" arbitrary: out)
  case (Cons i "is")
  then show ?case by (cases "infl ! i") (simp_all add: poll_join_slot_eq)
qed simp

text \<open>
  Minimal polling: a poll of a \<open>JoinFuture\<close> whose futures in flight have not been
  woken polls none of them. It returns \<open>Pending\<close>, and nothing but the registered task
  waker changes.
\<close>

theorem join_spurious_poll:
  assumes "jf_inflight j = Some infl" "join_ok j" "\<exists>x \<in> set infl. is_Fut x"
    "\<forall>i < length infl. is_Fut (infl ! i) \<longrightarrow> \<not> fw_awoken (jf_wakers j) ! i"
  shows "JoinFuture_poll A P cx j =
    (Ok Pending, j\<lparr>jf_wakers := (jf_wakers j)\<lparr>fw_base := base_register A cx (fw_base (jf_wakers j))\<rparr>\<rparr>)"
proof -
  have "\<exists>i < length infl. is_Fut (infl ! i)" using assms(3) by (auto simp: in_set_conv_nth)
  then have "poll_join A P infl ((jf_wakers j)\<lparr>fw_base := b\<rparr>) =
      (Pending, infl, (jf_wakers j)\<lparr>fw_base := b\<rparr>)" for b
    using assms(1,2,4) unfolding poll_join_def
    by (subst poll_join_loop_spurious) (auto simp: join_ok_def)
  then show ?thesis using assms(1) by (simp add: JoinFuture_poll_def Let_def)
qed

definition idle_join :: "(nat, nat, nat option, nat, unit) join_future" where
  "idle_join = \<lparr>jf_inflight = Some [Done 7, Fut 0],
     jf_wakers = \<lparr>fw_base = \<lparr>base_cell = None, base_log = []\<rparr>, fw_awoken = [True, False], fw_env = ()\<rparr>\<rparr>"

theorem join_spurious_poll_witness:
  "fst (JoinFuture_poll cell_waker two_polls 3 idle_join) = Ok Pending \<and>
   jf_inflight (snd (JoinFuture_poll cell_waker two_polls 3 idle_join)) = Some [Done 7, Fut 0]"
proof -
  have "jf_inflight idle_join = Some [Done 7, Fut 0]" "join_ok idle_join"
    by (simp_all add: idle_join_def join_ok_def)
  then show ?thesis
    using join_spurious_poll [of idle_join _ cell_waker two_polls 3]
    by (auto simp: less_Suc_eq idle_join_def)
qed

end
