(* ===== verification/Merge.thy ===== *)
theory Merge
  imports Concurrency
begin

text \<open>
  The merged streams of \<open>src/src/concurrency.rs\<close>: \<open>poll_merged\<close> with its three closures as
  arguments, \<open>MergeFutureStream\<close> (\<open>merge_futures!\<close>) and \<open>MergeStream\<close> (\<open>merge_streams!\<close>)
  as its two instances. The locale \<open>merge_closures\<close> is the contract between
  \<open>poll_merged\<close> and the closures.
\<close>

section \<open>The loop\<close>

record ('p, 'a, 'o, 'x) merged =
  mg_pollers :: "'p option list"
  mg_wakers :: "('a, 'o, 'x) flag_wakers"
  mg_idx :: nat
  mg_none_count :: nat

text \<open>
  The part of the loop's body before \<open>Update index\<close>, at slot \<open>i\<close>: \<open>Some ret\<close> is the early
  return of a value.
\<close>

definition poll_merged_slot ::
  "('a, 'o) atomic_waker \<Rightarrow> ('p, 'x, 'u) inner_poll \<Rightarrow> ('u \<Rightarrow> 't option) \<Rightarrow> ('u \<Rightarrow> bool) \<Rightarrow> nat \<Rightarrow>
     ('p, 'a, 'o, 'x) merged \<Rightarrow> 't option \<times> ('p, 'a, 'o, 'x) merged" where
  "poll_merged_slot A P opt_fn none_fn i m =
     (case mg_pollers m ! i of
        None \<Rightarrow> (None, m)
      | Some p \<Rightarrow>
          (let (awoken, s1) = FlagWaker_check_awoken i (mg_wakers m)
           in if awoken
              then (case poll_inner A P i p s1 of
                      (Ready out, p', s2) \<Rightarrow>
                        (let m1 = (if none_fn out
                                   then m\<lparr>mg_pollers := (mg_pollers m)[i := None], mg_wakers := s2,
                                          mg_none_count := mg_none_count m + 1\<rparr>
                                   else m\<lparr>mg_pollers := (mg_pollers m)[i := Some p'], mg_wakers := s2\<rparr>)
                         in case opt_fn out of
                              Some ret \<Rightarrow>
                                (Some ret, m1\<lparr>mg_wakers := FlagWaker_set_awoken i (mg_wakers m1)\<rparr>)
                            | None \<Rightarrow> (None, m1))
                    | (Pending, p', s2) \<Rightarrow>
                        (None, m\<lparr>mg_pollers := (mg_pollers m)[i := Some p'], mg_wakers := s2\<rparr>))
              else (None, m\<lparr>mg_wakers := s1\<rparr>)))"

fun poll_merged_loop ::
  "('a, 'o) atomic_waker \<Rightarrow> ('p, 'x, 'u) inner_poll \<Rightarrow> ('u \<Rightarrow> 't option) \<Rightarrow> ('u \<Rightarrow> bool) \<Rightarrow> nat list \<Rightarrow>
     ('p, 'a, 'o, 'x) merged \<Rightarrow> 't option poll \<times> ('p, 'a, 'o, 'x) merged" where
  "poll_merged_loop A P opt_fn none_fn [] m = (Pending, m)"
| "poll_merged_loop A P opt_fn none_fn (i # is) m =
     (case poll_merged_slot A P opt_fn none_fn i m of
        (Some ret, m1) \<Rightarrow> (Ready (Some ret), m1)
      | (None, m1) \<Rightarrow>
          (let m2 = m1\<lparr>mg_idx := (mg_idx m1 + 1) mod length (mg_pollers m1)\<rparr>
           in if mg_none_count m2 = length (mg_pollers m2) then (Ready None, m2)
              else poll_merged_loop A P opt_fn none_fn is m2))"

text \<open>\<open>split_at_mut\<close> panics beyond the end; the pollers from \<open>idx\<close> on come first.\<close>

definition poll_merged ::
  "('a, 'o) atomic_waker \<Rightarrow> ('p, 'x, 'u) inner_poll \<Rightarrow> ('u \<Rightarrow> 't option) \<Rightarrow> ('u \<Rightarrow> bool) \<Rightarrow>
     ('p, 'a, 'o, 'x) merged \<Rightarrow> 't option poll res \<times> ('p, 'a, 'o, 'x) merged" where
  "poll_merged A P opt_fn none_fn m =
     (let len = length (mg_pollers m); wlen = length (fw_awoken (mg_wakers m)); idx = mg_idx m
      in if len < idx \<or> wlen < idx then (Panic ''mid > len'', m)
         else (case poll_merged_loop A P opt_fn none_fn ([idx..<min len wlen] @ [0..<idx]) m of
                 (r, m') \<Rightarrow> (Ok r, m')))"

section \<open>The two streams\<close>

definition merged_new :: "('a, 'o) atomic_waker \<Rightarrow> 'x \<Rightarrow> 'p list \<Rightarrow> ('p, 'a, 'o, 'x) merged" where
  "merged_new A x ps =
     \<lparr>mg_pollers = map Some ps, mg_wakers = FlagWaker_waker_pairs A x (length ps),
      mg_idx = 0, mg_none_count = 0\<rparr>"

definition merged_register ::
  "('a, 'o) atomic_waker \<Rightarrow> 'o \<Rightarrow> ('p, 'a, 'o, 'x) merged \<Rightarrow> ('p, 'a, 'o, 'x) merged" where
  "merged_register A cx m =
     m\<lparr>mg_wakers := (mg_wakers m)\<lparr>fw_base := base_register A cx (fw_base (mg_wakers m))\<rparr>\<rparr>"

definition MergeFutureStream_new ::
  "('a, 'o) atomic_waker \<Rightarrow> 'x \<Rightarrow> 'f list \<Rightarrow> ('f, 'a, 'o, 'x) merged" where
  "MergeFutureStream_new A x futures = merged_new A x futures"

definition MergeFutureStream_poll_next ::
  "('a, 'o) atomic_waker \<Rightarrow> ('f, 'x, 't) inner_poll \<Rightarrow> 'o \<Rightarrow> ('f, 'a, 'o, 'x) merged \<Rightarrow>
     't option poll res \<times> ('f, 'a, 'o, 'x) merged" where
  "MergeFutureStream_poll_next A P cx m =
     poll_merged A P (\<lambda>x. Some x) (\<lambda>_. True) (merged_register A cx m)"

definition MergeStream_new ::
  "('a, 'o) atomic_waker \<Rightarrow> 'x \<Rightarrow> 'g list \<Rightarrow> ('g, 'a, 'o, 'x) merged" where
  "MergeStream_new A x streams = merged_new A x streams"

definition MergeStream_poll_next ::
  "('a, 'o) atomic_waker \<Rightarrow> ('g, 'x, 't option) inner_poll \<Rightarrow> 'o \<Rightarrow> ('g, 'a, 'o, 'x) merged \<Rightarrow>
     't option poll res \<times> ('g, 'a, 'o, 'x) merged" where
  "MergeStream_poll_next A P cx m =
     poll_merged A P (\<lambda>u. u) (\<lambda>u. u = None) (merged_register A cx m)"

text \<open>
  The macros \<open>merge_futures!\<close> and \<open>merge_streams!\<close> make the array and call the constructor; unlike
  \<open>join!\<close> they evaluate their arguments at once.
\<close>

definition merge_futures_macro ::
  "('a, 'o) atomic_waker \<Rightarrow> ('x \<Rightarrow> 'f \<times> 'x) list \<Rightarrow> 'x \<Rightarrow> ('f, 'a, 'o, 'x) merged" where
  "merge_futures_macro A es x = (let (fs, x1) = eval_args es x in MergeFutureStream_new A x1 fs)"

definition merge_streams_macro ::
  "('a, 'o) atomic_waker \<Rightarrow> ('x \<Rightarrow> 'g \<times> 'x) list \<Rightarrow> 'x \<Rightarrow> ('g, 'a, 'o, 'x) merged" where
  "merge_streams_macro A es x = (let (gs, x1) = eval_args es x in MergeStream_new A x1 gs)"

text \<open>The invariant of both: the arrays agree, the index is in range, and \<open>none_count\<close>
  counts the pollers that have ended. The macros require at least one poller.\<close>

definition merged_ok :: "('p, 'a, 'o, 'x) merged \<Rightarrow> bool" where
  "merged_ok m \<longleftrightarrow> length (fw_awoken (mg_wakers m)) = length (mg_pollers m)
     \<and> mg_idx m < length (mg_pollers m)
     \<and> mg_none_count m = length (filter (\<lambda>p. p = None) (mg_pollers m))"

definition live :: "('p, 'a, 'o, 'x) merged \<Rightarrow> nat" where
  "live m = length (filter (\<lambda>p. p \<noteq> None) (mg_pollers m))"

section \<open>One slot\<close>

lemma poll_merged_slot_eq:
  "poll_merged_slot A P opt_fn none_fn i m =
     (case mg_pollers m ! i of
        None \<Rightarrow> (None, m)
      | Some p \<Rightarrow>
          if fw_awoken (mg_wakers m) ! i
          then (case poll_inner A P i p (snd (FlagWaker_check_awoken i (mg_wakers m))) of
                  (Ready out, p', s2) \<Rightarrow>
                    (opt_fn out, m\<lparr>mg_pollers := (mg_pollers m)[i := if none_fn out then None else Some p'],
                       mg_wakers := if opt_fn out = None then s2 else FlagWaker_set_awoken i s2,
                       mg_none_count := mg_none_count m + (if none_fn out then 1 else 0)\<rparr>)
                | (Pending, p', s2) \<Rightarrow>
                    (None, m\<lparr>mg_pollers := (mg_pollers m)[i := Some p'], mg_wakers := s2\<rparr>))
          else (None, m\<lparr>mg_wakers := snd (FlagWaker_check_awoken i (mg_wakers m))\<rparr>))"
  by (simp add: poll_merged_slot_def FlagWaker_check_awoken_def Let_def
      split: option.split poll.split prod.split)

text \<open>The four ways through the body of the loop.\<close>

lemma poll_merged_slot_cases:
  assumes "poll_merged_slot A P opt_fn none_fn i m = (ro, m')"
  obtains (gone) "mg_pollers m ! i = None" "ro = None" "m' = m"
  | (asleep) p where "mg_pollers m ! i = Some p" "\<not> fw_awoken (mg_wakers m) ! i" "ro = None"
      "m' = m\<lparr>mg_wakers := snd (FlagWaker_check_awoken i (mg_wakers m))\<rparr>"
  | (waiting) p p' s2 where "mg_pollers m ! i = Some p" "fw_awoken (mg_wakers m) ! i" "ro = None"
      "poll_inner A P i p (snd (FlagWaker_check_awoken i (mg_wakers m))) = (Pending, p', s2)"
      "m' = m\<lparr>mg_pollers := (mg_pollers m)[i := Some p'], mg_wakers := s2\<rparr>"
  | (ready) p p' s2 out where "mg_pollers m ! i = Some p" "fw_awoken (mg_wakers m) ! i"
      "opt_fn out = ro"
      "poll_inner A P i p (snd (FlagWaker_check_awoken i (mg_wakers m))) = (Ready out, p', s2)"
      "m' = m\<lparr>mg_pollers := (mg_pollers m)[i := if none_fn out then None else Some p'],
         mg_wakers := if opt_fn out = None then s2 else FlagWaker_set_awoken i s2,
         mg_none_count := mg_none_count m + (if none_fn out then 1 else 0)\<rparr>"
proof (cases "mg_pollers m ! i")
  case None
  with assms show thesis by (intro gone) (simp_all add: poll_merged_slot_eq)
next
  case (Some p)
  obtain r p' s2
    where p: "poll_inner A P i p (snd (FlagWaker_check_awoken i (mg_wakers m))) = (r, p', s2)"
    by (metis prod_cases3)
  show thesis
  proof (cases "fw_awoken (mg_wakers m) ! i")
    case False
    with assms Some show thesis
      by (intro asleep [OF Some False]) (simp_all add: poll_merged_slot_eq)
  next
    case True
    show thesis
    proof (cases r)
      case Pending
      have "(ro, m') = (None, m\<lparr>mg_pollers := (mg_pollers m)[i := Some p'], mg_wakers := s2\<rparr>)"
        using assms True by (simp only: poll_merged_slot_eq Some p Pending option.case if_True
            prod.case poll.case)
      then show thesis using p Pending
        by (intro waiting [OF Some True, of p' s2]) (simp_all only: prod.inject)
    next
      case (Ready out)
      have "(ro, m') = (opt_fn out,
          m\<lparr>mg_pollers := (mg_pollers m)[i := if none_fn out then None else Some p'],
            mg_wakers := if opt_fn out = None then s2 else FlagWaker_set_awoken i s2,
            mg_none_count := mg_none_count m + (if none_fn out then 1 else 0)\<rparr>)"
        using assms True by (simp only: poll_merged_slot_eq Some p Ready option.case if_True
            prod.case poll.case)
      then show thesis using p Ready
        by (intro ready [OF Some True, of out p' s2]) (simp_all only: prod.inject)
    qed
  qed
qed

definition waits :: "('p, 'x, 'r) inner_poll \<Rightarrow> nat \<Rightarrow> 'p \<Rightarrow> 'p \<Rightarrow> bool" where
  "waits P i p p' \<longleftrightarrow> (\<exists>x acts x'. P i p x = (acts, p', x', Pending))"

lemma poll_inner_waits: "poll_inner A P i p s = (Pending, p', s') \<Longrightarrow> waits P i p p'"
  by (auto simp: poll_inner_def waits_def Let_def split: prod.splits)

lemma FlagWaker_wake_keep:
  "fw_awoken s ! k \<Longrightarrow> k < length (fw_awoken s) \<Longrightarrow> fw_awoken (FlagWaker_wake A i s) ! k"
  by (cases "k = i") (simp_all add: FlagWaker_wake_def FlagWaker_set_awoken_def Let_def)

lemma FlagWaker_wakes_keep:
  "fw_awoken s ! k \<Longrightarrow> k < length (fw_awoken s) \<Longrightarrow> fw_awoken (fold (FlagWaker_wake A) acts s) ! k"
  by (induction acts arbitrary: s) (simp_all add: FlagWaker_wake_keep)

lemma poll_inner_keep:
  "poll_inner A P i f (snd (FlagWaker_check_awoken i s)) = (r, f', s') \<Longrightarrow> k \<noteq> i \<Longrightarrow>
   fw_awoken s ! k \<Longrightarrow> k < length (fw_awoken s) \<Longrightarrow> fw_awoken s' ! k"
  by (auto simp: poll_inner_def FlagWaker_check_awoken_def Let_def split: prod.splits
      intro!: FlagWaker_wakes_keep)

lemma slot_lengths:
  "poll_merged_slot A P opt_fn none_fn i m = (ro, m') \<Longrightarrow>
   length (mg_pollers m') = length (mg_pollers m) \<and> mg_idx m' = mg_idx m \<and>
   length (fw_awoken (mg_wakers m')) = length (fw_awoken (mg_wakers m))"
  by (erule poll_merged_slot_cases) (auto dest: poll_inner_length)

lemma slot_other:
  "poll_merged_slot A P opt_fn none_fn i m = (ro, m') \<Longrightarrow> k \<noteq> i \<Longrightarrow>
   mg_pollers m' ! k = mg_pollers m ! k"
  by (erule poll_merged_slot_cases) auto

lemma filter_None_update:
  "i < length xs \<Longrightarrow> xs ! i = Some p \<Longrightarrow>
   length (filter (\<lambda>p. p = None) (xs[i := y])) =
     length (filter (\<lambda>p. p = None) xs) + (if y = None then 1 else 0)"
  by (induction xs arbitrary: i) (auto simp: nth_Cons split: nat.splits)

lemma slot_ok:
  "poll_merged_slot A P opt_fn none_fn i m = (ro, m') \<Longrightarrow> merged_ok m \<Longrightarrow> i < length (mg_pollers m) \<Longrightarrow>
   merged_ok m'"
  by (erule poll_merged_slot_cases)
    (auto simp: merged_ok_def filter_None_update FlagWaker_set_awoken_def dest!: poll_inner_length)

lemma slot_heard:
  "aw_laws A \<Longrightarrow> poll_merged_slot A P opt_fn none_fn i m = (None, m') \<Longrightarrow>
   flags_heard A cx l S (mg_wakers m) \<Longrightarrow>
   flags_heard A cx l (if mg_pollers m ! i \<noteq> None then Set.insert i S else S) (mg_wakers m')"
  by (erule poll_merged_slot_cases)
    (auto simp del: check_awoken_asleep intro: flags_heard_check
      dest: poll_inner_heard [OF _ flags_heard_check])

section \<open>The contract of the closures\<close>

text \<open>
  What \<open>poll_merged\<close> needs of \<open>opt_fn\<close> and \<open>none_fn\<close>: an output that is not a value ends
  its poller. Otherwise a poller that is ready, and so holds no waker, would be left behind.
\<close>

locale merge_closures =
  fixes opt_fn :: "'u \<Rightarrow> 't option" and none_fn :: "'u \<Rightarrow> bool"
  assumes value_or_end: "opt_fn u = None \<Longrightarrow> none_fn u"
begin

lemma slot_settled:
  assumes "poll_merged_slot A P opt_fn none_fn i m = (None, m')" "i < length (mg_pollers m)"
    "mg_pollers m' ! i = Some p'"
  shows "\<exists>p. mg_pollers m ! i = Some p \<and>
    (if fw_awoken (mg_wakers m) ! i then waits P i p p' else p' = p)"
  using assms by (elim poll_merged_slot_cases) (auto dest: poll_inner_waits simp: value_or_end)

lemma slot_flag:
  assumes "poll_merged_slot A P opt_fn none_fn i m = (None, m')" "k \<noteq> i"
    "fw_awoken (mg_wakers m) ! k" "k < length (fw_awoken (mg_wakers m))"
  shows "fw_awoken (mg_wakers m') ! k"
  using assms by (elim poll_merged_slot_cases)
    (auto dest: poll_inner_keep)

text \<open>When the loop ends with \<open>Pending\<close>, each poller that is left had its turn.\<close>

lemma loop_settled:
  "poll_merged_loop A P opt_fn none_fn is m = (Pending, m') \<Longrightarrow> distinct is \<Longrightarrow>
   \<forall>i \<in> set is. i < length (mg_pollers m) \<Longrightarrow>
   length (fw_awoken (mg_wakers m)) = length (mg_pollers m) \<Longrightarrow>
   k < length (mg_pollers m) \<Longrightarrow> mg_pollers m' ! k = Some p' \<Longrightarrow>
   \<exists>p. mg_pollers m ! k = Some p \<and>
     (p' = p \<or> waits P k p p') \<and>
     (k \<in> set is \<and> fw_awoken (mg_wakers m) ! k \<longrightarrow> waits P k p p') \<and>
     (k \<notin> set is \<longrightarrow> p' = p)"
proof (induction "is" arbitrary: m)
  case (Cons i "is")
  obtain m1 where 1: "poll_merged_slot A P opt_fn none_fn i m = (None, m1)"
    using Cons.prems(1) by (auto split: prod.splits option.splits)
  define m2 where "m2 = m1\<lparr>mg_idx := (mg_idx m1 + 1) mod length (mg_pollers m1)\<rparr>"
  have 2: "poll_merged_loop A P opt_fn none_fn is m2 = (Pending, m')"
    using Cons.prems(1) 1 by (auto simp: Let_def m2_def split: if_splits)
  have len: "length (mg_pollers m2) = length (mg_pollers m)"
    "length (fw_awoken (mg_wakers m2)) = length (fw_awoken (mg_wakers m))"
    using slot_lengths [OF 1] by (simp_all add: m2_def)
  have "\<forall>i \<in> set is. i < length (mg_pollers m2)" using Cons.prems(3) len by simp
  then obtain p1 where IH: "mg_pollers m2 ! k = Some p1" "p' = p1 \<or> waits P k p1 p'"
      "k \<in> set is \<and> fw_awoken (mg_wakers m2) ! k \<longrightarrow> waits P k p1 p'" "k \<notin> set is \<longrightarrow> p' = p1"
    using Cons.IH [OF 2] Cons.prems len by auto
  show ?case
  proof (cases "k = i")
    case True
    have "mg_pollers m1 ! i = Some p1" using IH(1) True by (simp add: m2_def)
    then obtain p where "mg_pollers m ! i = Some p"
        "if fw_awoken (mg_wakers m) ! i then waits P i p p1 else p1 = p"
      using slot_settled [OF 1] Cons.prems(3) by auto
    moreover have "p' = p1" using IH(4) True Cons.prems(2) by simp
    ultimately show ?thesis using True by (auto split: if_splits)
  next
    case False
    have "mg_pollers m ! k = Some p1" using slot_other [OF 1 False] IH(1) by (simp add: m2_def)
    moreover have "fw_awoken (mg_wakers m) ! k \<Longrightarrow> fw_awoken (mg_wakers m2) ! k"
      using slot_flag [OF 1 False] Cons.prems by (simp add: m2_def)
    ultimately show ?thesis using IH False by auto
  qed
qed simp

end

text \<open>The closures of \<open>MergeFutureStream\<close>: every output is a value and ends its poller.\<close>

locale once_closures =
  fixes opt_fn :: "'u \<Rightarrow> 't option" and none_fn :: "'u \<Rightarrow> bool"
  assumes ends: "none_fn u" and valued: "opt_fn u \<noteq> None"
begin

lemma slot_count:
  "poll_merged_slot A P opt_fn none_fn i m = (ro, m') \<Longrightarrow>
   mg_none_count m' = mg_none_count m + (if ro = None then 0 else 1)"
  by (elim poll_merged_slot_cases) (auto simp: ends valued valued [THEN not_None_eq [THEN iffD1]])

lemma loop_count:
  "poll_merged_loop A P opt_fn none_fn is m = (r, m') \<Longrightarrow>
   mg_none_count m' = mg_none_count m + (if r = Pending \<or> r = Ready None then 0 else 1)"
proof (induction "is" arbitrary: m)
  case (Cons i "is")
  obtain ro m1 where 1: "poll_merged_slot A P opt_fn none_fn i m = (ro, m1)" by fastforce
  then show ?case
    using Cons slot_count [OF 1] by (cases ro) (auto simp: Let_def split: if_splits)
qed auto

end

sublocale once_closures \<subseteq> merge_closures
  by unfold_locales (simp add: ends)

interpretation futs: once_closures "\<lambda>x. Some x" "\<lambda>_. True"
  by unfold_locales simp_all

interpretation streams: merge_closures "\<lambda>u. u" "\<lambda>u. u = None"
  by unfold_locales simp

section \<open>The whole loop\<close>

primrec rot :: "nat \<Rightarrow> nat \<Rightarrow> nat \<Rightarrow> nat list" where
  "rot len i 0 = []"
| "rot len i (Suc n) = i # rot len ((i + 1) mod len) n"

lemma rot_upt: "i + n \<le> len \<Longrightarrow> n < len \<or> i = 0 \<Longrightarrow> rot len i n = [i..<i + n]"
proof (induction n arbitrary: i)
  case (Suc n)
  show ?case
  proof (cases "n = 0")
    case False
    then have "rot len (Suc i) n = [Suc i..<Suc i + n]" using Suc by (intro Suc.IH) auto
    then show ?thesis using Suc.prems False by (simp add: upt_conv_Cons)
  qed simp
qed simp

lemma rot_add: "i + n < len \<or> i < len \<Longrightarrow> rot len i (n + k) = rot len i n @ rot len ((i + n) mod len) k"
proof (induction n arbitrary: i)
  case (Suc n)
  then have "rot len (Suc i mod len) (n + k) =
      rot len (Suc i mod len) n @ rot len ((Suc i mod len + n) mod len) k"
    by (intro Suc.IH) auto
  then show ?case by (simp add: mod_simps)
qed simp

text \<open>The chain of the two halves visits every slot once, starting at \<open>idx\<close>.\<close>

lemma rot_chain: "idx < len \<Longrightarrow> [idx..<len] @ [0..<idx] = rot len idx len"
  using rot_add [of idx "len - idx" len idx] rot_upt [of 0 idx len] rot_upt [of idx "len - idx" len]
  by (cases "idx = 0") (auto simp: rot_upt)

lemma loop_ok:
  "poll_merged_loop A P opt_fn none_fn is m = (r, m') \<Longrightarrow> merged_ok m \<Longrightarrow>
   \<forall>i \<in> set is. i < length (mg_pollers m) \<Longrightarrow>
   merged_ok m' \<and> length (mg_pollers m') = length (mg_pollers m)"
proof (induction "is" arbitrary: m)
  case (Cons i "is")
  obtain ro m1 where 1: "poll_merged_slot A P opt_fn none_fn i m = (ro, m1)" by fastforce
  have ok: "merged_ok m1" using slot_ok [OF 1] Cons.prems by simp
  have len: "length (mg_pollers m1) = length (mg_pollers m)" using slot_lengths [OF 1] by simp
  let ?m2 = "m1\<lparr>mg_idx := (mg_idx m1 + 1) mod length (mg_pollers m1)\<rparr>"
  have "merged_ok ?m2" using ok by (auto simp: merged_ok_def intro: mod_less_divisor)
  then show ?case using Cons.prems Cons.IH [of ?m2] 1 ok len
    by (cases ro) (auto simp: Let_def split: if_splits)
qed auto

lemma loop_None:
  "poll_merged_loop A P opt_fn none_fn is m = (r, m') \<Longrightarrow> is \<noteq> [] \<Longrightarrow> r = Pending \<or> r = Ready None \<Longrightarrow>
   r = Ready None \<longleftrightarrow> mg_none_count m' = length (mg_pollers m')"
proof (induction "is" arbitrary: m)
  case (Cons i "is")
  obtain ro m1 where 1: "poll_merged_slot A P opt_fn none_fn i m = (ro, m1)" by fastforce
  show ?case
  proof (cases "is")
    case Nil
    then show ?thesis using Cons.prems 1 by (cases ro) (auto simp: Let_def split: if_splits)
  next
    case (Cons a list)
    then show ?thesis using Cons.prems Cons.IH 1
      by (cases ro) (auto simp: Let_def split: if_splits simp del: poll_merged_loop.simps(2)
          simp: poll_merged_loop.simps(2) [of A P opt_fn none_fn i])
  qed
qed auto

lemma loop_yield:
  "poll_merged_loop A P opt_fn none_fn is m = (Ready (Some v), m') \<Longrightarrow>
   is = rot (length (mg_pollers m)) (mg_idx m) k \<Longrightarrow> distinct is \<Longrightarrow>
   \<forall>i \<in> set is. i < length (mg_pollers m) \<Longrightarrow>
   length (fw_awoken (mg_wakers m)) = length (mg_pollers m) \<Longrightarrow>
   \<exists>p out. mg_idx m' \<in> set is \<and> mg_pollers m ! mg_idx m' = Some p \<and> yields P (mg_idx m') p out
     \<and> opt_fn out = Some v \<and> fw_awoken (mg_wakers m') ! mg_idx m'
     \<and> (mg_pollers m' ! mg_idx m' = None \<longleftrightarrow> none_fn out)"
proof (induction "is" arbitrary: m k)
  case (Cons i "is")
  obtain k' where k: "k = Suc k'" using Cons.prems(2) by (cases k) auto
  have i: "i = mg_idx m" "is = rot (length (mg_pollers m)) ((mg_idx m + 1) mod length (mg_pollers m)) k'"
    using Cons.prems(2) k by simp_all
  obtain ro m1 where 1: "poll_merged_slot A P opt_fn none_fn i m = (ro, m1)" by fastforce
  define m2 where "m2 = m1\<lparr>mg_idx := (mg_idx m1 + 1) mod length (mg_pollers m1)\<rparr>"
  show ?case
  proof (cases ro)
    case (Some w)
    then have eq: "w = v" "m1 = m'" using Cons.prems(1) 1 by simp_all
    show ?thesis using 1 unfolding eq Some
    proof (cases rule: poll_merged_slot_cases)
      case (ready p p' s2 out)
      then show ?thesis using i Cons.prems(4,5) poll_inner_yields [OF ready(4)]
          poll_inner_length [OF ready(4)]
        by (intro exI [of _ p] exI [of _ out]) (auto simp: FlagWaker_set_awoken_def)
    qed auto
  next
    case None
    have 2: "poll_merged_loop A P opt_fn none_fn is m2 = (Ready (Some v), m')"
      using Cons.prems(1) 1 None by (auto simp: Let_def m2_def split: if_splits)
    have len: "length (mg_pollers m2) = length (mg_pollers m)" "length (mg_pollers m1) = length (mg_pollers m)"
      "mg_idx m1 = mg_idx m" "length (fw_awoken (mg_wakers m2)) = length (fw_awoken (mg_wakers m))"
      using slot_lengths [OF 1] by (simp_all add: m2_def)
    have rot: "is = rot (length (mg_pollers m2)) (mg_idx m2) k'" using i len by (simp add: m2_def)
    have "\<forall>i \<in> set is. i < length (mg_pollers m2)" using Cons.prems(4) len by simp
    from Cons.IH [OF 2 rot _ this] Cons.prems(3,5) len obtain p out
      where IH: "mg_idx m' \<in> set is" "mg_pollers m2 ! mg_idx m' = Some p"
        "yields P (mg_idx m') p out" "opt_fn out = Some v" "fw_awoken (mg_wakers m') ! mg_idx m'"
        "mg_pollers m' ! mg_idx m' = None \<longleftrightarrow> none_fn out" by auto
    moreover have "mg_idx m' \<noteq> i" using IH(1) Cons.prems(3) by auto
    then have "mg_pollers m ! mg_idx m' = Some p"
      using IH(2) slot_other [OF 1] by (simp add: m2_def)
    ultimately show ?thesis by auto
  qed
qed auto

lemma loop_heard:
  "aw_laws A \<Longrightarrow> poll_merged_loop A P opt_fn none_fn is m = (Pending, m') \<Longrightarrow> distinct is \<Longrightarrow>
   flags_heard A cx l S (mg_wakers m) \<Longrightarrow>
   flags_heard A cx l (S \<union> {i \<in> set is. mg_pollers m ! i \<noteq> None}) (mg_wakers m')"
proof (induction "is" arbitrary: m S)
  case (Cons i "is")
  obtain m1 where 1: "poll_merged_slot A P opt_fn none_fn i m = (None, m1)"
    using Cons.prems(2) by (auto split: prod.splits option.splits)
  define m2 where "m2 = m1\<lparr>mg_idx := (mg_idx m1 + 1) mod length (mg_pollers m1)\<rparr>"
  have 2: "poll_merged_loop A P opt_fn none_fn is m2 = (Pending, m')"
    using Cons.prems(2) 1 by (auto simp: Let_def m2_def split: if_splits)
  let ?S = "if mg_pollers m ! i \<noteq> None then Set.insert i S else S"
  have "flags_heard A cx l ?S (mg_wakers m2)"
    using slot_heard [OF Cons.prems(1) 1 Cons.prems(4)] by (simp add: m2_def)
  then have "flags_heard A cx l (?S \<union> {k \<in> set is. mg_pollers m2 ! k \<noteq> None}) (mg_wakers m')"
    using Cons.IH [OF Cons.prems(1) 2] Cons.prems(3) by simp
  moreover have "{k \<in> set is. mg_pollers m2 ! k \<noteq> None} = {k \<in> set is. mg_pollers m ! k \<noteq> None}"
    using Cons.prems(3) slot_other [OF 1] by (auto simp: m2_def) (metis option.distinct(1))+
  ultimately show ?case by (elim flags_heard_mono) auto
qed auto

lemma live_none: "merged_ok m \<Longrightarrow> live m + mg_none_count m = length (mg_pollers m)"
  using sum_length_filter_compl [of "\<lambda>p. p = None" "mg_pollers m"] by (simp add: merged_ok_def live_def)

lemma set_rot: "idx < len \<Longrightarrow> set (rot len idx len) = {..<len}"
  by (subst rot_chain [symmetric]) auto

lemma distinct_rot: "idx < len \<Longrightarrow> distinct (rot len idx len)"
  by (subst rot_chain [symmetric]) auto

text \<open>In a well-formed state \<open>poll_merged\<close> is the loop over all slots from \<open>idx\<close> on.\<close>

lemma poll_merged_loopD:
  assumes "poll_merged A P opt_fn none_fn (merged_register A cx m) = (r, m')" "merged_ok m"
  obtains r' where "r = Ok r'"
    "poll_merged_loop A P opt_fn none_fn (rot (length (mg_pollers m)) (mg_idx m) (length (mg_pollers m)))
       (merged_register A cx m) = (r', m')"
    "merged_ok m'" "length (mg_pollers m') = length (mg_pollers m)"
proof -
  let ?m = "merged_register A cx m" and ?is = "rot (length (mg_pollers m)) (mg_idx m) (length (mg_pollers m))"
  have m: "merged_ok ?m" "mg_pollers ?m = mg_pollers m" "mg_idx m < length (mg_pollers m)"
    using assms(2) by (simp_all add: merged_register_def merged_ok_def)
  obtain r' m1 where 1: "poll_merged_loop A P opt_fn none_fn ?is ?m = (r', m1)" by fastforce
  have "poll_merged A P opt_fn none_fn ?m = (Ok r', m1)"
    using 1 rot_chain [OF m(3)] assms(2)
    by (simp add: poll_merged_def Let_def merged_register_def merged_ok_def)
  moreover have "merged_ok m1 \<and> length (mg_pollers m1) = length (mg_pollers ?m)"
    by (rule loop_ok [OF 1 m(1)]) (use m set_rot in auto)
  ultimately show thesis using that 1 assms(1) m(2) by auto
qed

lemma live_0: "live m = 0 \<longleftrightarrow> (\<forall>p \<in> set (mg_pollers m). p = None)"
  by (auto simp: live_def filter_empty_conv)

lemma merged_register_simps [simp]:
  "mg_pollers (merged_register A cx m) = mg_pollers m" "mg_idx (merged_register A cx m) = mg_idx m"
  "mg_none_count (merged_register A cx m) = mg_none_count m"
  "fw_awoken (mg_wakers (merged_register A cx m)) = fw_awoken (mg_wakers m)"
  "live (merged_register A cx m) = live m"
  "merged_ok (merged_register A cx m) = merged_ok m"
  by (simp_all add: merged_register_def live_def merged_ok_def)

lemma merged_new_ok [simp]: "ps \<noteq> [] \<Longrightarrow> merged_ok (merged_new A x ps)"
  by (auto simp: merged_new_def merged_ok_def FlagWaker_waker_pairs_def filter_empty_conv)

lemma merge_macros_ok:
  "es \<noteq> [] \<Longrightarrow> merged_ok (merge_futures_macro A es x)" "es \<noteq> [] \<Longrightarrow> merged_ok (merge_streams_macro A es x)"
  using eval_args_length [of es x]
  by (auto simp: merge_futures_macro_def merge_streams_macro_def MergeFutureStream_new_def MergeStream_new_def
      case_prod_unfold Let_def intro!: merged_new_ok)

lemma loop_yield_all:
  assumes "poll_merged_loop A P opt_fn none_fn (rot (length (mg_pollers m)) (mg_idx m) (length (mg_pollers m)))
       (merged_register A cx m) = (Ready (Some v), m')" "merged_ok m"
  shows "\<exists>p out. mg_idx m' < length (mg_pollers m) \<and> mg_pollers m ! mg_idx m' = Some p
     \<and> yields P (mg_idx m') p out \<and> opt_fn out = Some v \<and> fw_awoken (mg_wakers m') ! mg_idx m'
     \<and> (mg_pollers m' ! mg_idx m' = None \<longleftrightarrow> none_fn out)"
  using loop_yield [OF assms(1), of "length (mg_pollers m)"] assms(2) distinct_rot set_rot
  by (simp add: merged_ok_def)

text \<open>What a \<open>Pending\<close> result of \<open>poll_merged\<close> leaves behind, for both streams.\<close>

definition merge_pending_ok ::
  "('a, 'o) atomic_waker \<Rightarrow> ('p, 'x, 'u) inner_poll \<Rightarrow> 'o \<Rightarrow> ('p, 'a, 'o, 'x) merged \<Rightarrow>
     ('p, 'a, 'o, 'x) merged \<Rightarrow> bool" where
  "merge_pending_ok A P cx m m' \<longleftrightarrow>
     cx_state A cx (base_log (fw_base (mg_wakers m))) (fw_base (mg_wakers m'))
     \<and> live m' > 0
     \<and> (\<forall>k < length (mg_pollers m). \<forall>p'. mg_pollers m' ! k = Some p' \<longrightarrow>
          (fw_awoken (mg_wakers m') ! k \<longrightarrow>
             base_log (fw_base (mg_wakers m')) = base_log (fw_base (mg_wakers m)) @ [cx])
          \<and> (\<exists>p. mg_pollers m ! k = Some p \<and>
               (if fw_awoken (mg_wakers m) ! k then waits P k p p' else p' = p \<or> waits P k p p')))"

context merge_closures begin

lemma pending_ok:
  assumes "aw_laws A" "merged_ok m"
    "poll_merged A P opt_fn none_fn (merged_register A cx m) = (Ok Pending, m')"
  shows "merge_pending_ok A P cx m m'"
proof -
  let ?len = "length (mg_pollers m)"
  obtain loop: "poll_merged_loop A P opt_fn none_fn (rot ?len (mg_idx m) ?len) (merged_register A cx m)
       = (Pending, m')" and ok: "merged_ok m'" "length (mg_pollers m') = ?len"
    using poll_merged_loopD [OF assms(3,2)] by auto
  have idx: "mg_idx m < ?len" using assms(2) by (simp add: merged_ok_def)
  note rot = distinct_rot [OF idx] set_rot [OF idx]
  have "flags_heard A cx (base_log (fw_base (mg_wakers m))) {} (mg_wakers (merged_register A cx m))"
    using flags_heard_start [OF assms(1)] by (simp add: merged_register_def)
  from loop_heard [OF assms(1) loop rot(1) this]
  have heard: "flags_heard A cx (base_log (fw_base (mg_wakers m)))
      {i. i < ?len \<and> mg_pollers m ! i \<noteq> None} (mg_wakers m')"
    using rot(2) by (elim flags_heard_mono) auto
  have settled: "\<exists>p. mg_pollers m ! k = Some p \<and>
      (p' = p \<or> waits P k p p') \<and> (fw_awoken (mg_wakers m) ! k \<longrightarrow> waits P k p p')"
    if "k < ?len" "mg_pollers m' ! k = Some p'" for k p'
    using loop_settled [OF loop rot(1)] rot(2) that assms(2) by (auto simp: merged_ok_def)
  have "rot ?len (mg_idx m) ?len \<noteq> []" using rot(2) idx by force
  then have "live m' > 0"
    using loop_None [OF loop] live_none [OF ok(1)] by (cases "live m' = 0") auto
  then show ?thesis unfolding merge_pending_ok_def
    using heard settled ok by (fastforce simp: flags_heard_def merged_ok_def dest: cx_called_log)
qed

end

section \<open>Properties of the merged streams\<close>

text \<open>
  C28: A poll of a \<open>MergeFutureStream\<close> never panics and keeps its invariant. It ends the
  stream exactly when no future is left. Otherwise it yields the output of one future,
  which is then gone, so that every future is yielded once and \<open>live\<close> counts the values
  still to come, and \<open>idx\<close> stays at its slot; or it is pending and no future has ended.
\<close>

theorem merge_futures_poll:
  assumes "merged_ok m" "MergeFutureStream_poll_next A P cx m = (r, m')"
  shows "merged_ok m' \<and>
    (case r of
       Ok (Ready None) \<Rightarrow> live m = 0 \<and> live m' = 0
     | Ok (Ready (Some v)) \<Rightarrow> live m = Suc (live m') \<and>
         (\<exists>p. mg_pollers m ! mg_idx m' = Some p \<and> yields P (mg_idx m') p v)
         \<and> mg_pollers m' ! mg_idx m' = None
     | Ok Pending \<Rightarrow> live m > 0 \<and> live m' = live m
     | _ \<Rightarrow> False)"
proof -
  let ?len = "length (mg_pollers m)"
  obtain r' where r: "r = Ok r'" and loop: "poll_merged_loop A P (\<lambda>x. Some x) (\<lambda>_. True)
      (rot ?len (mg_idx m) ?len) (merged_register A cx m) = (r', m')"
    and ok: "merged_ok m'" "length (mg_pollers m') = ?len"
    using poll_merged_loopD assms unfolding MergeFutureStream_poll_next_def by metis
  have idx: "mg_idx m < ?len" using assms(1) by (simp add: merged_ok_def)
  then have ne: "rot ?len (mg_idx m) ?len \<noteq> []" using set_rot [OF idx] by force
  note cnt = futs.loop_count [OF loop] live_none [OF ok(1)] live_none [OF assms(1)] ok(2)
  show ?thesis
  proof (cases r')
    case Pending
    then show ?thesis using r ok(1) cnt loop_None [OF loop ne] by auto
  next
    case (Ready o')
    show ?thesis
    proof (cases o')
      case None
      then show ?thesis using r ok(1) cnt loop_None [OF loop ne] Ready by auto
    next
      case (Some v)
      then show ?thesis using r ok(1) cnt Ready loop_yield_all [of A P _ _ m cx v m'] loop assms(1)
        by fastforce
    qed
  qed
qed

text \<open>Two futures that return 7 and 9 when polled.\<close>

definition two_ready :: "(nat, unit, nat) inner_poll" where
  "two_ready i f x = ([], f, (), Ready (if i = 0 then 7 else 9))"

definition two_merged :: "(nat, nat option, nat, unit) merged" where
  "two_merged = MergeFutureStream_new cell_waker () [0, 0]"

lemmas merge_eval = merged_new_def MergeFutureStream_new_def MergeStream_new_def
  MergeFutureStream_poll_next_def MergeStream_poll_next_def poll_merged_def poll_merged_slot_def
  merged_register_def FlagWaker_check_awoken_def FlagWaker_waker_pairs_def FlagWaker_wake_def
  FlagWaker_set_awoken_def poll_inner_def base_register_def base_wake_def cell_waker_def Let_def
  numeral_2_eq_2 upt_rec

theorem merge_futures_poll_witness:
  "fst (MergeFutureStream_poll_next cell_waker two_ready 3 two_merged) = Ok (Ready (Some 7)) \<and>
   live two_merged = Suc (live (snd (MergeFutureStream_poll_next cell_waker two_ready 3 two_merged)))"
proof -
  have 1: "merged_ok two_merged" by (simp add: two_merged_def MergeFutureStream_new_def)
  have 2: "fst (MergeFutureStream_poll_next cell_waker two_ready 3 two_merged) = Ok (Ready (Some 7))"
    by (simp add: two_merged_def two_ready_def merge_eval)
  then have "MergeFutureStream_poll_next cell_waker two_ready 3 two_merged =
      (Ok (Ready (Some 7)), snd (MergeFutureStream_poll_next cell_waker two_ready 3 two_merged))"
    by (metis prod.collapse)
  then show ?thesis using merge_futures_poll [OF 1] 2 by fastforce
qed

text \<open>
  C29: A poll of a \<open>MergeStream\<close> never panics and keeps its invariant. It ends the stream
  exactly when every inner stream has ended. A value it yields is the next item of the
  inner stream at \<open>idx\<close>, which stays live with its flag set, so that the next poll starts
  with it.
\<close>

theorem merge_streams_poll:
  assumes "merged_ok m" "MergeStream_poll_next A P cx m = (r, m')"
  shows "merged_ok m' \<and>
    (case r of
       Ok (Ready None) \<Rightarrow> live m' = 0
     | Ok (Ready (Some v)) \<Rightarrow> mg_pollers m' ! mg_idx m' \<noteq> None \<and> fw_awoken (mg_wakers m') ! mg_idx m' \<and>
         (\<exists>p. mg_pollers m ! mg_idx m' = Some p \<and> yields P (mg_idx m') p (Some v))
     | Ok Pending \<Rightarrow> live m' > 0
     | _ \<Rightarrow> False)"
proof -
  let ?len = "length (mg_pollers m)"
  obtain r' where r: "r = Ok r'" and loop: "poll_merged_loop A P (\<lambda>u. u) (\<lambda>u. u = None)
      (rot ?len (mg_idx m) ?len) (merged_register A cx m) = (r', m')"
    and ok: "merged_ok m'" "length (mg_pollers m') = ?len"
    using poll_merged_loopD assms unfolding MergeStream_poll_next_def by metis
  have idx: "mg_idx m < ?len" using assms(1) by (simp add: merged_ok_def)
  then have ne: "rot ?len (mg_idx m) ?len \<noteq> []" using set_rot [OF idx] by force
  note cnt = live_none [OF ok(1)] loop_None [OF loop ne]
  show ?thesis
  proof (cases r')
    case Pending
    then show ?thesis using r ok(1) cnt by (cases "live m' = 0") auto
  next
    case (Ready o')
    show ?thesis
    proof (cases o')
      case None
      then show ?thesis using r ok(1) cnt Ready by auto
    next
      case (Some v)
      then show ?thesis using r ok(1) Ready loop_yield_all [of A P _ _ m cx v m'] loop assms(1)
        by fastforce
    qed
  qed
qed

text \<open>Two streams: the first has ended, the second counts down from its state.\<close>

definition countdown :: "(nat, unit, nat option) inner_poll" where
  "countdown i f x = ([], f - 1, (), Ready (if i = 0 \<or> f = 0 then None else Some f))"

theorem merge_streams_poll_witness:
  "fst (MergeStream_poll_next cell_waker countdown (3::nat) (MergeStream_new cell_waker () [0, 5])) =
     Ok (Ready (Some 5)) \<and>
   merged_ok (snd (MergeStream_poll_next cell_waker countdown (3::nat) (MergeStream_new cell_waker () [0, 5])))"
proof -
  let ?m = "MergeStream_new cell_waker () [0::nat, 5] :: (nat, nat option, nat, unit) merged"
  have 1: "merged_ok ?m" by (simp add: MergeStream_new_def)
  have 2: "fst (MergeStream_poll_next cell_waker countdown 3 ?m) = Ok (Ready (Some 5))"
    by (simp add: countdown_def merge_eval)
  have "MergeStream_poll_next cell_waker countdown 3 ?m =
      (Ok (Ready (Some 5)), snd (MergeStream_poll_next cell_waker countdown 3 ?m))"
    using 2 by (metis prod.collapse)
  then show ?thesis using merge_streams_poll [OF 1] 2 by fastforce
qed

text \<open>
  C30: No wakeup is lost by a merged stream. When \<open>MergeStream::poll_next\<close> or
  \<open>MergeFutureStream::poll_next\<close> is pending, the task waker is still registered or has been
  called once, every live poller whose flag was set before has been polled and has itself
  answered \<open>Pending\<close>, and if a live poller's flag is set now, the task waker was called.
\<close>

theorem merge_no_lost_wakeup:
  assumes "aw_laws A" "merged_ok m" "MergeStream_poll_next A P cx m = (Ok Pending, m')"
    "merged_ok n" "MergeFutureStream_poll_next A Q cx n = (Ok Pending, n')"
  shows "merge_pending_ok A P cx m m' \<and> merge_pending_ok A Q cx n n'"
  using streams.pending_ok [OF assms(1,2)] futs.pending_ok [OF assms(1,4)] assms(3,5)
  unfolding MergeStream_poll_next_def MergeFutureStream_poll_next_def by blast

definition never :: "(nat, unit, 'r) inner_poll" where
  "never i f x = ([], f, (), Pending)"

theorem merge_no_lost_wakeup_witness:
  "merge_pending_ok cell_waker (never :: (nat, unit, nat option) inner_poll) 3 two_merged
     (snd (MergeStream_poll_next cell_waker (never :: (nat, unit, nat option) inner_poll) 3 two_merged))"
proof -
  have 1: "merged_ok two_merged" by (simp add: two_merged_def MergeFutureStream_new_def)
  have "fst (MergeStream_poll_next cell_waker (never :: (nat, unit, nat option) inner_poll) 3 two_merged) = Ok Pending"
    "fst (MergeFutureStream_poll_next cell_waker (never :: (nat, unit, nat) inner_poll) 3 two_merged) = Ok Pending"
    by (simp_all add: never_def two_merged_def merge_eval)
  then show ?thesis using merge_no_lost_wakeup [OF cell_waker_laws 1 _ 1] by (metis prod.collapse)
qed

end
