(* ===== verification/Wake_Queue.thy ===== *)
theory Wake_Queue
  imports Externals
begin

text \<open>
  The wake queue of an executor (\<open>WakeQueue\<close> of \<open>src/src/lib.rs\<close>): a queue for wakes on
  the executor's own thread, a concurrent queue for the other threads, and the base waker
  of whoever polls the executor. \<open>drain_for_each\<close> calls back into the executor that holds
  the queue; the locale \<open>queue_holder\<close> is that interface, with a rule for reasoning about
  the drain.
\<close>

section \<open>State and operations\<close>

record ('a, 'o, 'c) wake_queue =
  wq_base :: "('a, 'o) base"
  wq_thread :: thread_id
  wq_local :: "usize list"
  wq_con :: 'c

definition WakeQueue_with_capacity ::
  "('a, 'o) atomic_waker \<Rightarrow> ('c, usize) concurrent_queue \<Rightarrow> thread_id \<Rightarrow> ('a, 'o, 'c) wake_queue" where
  "WakeQueue_with_capacity A C th =
     \<lparr>wq_base = \<lparr>base_cell = aw_new A, base_log = []\<rparr>, wq_thread = th, wq_local = [],
      wq_con = cq_unbounded C\<rparr>"

definition WakeQueue_push ::
  "('c, usize) concurrent_queue \<Rightarrow> thread_id \<Rightarrow> usize \<Rightarrow> ('a, 'o, 'c) wake_queue \<Rightarrow> ('a, 'o, 'c) wake_queue" where
  "WakeQueue_push C th val q =
     (if th = wq_thread q then q\<lparr>wq_local := wq_local q @ [val]\<rparr>
      else q\<lparr>wq_con := cq_push C val (wq_con q)\<rparr>)"

text \<open>
  The two loops of \<open>drain_for_each\<close>. The state \<open>'s\<close> holds the queue; \<open>get\<close> and \<open>put\<close>
  access it. A panic of the callback ends the loop.
\<close>

type_synonym 's callback = "usize \<Rightarrow> 's \<Rightarrow> unit res \<times> 's"

primrec drain_local ::
  "('s \<Rightarrow> ('a, 'o, 'c) wake_queue) \<Rightarrow> (('a, 'o, 'c) wake_queue \<Rightarrow> 's \<Rightarrow> 's) \<Rightarrow> 's callback \<Rightarrow> nat \<Rightarrow> 's \<Rightarrow>
     unit res \<times> 's" where
  "drain_local get put f 0 s = (Ok (), s)"
| "drain_local get put f (Suc n) s =
     (case wq_local (get s) of
        [] \<Rightarrow> (Panic ''called Option::unwrap() on a None value'', s)
      | val # rest \<Rightarrow>
          (case f val (put ((get s)\<lparr>wq_local := rest\<rparr>) s) of
             (Ok _, s1) \<Rightarrow> drain_local get put f n s1
           | (Err e, s1) \<Rightarrow> (Err e, s1)
           | (Panic m, s1) \<Rightarrow> (Panic m, s1)))"

primrec drain_con ::
  "('c, usize) concurrent_queue \<Rightarrow>
   ('s \<Rightarrow> ('a, 'o, 'c) wake_queue) \<Rightarrow> (('a, 'o, 'c) wake_queue \<Rightarrow> 's \<Rightarrow> 's) \<Rightarrow> 's callback \<Rightarrow> nat \<Rightarrow> 's \<Rightarrow>
     unit res \<times> 's" where
  "drain_con C get put f 0 s = (Ok (), s)"
| "drain_con C get put f (Suc n) s =
     (case cq_pop C (wq_con (get s)) of
        (None, c) \<Rightarrow> (Ok (), put ((get s)\<lparr>wq_con := c\<rparr>) s)
      | (Some val, c) \<Rightarrow>
          (case f val (put ((get s)\<lparr>wq_con := c\<rparr>) s) of
             (Ok _, s1) \<Rightarrow> drain_con C get put f n s1
           | (Err e, s1) \<Rightarrow> (Err e, s1)
           | (Panic m, s1) \<Rightarrow> (Panic m, s1)))"

definition WakeQueue_drain_for_each ::
  "('c, usize) concurrent_queue \<Rightarrow>
   ('s \<Rightarrow> ('a, 'o, 'c) wake_queue) \<Rightarrow> (('a, 'o, 'c) wake_queue \<Rightarrow> 's \<Rightarrow> 's) \<Rightarrow> thread_id \<Rightarrow> 's callback \<Rightarrow> 's \<Rightarrow>
     unit res \<times> 's" where
  "WakeQueue_drain_for_each C get put th f s =
     (if th = wq_thread (get s)
      then (let local_len = length (wq_local (get s)); con_len = cq_len C (wq_con (get s))
            in case drain_local get put f local_len s of
                 (Ok _, s1) \<Rightarrow> drain_con C get put f con_len s1
               | (r, s1) \<Rightarrow> (r, s1))
      else (Ok (), s))"

text \<open>\<open>while self.concurrent.pop().is_ok() {}\<close>: the loop runs as long as there are elements.\<close>

primrec pop_all :: "('c, 'v) concurrent_queue \<Rightarrow> nat \<Rightarrow> 'c \<Rightarrow> 'c option" where
  "pop_all C 0 c = None"
| "pop_all C (Suc n) c =
     (case cq_pop C c of (Some _, c') \<Rightarrow> pop_all C n c' | (None, c') \<Rightarrow> Some c')"

text \<open>The fuel, one more than the length of the queue, is enough (\<open>pop_all_Some\<close>).\<close>

definition WakeQueue_reset ::
  "('c, usize) concurrent_queue \<Rightarrow> thread_id \<Rightarrow> usize \<Rightarrow> ('a, 'o, 'c) wake_queue \<Rightarrow> ('a, 'o, 'c) wake_queue option" where
  "WakeQueue_reset C th init_val q =
     (if th = wq_thread q
      then map_option (\<lambda>c. q\<lparr>wq_local := [init_val], wq_con := c\<rparr>)
             (pop_all C (Suc (cq_len C (wq_con q))) (wq_con q))
      else Some q)"

definition wq_items :: "('c, usize) concurrent_queue \<Rightarrow> ('a, 'o, 'c) wake_queue \<Rightarrow> usize list" where
  "wq_items C q = wq_local q @ cq_items C (wq_con q)"

section \<open>Lemmas\<close>

lemma pop_all_Some:
  assumes "cq_laws C" "length (cq_items C c) < n"
  shows "\<exists>c'. pop_all C n c = Some c' \<and> cq_items C c' = []"
  using assms(2)
proof (induction n arbitrary: c)
  case (Suc n)
  obtain v c' where p: "cq_pop C c = (v, c')" by fastforce
  have "v = (case cq_items C c of [] \<Rightarrow> None | v # vs \<Rightarrow> Some v)" "cq_items C c' = tl (cq_items C c)"
    using cq_simps(3,4) [OF assms(1), of c] p by simp_all
  then show ?case using Suc p by (cases "cq_items C c") auto
qed simp

lemma WakeQueue_reset_result:
  assumes "cq_laws C"
  shows "\<exists>q'. WakeQueue_reset C (wq_thread q) v q = Some q' \<and> wq_items C q' = [v]
    \<and> wq_base q' = wq_base q \<and> wq_thread q' = wq_thread q"
  using pop_all_Some [OF assms lessI, of "wq_con q"] cq_simps(5) [OF assms, of "wq_con q"]
  by (auto simp: WakeQueue_reset_def wq_items_def simp del: pop_all.simps)

lemma WakeQueue_push_items:
  assumes "cq_laws C"
  shows "set (wq_items C (WakeQueue_push C th v q)) = Set.insert v (set (wq_items C q))"
  using cq_simps(2) [OF assms] by (auto simp: WakeQueue_push_def wq_items_def)

lemma WakeQueue_push_base [simp]:
  "wq_base (WakeQueue_push C th v q) = wq_base q" "wq_thread (WakeQueue_push C th v q) = wq_thread q"
  by (simp_all add: WakeQueue_push_def)

section \<open>Draining\<close>

text \<open>
  The interface between the queue and its holder: the queue is a field of the holder. The
  rule: an invariant that knows how many elements are left to drain from each queue holds
  at the end if each callback takes it one element further.
\<close>

locale queue_holder =
  fixes get :: "'s \<Rightarrow> ('a, 'o, 'c) wake_queue" and put :: "('a, 'o, 'c) wake_queue \<Rightarrow> 's \<Rightarrow> 's"
  assumes get_put: "get (put q s) = q"
    and put_put: "put q (put q' s) = put q s"
    and put_get: "put (get s) s = s"
begin

lemma drain_local_rule:
  assumes "I n s"
    and "\<And>n s. I (Suc n) s \<Longrightarrow> wq_local (get s) \<noteq> []"
    and "\<And>n s v vs r s'. I (Suc n) s \<Longrightarrow> wq_local (get s) = v # vs \<Longrightarrow>
      f v (put ((get s)\<lparr>wq_local := vs\<rparr>) s) = (r, s') \<Longrightarrow> (if r = Ok () then I n s' else E r s')"
    and "drain_local get put f n s = (r, s')"
  shows "if r = Ok () then I 0 s' else E r s'"
  using assms(1,4)
proof (induction n arbitrary: s)
  case (Suc n)
  obtain v vs where v: "wq_local (get s) = v # vs" using assms(2) [OF Suc.prems(1)]
    by (cases "wq_local (get s)") auto
  obtain r1 s1 where f: "f v (put ((get s)\<lparr>wq_local := vs\<rparr>) s) = (r1, s1)" by fastforce
  note step = assms(3) [OF Suc.prems(1) v f]
  show ?case using step Suc.prems(2) Suc.IH v f by (cases r1) auto
qed auto

lemma drain_con_rule:
  assumes "I n s" "cq_laws C"
    and "\<And>n s v vs c r s'. I (Suc n) s \<Longrightarrow> cq_items C (wq_con (get s)) = v # vs \<Longrightarrow>
      cq_items C c = vs \<Longrightarrow>
      f v (put ((get s)\<lparr>wq_con := c\<rparr>) s) = (r, s') \<Longrightarrow> (if r = Ok () then I n s' else E r s')"
    and "\<And>n s. I (Suc n) s \<Longrightarrow> cq_items C (wq_con (get s)) \<noteq> []"
    and "drain_con C get put f n s = (r, s')"
  shows "if r = Ok () then I 0 s' else E r s'"
  using assms(1,5)
proof (induction n arbitrary: s)
  case (Suc n)
  obtain v vs where v: "cq_items C (wq_con (get s)) = v # vs" using assms(4) [OF Suc.prems(1)]
    by (cases "cq_items C (wq_con (get s))") auto
  then obtain c where c: "cq_pop C (wq_con (get s)) = (Some v, c)" "cq_items C c = vs"
    using cq_simps(3,4) [OF assms(2), of "wq_con (get s)"]
    by (cases "cq_pop C (wq_con (get s))") auto
  obtain r1 s1 where f: "f v (put ((get s)\<lparr>wq_con := c\<rparr>) s) = (r1, s1)" by fastforce
  note step = assms(3) [OF Suc.prems(1) v c(2) f]
  show ?case using step Suc.prems(2) Suc.IH c f by (cases r1) auto
qed auto

lemma drain_rule:
  assumes "cq_laws C" "th = wq_thread (get s)"
    and "I (length (wq_local (get s))) (length (cq_items C (wq_con (get s)))) s"
    and "\<And>n m s. I (Suc n) m s \<Longrightarrow> wq_local (get s) \<noteq> []"
    and "\<And>m s. I 0 (Suc m) s \<Longrightarrow> cq_items C (wq_con (get s)) \<noteq> []"
    and "\<And>n m s v vs r s'. I (Suc n) m s \<Longrightarrow> wq_local (get s) = v # vs \<Longrightarrow>
      f v (put ((get s)\<lparr>wq_local := vs\<rparr>) s) = (r, s') \<Longrightarrow> (if r = Ok () then I n m s' else E r s')"
    and "\<And>m s v vs c r s'. I 0 (Suc m) s \<Longrightarrow> cq_items C (wq_con (get s)) = v # vs \<Longrightarrow>
      cq_items C c = vs \<Longrightarrow>
      f v (put ((get s)\<lparr>wq_con := c\<rparr>) s) = (r, s') \<Longrightarrow> (if r = Ok () then I 0 m s' else E r s')"
    and "WakeQueue_drain_for_each C get put th f s = (r, s')"
  shows "if r = Ok () then I 0 0 s' else E r s'"
proof -
  let ?n = "length (wq_local (get s))" and ?m = "length (cq_items C (wq_con (get s)))"
  have m: "cq_len C (wq_con (get s)) = ?m" by (rule cq_simps(5) [OF assms(1)])
  obtain r1 s1 where l: "drain_local get put f ?n s = (r1, s1)" by fastforce
  have 1: "if r1 = Ok () then I 0 ?m s1 else E r1 s1"
    by (rule drain_local_rule [where I = "\<lambda>n. I n ?m", OF assms(3) _ _ l])
      (use assms(4,6) in blast)+
  show ?thesis
  proof (cases "r1 = Ok ()")
    case True
    then have c: "drain_con C get put f ?m s1 = (r, s')"
      using assms(2,8) l m by (simp add: WakeQueue_drain_for_each_def Let_def)
    have "I 0 ?m s1" using 1 True by simp
    then show ?thesis
      by (rule drain_con_rule [where I = "I 0", OF _ assms(1) _ _ c]) (use assms(5,7) in blast)+
  next
    case False
    then have "(r, s') = (r1, s1)"
      using assms(2,8) l by (cases r1) (simp_all add: WakeQueue_drain_for_each_def Let_def)
    then show ?thesis using 1 False by simp
  qed
qed

end

end
