(* ===== verification/Executor.thy ===== *)
theory Executor
  imports Wake_Queue
begin

text \<open>
  The executor of \<open>src/src/lib.rs\<close>: \<open>TaskWaker\<close>, \<open>Task\<close>, \<open>Executor\<close> and \<open>TaskHandle\<close>.

  What a user future does during one poll is a parameter: a tree of calls into the runtime,
  each with the reply it gets, that ends with the future's next state and its result. The
  shared objects (\<open>Arc<TaskWaker>\<close>, \<open>Rc<HandleData>\<close>, \<open>Rc<RetData>\<close>) are lists indexed by
  their allocation number. The two \<open>RefCell\<close>s are modelled where they matter: \<open>spawned\<close> can
  be borrowed while user code runs, because the borrow in the condition of \<open>while let\<close>
  lasts until the end of the loop's body.
\<close>

section \<open>State\<close>

datatype 'o any_waker = TaskW nat | OtherW 'o

record task_waker =
  tw_awoken :: bool
  tw_task_id :: usize

record handle_data =
  hd_cancelled :: bool
  hd_waker :: "nat option"

record ('v, 'o) ret_data =
  rd_value :: "'v option"
  rd_waker :: "'o any_waker option"

record task_handle =
  th_ret :: nat
  th_handle :: nat

record 'f spawned_task =
  st_fut :: 'f
  st_ret :: nat
  st_handle :: nat

record 'f task =
  tk_fut :: 'f
  tk_ret :: nat
  tk_handle :: nat
  tk_waker :: nat

text \<open>\<open>ex_hist\<close> counts the changes of the slab; \<open>ex_other\<close> logs calls of wakers that are
  not wakers of this executor; \<open>ex_world\<close> is what else the futures use, such as the
  thread's reactor.\<close>

record ('f, 'v, 'a, 'o, 'c, 'x) executor =
  ex_tasks :: "usize \<rightharpoonup> 'f task"
  ex_hist :: nat
  ex_spawned :: "'f spawned_task list"
  ex_borrowed :: bool
  ex_queue :: "('a, 'o, 'c) wake_queue"
  ex_wakers :: "task_waker list"
  ex_handles :: "handle_data list"
  ex_rets :: "('v, 'o) ret_data list"
  ex_other :: "'o list"
  ex_world :: 'x

text \<open>
  The calls a future can make while it is polled: wake a waker on this thread; a wake on
  another thread at this point in time; spawn; the operations of \<open>TaskHandle\<close>; and an
  operation on the world outside the executor, with a number as its result.
\<close>

datatype ('f, 'o, 'x) call =
    Wake "'o any_waker" | RemoteWake thread_id "'o any_waker" | Spawn 'f
  | Cancel task_handle | PollHandle task_handle "'o any_waker"
  | IsFinished task_handle | IsCancelled task_handle | Ext "'x \<Rightarrow> nat \<times> 'x"

datatype 'v reply = RUnit | RHandle task_handle | RPoll "'v poll" | RBool bool | RExt nat

datatype ('f, 'v, 'o, 'x) prog = Yield 'f "'v poll" | Do "('f, 'o, 'x) call" "'v reply \<Rightarrow> ('f, 'v, 'o, 'x) prog"

text \<open>The parameters: \<open>AtomicWaker\<close>, \<open>ConcurrentQueue\<close>, \<open>Slab\<close>, and what a future does
  when it is polled with the task waker of a given number.\<close>

record ('f, 'v, 'a, 'o, 'c, 'x) env =
  en_aw :: "('a, 'o) atomic_waker"
  en_cq :: "('c, usize) concurrent_queue"
  en_slab :: slab_key
  en_poll :: "nat \<Rightarrow> 'f \<Rightarrow> ('f, 'v, 'o, 'x) prog"

definition MAIN_TASK_ID :: usize where
  "MAIN_TASK_ID = - 1"

section \<open>Wakers\<close>

definition TaskWaker_new ::
  "usize \<Rightarrow> ('f, 'v, 'a, 'o, 'c, 'x) executor \<Rightarrow> nat \<times> ('f, 'v, 'a, 'o, 'c, 'x) executor" where
  "TaskWaker_new task_id ex =
     (length (ex_wakers ex),
      ex\<lparr>ex_wakers := ex_wakers ex @ [\<lparr>tw_awoken = False, tw_task_id = task_id\<rparr>]\<rparr>)"

definition TaskWaker_to_sleep ::
  "nat \<Rightarrow> ('f, 'v, 'a, 'o, 'c, 'x) executor \<Rightarrow> ('f, 'v, 'a, 'o, 'c, 'x) executor" where
  "TaskWaker_to_sleep n ex =
     ex\<lparr>ex_wakers := (ex_wakers ex)[n := (ex_wakers ex ! n)\<lparr>tw_awoken := False\<rparr>]\<rparr>"

text \<open>A reference to a waker is a number below the length of the list; a number that is
  not is no waker.\<close>

definition TaskWaker_wake ::
  "('f, 'v, 'a, 'o, 'c, 'x) env \<Rightarrow> thread_id \<Rightarrow> nat \<Rightarrow> ('f, 'v, 'a, 'o, 'c, 'x) executor \<Rightarrow>
     ('f, 'v, 'a, 'o, 'c, 'x) executor" where
  "TaskWaker_wake E th n ex =
     (if n < length (ex_wakers ex) \<and> \<not> tw_awoken (ex_wakers ex ! n)
      then (let ex1 = ex\<lparr>ex_wakers := (ex_wakers ex)[n := (ex_wakers ex ! n)\<lparr>tw_awoken := True\<rparr>]\<rparr>;
                q = WakeQueue_push (en_cq E) th (tw_task_id (ex_wakers ex ! n)) (ex_queue ex1)
            in ex1\<lparr>ex_queue := q\<lparr>wq_base := base_wake (en_aw E) (wq_base q)\<rparr>\<rparr>)
      else ex)"

definition any_wake ::
  "('f, 'v, 'a, 'o, 'c, 'x) env \<Rightarrow> thread_id \<Rightarrow> 'o any_waker \<Rightarrow> ('f, 'v, 'a, 'o, 'c, 'x) executor \<Rightarrow>
     ('f, 'v, 'a, 'o, 'c, 'x) executor" where
  "any_wake E th w ex =
     (case w of TaskW n \<Rightarrow> TaskWaker_wake E th n ex | OtherW u \<Rightarrow> ex\<lparr>ex_other := ex_other ex @ [u]\<rparr>)"

section \<open>Spawning and handles\<close>

definition Executor_spawn ::
  "'f \<Rightarrow> ('f, 'v, 'a, 'o, 'c, 'x) executor \<Rightarrow> task_handle res \<times> ('f, 'v, 'a, 'o, 'c, 'x) executor" where
  "Executor_spawn fut ex =
     (let ret = length (ex_rets ex); h = length (ex_handles ex);
          ex1 = ex\<lparr>ex_rets := ex_rets ex @ [\<lparr>rd_value = None, rd_waker = None\<rparr>],
                   ex_handles := ex_handles ex @ [\<lparr>hd_cancelled = False, hd_waker = None\<rparr>]\<rparr>
      in if ex_borrowed ex1 then (Panic ''RefCell already borrowed'', ex1)
         else (Ok \<lparr>th_ret = ret, th_handle = h\<rparr>,
               ex1\<lparr>ex_spawned := ex_spawned ex1 @ [\<lparr>st_fut = fut, st_ret = ret, st_handle = h\<rparr>]\<rparr>))"

definition TaskHandle_cancel ::
  "('f, 'v, 'a, 'o, 'c, 'x) env \<Rightarrow> thread_id \<Rightarrow> task_handle \<Rightarrow> ('f, 'v, 'a, 'o, 'c, 'x) executor \<Rightarrow>
     ('f, 'v, 'a, 'o, 'c, 'x) executor" where
  "TaskHandle_cancel E th h ex =
     (let d = ex_handles ex ! th_handle h;
          ex1 = ex\<lparr>ex_handles := (ex_handles ex)[th_handle h := \<lparr>hd_cancelled = True, hd_waker = None\<rparr>]\<rparr>
      in case hd_waker d of Some n \<Rightarrow> TaskWaker_wake E th n ex1 | None \<Rightarrow> ex1)"

definition TaskHandle_is_finished :: "task_handle \<Rightarrow> ('f, 'v, 'a, 'o, 'c, 'x) executor \<Rightarrow> bool" where
  "TaskHandle_is_finished h ex \<longleftrightarrow> rd_value (ex_rets ex ! th_ret h) \<noteq> None"

definition TaskHandle_is_cancelled :: "task_handle \<Rightarrow> ('f, 'v, 'a, 'o, 'c, 'x) executor \<Rightarrow> bool" where
  "TaskHandle_is_cancelled h ex \<longleftrightarrow> hd_cancelled (ex_handles ex ! th_handle h)"

definition TaskHandle_poll ::
  "'o any_waker \<Rightarrow> task_handle \<Rightarrow> ('f, 'v, 'a, 'o, 'c, 'x) executor \<Rightarrow>
     'v poll \<times> ('f, 'v, 'a, 'o, 'c, 'x) executor" where
  "TaskHandle_poll w h ex =
     (let i = th_ret h; d = ex_rets ex ! i
      in case rd_value d of
           Some val \<Rightarrow> (Ready val, ex\<lparr>ex_rets := (ex_rets ex)[i := d\<lparr>rd_value := None\<rparr>]\<rparr>)
         | None \<Rightarrow> (Pending, ex\<lparr>ex_rets := (ex_rets ex)[i := d\<lparr>rd_waker := Some w\<rparr>]\<rparr>))"

section \<open>Polling a future\<close>

definition do_call ::
  "('f, 'v, 'a, 'o, 'c, 'x) env \<Rightarrow> thread_id \<Rightarrow> ('f, 'o, 'x) call \<Rightarrow> ('f, 'v, 'a, 'o, 'c, 'x) executor \<Rightarrow>
     'v reply res \<times> ('f, 'v, 'a, 'o, 'c, 'x) executor" where
  "do_call E th c ex =
     (case c of
        Wake w \<Rightarrow> (Ok RUnit, any_wake E th w ex)
      | RemoteWake t w \<Rightarrow> (Ok RUnit, any_wake E t w ex)
      | Spawn f \<Rightarrow> (let (r, ex1) = Executor_spawn f ex in (bind_res r (\<lambda>h. Ok (RHandle h)), ex1))
      | Cancel h \<Rightarrow> (Ok RUnit, TaskHandle_cancel E th h ex)
      | PollHandle h w \<Rightarrow> (let (p, ex1) = TaskHandle_poll w h ex in (Ok (RPoll p), ex1))
      | IsFinished h \<Rightarrow> (Ok (RBool (TaskHandle_is_finished h ex)), ex)
      | IsCancelled h \<Rightarrow> (Ok (RBool (TaskHandle_is_cancelled h ex)), ex)
      | Ext f \<Rightarrow> (let (v, x) = f (ex_world ex) in (Ok (RExt v), ex\<lparr>ex_world := x\<rparr>)))"

primrec run_prog ::
  "('f, 'v, 'a, 'o, 'c, 'x) env \<Rightarrow> thread_id \<Rightarrow> ('f, 'v, 'o, 'x) prog \<Rightarrow> ('f, 'v, 'a, 'o, 'c, 'x) executor \<Rightarrow>
     ('f \<times> 'v poll) res \<times> ('f, 'v, 'a, 'o, 'c, 'x) executor" where
  "run_prog E th (Yield f p) ex = (Ok (f, p), ex)"
| "run_prog E th (Do c k) ex =
     (case do_call E th c ex of
        (Ok r, ex1) \<Rightarrow> run_prog E th (k r) ex1
      | (Err e, ex1) \<Rightarrow> (Err e, ex1)
      | (Panic m, ex1) \<Rightarrow> (Panic m, ex1))"

text \<open>The end of the future that \<open>spawn\<close> wraps around the user's: store the value, and
  wake whoever polled the handle.\<close>

definition deliver ::
  "('f, 'v, 'a, 'o, 'c, 'x) env \<Rightarrow> thread_id \<Rightarrow> nat \<Rightarrow> 'v \<Rightarrow> ('f, 'v, 'a, 'o, 'c, 'x) executor \<Rightarrow>
     ('f, 'v, 'a, 'o, 'c, 'x) executor" where
  "deliver E th ret retval ex =
     (let d = ex_rets ex ! ret;
          ex1 = ex\<lparr>ex_rets := (ex_rets ex)[ret := \<lparr>rd_value = Some retval, rd_waker = None\<rparr>]\<rparr>
      in case rd_waker d of Some w \<Rightarrow> any_wake E th w ex1 | None \<Rightarrow> ex1)"

definition Task_poll ::
  "('f, 'v, 'a, 'o, 'c, 'x) env \<Rightarrow> thread_id \<Rightarrow> 'f task \<Rightarrow> ('f, 'v, 'a, 'o, 'c, 'x) executor \<Rightarrow>
     unit poll res \<times> 'f task \<times> ('f, 'v, 'a, 'o, 'c, 'x) executor" where
  "Task_poll E th t ex =
     (case run_prog E th (en_poll E (tk_waker t) (tk_fut t)) (TaskWaker_to_sleep (tk_waker t) ex) of
        (Ok (f, Pending), ex1) \<Rightarrow> (Ok Pending, t\<lparr>tk_fut := f\<rparr>, ex1)
      | (Ok (f, Ready v), ex1) \<Rightarrow> (Ok (Ready ()), t\<lparr>tk_fut := f\<rparr>, deliver E th (tk_ret t) v ex1)
      | (Err e, ex1) \<Rightarrow> (Err e, t, ex1)
      | (Panic m, ex1) \<Rightarrow> (Panic m, t, ex1))"

definition Task_from_spawned ::
  "'f spawned_task \<Rightarrow> nat \<Rightarrow> ('f, 'v, 'a, 'o, 'c, 'x) executor \<Rightarrow> 'f task \<times> ('f, 'v, 'a, 'o, 'c, 'x) executor" where
  "Task_from_spawned st n ex =
     (let h = st_handle st
      in (\<lparr>tk_fut = st_fut st, tk_ret = st_ret st, tk_handle = h, tk_waker = n\<rparr>,
          ex\<lparr>ex_handles := (ex_handles ex)[h := (ex_handles ex ! h)\<lparr>hd_waker := Some n\<rparr>]\<rparr>))"

section \<open>The executor\<close>

definition Executor_new ::
  "('f, 'v, 'a, 'o, 'c, 'x) env \<Rightarrow> thread_id \<Rightarrow> 'x \<Rightarrow> ('f, 'v, 'a, 'o, 'c, 'x) executor" where
  "Executor_new E th x =
     \<lparr>ex_tasks = Map.empty, ex_hist = 0, ex_spawned = [], ex_borrowed = False,
      ex_queue = WakeQueue_with_capacity (en_aw E) (en_cq E) th,
      ex_wakers = [], ex_handles = [], ex_rets = [], ex_other = [], ex_world = x\<rparr>"

definition Executor_default ::
  "('f, 'v, 'a, 'o, 'c, 'x) env \<Rightarrow> thread_id \<Rightarrow> 'x \<Rightarrow> ('f, 'v, 'a, 'o, 'c, 'x) executor" where
  "Executor_default E th x = Executor_new E th x"

text \<open>
  \<open>spawn_rc\<close>: the function that makes the future runs first, with the executor at hand, as a
  tree of calls like those of a future; the future it ends with is spawned.
\<close>

definition Executor_spawn_rc ::
  "('f, 'v, 'a, 'o, 'c, 'x) env \<Rightarrow> thread_id \<Rightarrow> ('f, 'v, 'o, 'x) prog \<Rightarrow> ('f, 'v, 'a, 'o, 'c, 'x) executor \<Rightarrow>
     task_handle res \<times> ('f, 'v, 'a, 'o, 'c, 'x) executor" where
  "Executor_spawn_rc E th f ex =
     (case run_prog E th f ex of
        (Ok (fut, _), ex1) \<Rightarrow> Executor_spawn fut ex1
      | (Err e, ex1) \<Rightarrow> (Err e, ex1)
      | (Panic m, ex1) \<Rightarrow> (Panic m, ex1))"

definition register_base_waker ::
  "('f, 'v, 'a, 'o, 'c, 'x) env \<Rightarrow> 'o \<Rightarrow> ('f, 'v, 'a, 'o, 'c, 'x) executor \<Rightarrow> ('f, 'v, 'a, 'o, 'c, 'x) executor" where
  "register_base_waker E cx ex =
     ex\<lparr>ex_queue := (ex_queue ex)\<lparr>wq_base := base_register (en_aw E) cx (wq_base (ex_queue ex))\<rparr>\<rparr>"

text \<open>The closure of \<open>poll_tasks\<close>, on the executor and \<open>main_task_awoken\<close>.\<close>

definition poll_task_id ::
  "('f, 'v, 'a, 'o, 'c, 'x) env \<Rightarrow> thread_id \<Rightarrow> (bool \<times> ('f, 'v, 'a, 'o, 'c, 'x) executor) callback" where
  "poll_task_id E th task_id = (\<lambda>(main, ex).
     if task_id = MAIN_TASK_ID then (Ok (), True, ex)
     else (case ex_tasks ex task_id of
             None \<Rightarrow> (Ok (), main, ex)
           | Some t \<Rightarrow>
               if hd_cancelled (ex_handles ex ! tk_handle t)
               then (Ok (), main, ex\<lparr>ex_tasks := (ex_tasks ex)(task_id := None), ex_hist := Suc (ex_hist ex)\<rparr>)
               else (case Task_poll E th t ex of
                       (Ok (Ready _), t', ex1) \<Rightarrow>
                         (Ok (), main, ex1\<lparr>ex_tasks := (ex_tasks ex1)(task_id := None),
                                           ex_hist := Suc (ex_hist ex1)\<rparr>)
                     | (Ok Pending, t', ex1) \<Rightarrow>
                         (Ok (), main, ex1\<lparr>ex_tasks := (ex_tasks ex1)(task_id \<mapsto> t')\<rparr>)
                     | (Err e, t', ex1) \<Rightarrow> (Err e, main, ex1)
                     | (Panic m, t', ex1) \<Rightarrow> (Panic m, main, ex1))))"

definition poll_tasks ::
  "('f, 'v, 'a, 'o, 'c, 'x) env \<Rightarrow> thread_id \<Rightarrow> ('f, 'v, 'a, 'o, 'c, 'x) executor \<Rightarrow>
     bool res \<times> ('f, 'v, 'a, 'o, 'c, 'x) executor" where
  "poll_tasks E th ex =
     (case WakeQueue_drain_for_each (en_cq E) (\<lambda>(main, ex). ex_queue ex)
             (\<lambda>q (main, ex). (main, ex\<lparr>ex_queue := q\<rparr>)) th (poll_task_id E th) (False, ex) of
        (r, main, ex1) \<Rightarrow> (bind_res r (\<lambda>_. Ok main), ex1))"

text \<open>
  The body of the loop of \<open>poll_spawned\<close> for the task that was popped, with \<open>spawned\<close> still
  borrowed.
\<close>

definition poll_spawned_task ::
  "('f, 'v, 'a, 'o, 'c, 'x) env \<Rightarrow> thread_id \<Rightarrow> 'f spawned_task \<Rightarrow> ('f, 'v, 'a, 'o, 'c, 'x) executor \<Rightarrow>
     unit res \<times> ('f, 'v, 'a, 'o, 'c, 'x) executor" where
  "poll_spawned_task E th st ex =
     (if hd_cancelled (ex_handles ex ! st_handle st) then (Ok (), ex)
      else (let task_id = en_slab E (ex_hist ex) (dom (ex_tasks ex))
            in if task_id = MAIN_TASK_ID then (Panic ''assertion failed: task_id != MAIN_TASK_ID'', ex)
               else (let (n, ex1) = TaskWaker_new task_id ex;
                         (t, ex2) = Task_from_spawned st n ex1
                     in case Task_poll E th t ex2 of
                          (Ok Pending, t', ex3) \<Rightarrow>
                            (Ok (), ex3\<lparr>ex_tasks := (ex_tasks ex3)(task_id \<mapsto> t'), ex_hist := Suc (ex_hist ex3)\<rparr>)
                        | (Ok (Ready _), t', ex3) \<Rightarrow> (Ok (), ex3)
                        | (Err e, t', ex3) \<Rightarrow> (Err e, ex3)
                        | (Panic m, t', ex3) \<Rightarrow> (Panic m, ex3))))"

text \<open>
  The loop, over the spawned tasks in the order in which \<open>pop\<close> takes them. While the body
  runs, \<open>spawned\<close> is borrowed, so nothing but the loop changes it.
\<close>

primrec poll_spawned_loop ::
  "('f, 'v, 'a, 'o, 'c, 'x) env \<Rightarrow> thread_id \<Rightarrow> 'f spawned_task list \<Rightarrow> ('f, 'v, 'a, 'o, 'c, 'x) executor \<Rightarrow>
     unit res \<times> ('f, 'v, 'a, 'o, 'c, 'x) executor" where
  "poll_spawned_loop E th [] ex = (Ok (), ex)"
| "poll_spawned_loop E th (st # sts) ex =
     (case poll_spawned_task E th st (ex\<lparr>ex_spawned := rev sts, ex_borrowed := True\<rparr>) of
        (Ok _, ex1) \<Rightarrow> poll_spawned_loop E th sts (ex1\<lparr>ex_borrowed := False\<rparr>)
      | (Err e, ex1) \<Rightarrow> (Err e, ex1\<lparr>ex_borrowed := False\<rparr>)
      | (Panic m, ex1) \<Rightarrow> (Panic m, ex1\<lparr>ex_borrowed := False\<rparr>))"

definition poll_spawned ::
  "('f, 'v, 'a, 'o, 'c, 'x) env \<Rightarrow> thread_id \<Rightarrow> ('f, 'v, 'a, 'o, 'c, 'x) executor \<Rightarrow>
     unit res \<times> ('f, 'v, 'a, 'o, 'c, 'x) executor" where
  "poll_spawned E th ex = poll_spawned_loop E th (rev (ex_spawned ex)) ex"

text \<open>The future returned by \<open>run\<close>: before its first poll, with its main waker, completed.\<close>

datatype 'f run_state = RunStart 'f | RunMain nat 'f | RunDone

definition run_start ::
  "('f, 'v, 'a, 'o, 'c, 'x) env \<Rightarrow> thread_id \<Rightarrow> ('f, 'v, 'a, 'o, 'c, 'x) executor \<Rightarrow>
     (nat \<times> ('f, 'v, 'a, 'o, 'c, 'x) executor) option" where
  "run_start E th ex =
     (let (n, ex1) = TaskWaker_new MAIN_TASK_ID ex
      in map_option (\<lambda>q. (n, ex1\<lparr>ex_queue := q\<rparr>)) (WakeQueue_reset (en_cq E) th MAIN_TASK_ID (ex_queue ex1)))"

definition run_finish :: "('f, 'v, 'a, 'o, 'c, 'x) executor \<Rightarrow> ('f, 'v, 'a, 'o, 'c, 'x) executor" where
  "run_finish ex = ex\<lparr>ex_tasks := Map.empty, ex_hist := Suc (ex_hist ex), ex_spawned := []\<rparr>"

text \<open>The closure given to \<open>poll_fn\<close>.\<close>

definition run_main ::
  "('f, 'v, 'a, 'o, 'c, 'x) env \<Rightarrow> thread_id \<Rightarrow> 'o \<Rightarrow> nat \<Rightarrow> 'f \<Rightarrow> ('f, 'v, 'a, 'o, 'c, 'x) executor \<Rightarrow>
     'v poll res \<times> 'f \<times> ('f, 'v, 'a, 'o, 'c, 'x) executor" where
  "run_main E th cx n fut ex =
     (case poll_tasks E th (register_base_waker E cx ex) of
        (Err e, ex1) \<Rightarrow> (Err e, fut, ex1)
      | (Panic m, ex1) \<Rightarrow> (Panic m, fut, ex1)
      | (Ok main, ex1) \<Rightarrow>
          (case (if main then run_prog E th (en_poll E n fut) (TaskWaker_to_sleep n ex1)
                 else (Ok (fut, Pending), ex1)) of
             (Err e, ex2) \<Rightarrow> (Err e, fut, ex2)
           | (Panic m, ex2) \<Rightarrow> (Panic m, fut, ex2)
           | (Ok (fut', Ready out), ex2) \<Rightarrow> (Ok (Ready out), fut', ex2)
           | (Ok (fut', Pending), ex2) \<Rightarrow>
               (case poll_spawned E th ex2 of (r, ex3) \<Rightarrow> (bind_res r (\<lambda>_. Ok Pending), fut', ex3))))"

definition Executor_run_poll ::
  "('f, 'v, 'a, 'o, 'c, 'x) env \<Rightarrow> thread_id \<Rightarrow> 'o \<Rightarrow> 'f run_state \<Rightarrow> ('f, 'v, 'a, 'o, 'c, 'x) executor \<Rightarrow>
     ('v poll res \<times> 'f run_state \<times> ('f, 'v, 'a, 'o, 'c, 'x) executor) option" where
  "Executor_run_poll E th cx rs ex =
     Option.bind
       (case rs of
          RunStart fut \<Rightarrow> map_option (\<lambda>(n, ex1). Some (n, fut, ex1)) (run_start E th ex)
        | RunMain n fut \<Rightarrow> Some (Some (n, fut, ex))
        | RunDone \<Rightarrow> Some None)
       (\<lambda>s. case s of
          None \<Rightarrow> Some (Panic ''async fn resumed after completion'', RunDone, ex)
        | Some (n, fut, ex1) \<Rightarrow>
            (case run_main E th cx n fut ex1 of
               (Ok (Ready out), fut', ex2) \<Rightarrow> Some (Ok (Ready out), RunDone, run_finish ex2)
             | (Ok Pending, fut', ex2) \<Rightarrow> Some (Ok Pending, RunMain n fut', ex2)
             | (Err e, fut', ex2) \<Rightarrow> Some (Err e, RunDone, ex2)
             | (Panic m, fut', ex2) \<Rightarrow> Some (Panic m, RunDone, ex2)))"

section \<open>What user code can do to an executor\<close>

text \<open>
  The executor moves from \<open>ex\<close> to \<open>ex'\<close> while user code runs: the tasks and the waker objects
  stay, queued wakes are only added, a waker that was set during the time has its task
  queued, and when a wake was added, the base waker has been called.
\<close>

definition called_since :: "('a, 'o) atomic_waker \<Rightarrow> ('a, 'o) base \<Rightarrow> ('a, 'o) base \<Rightarrow> bool" where
  "called_since A b b' \<longleftrightarrow> (\<forall>cx l. cx_state A cx l b \<longrightarrow> cx_called A cx l b')"

definition same_objects :: "('f, 'v, 'a, 'o, 'c, 'x) executor \<Rightarrow> ('f, 'v, 'a, 'o, 'c, 'x) executor \<Rightarrow> bool" where
  "same_objects ex ex' \<longleftrightarrow> ex_tasks ex' = ex_tasks ex \<and> ex_hist ex' = ex_hist ex
     \<and> ex_borrowed ex' = ex_borrowed ex \<and> wq_thread (ex_queue ex') = wq_thread (ex_queue ex)
     \<and> map tw_task_id (ex_wakers ex') = map tw_task_id (ex_wakers ex)
     \<and> (\<forall>h < length (ex_handles ex). h < length (ex_handles ex') \<and>
          (hd_cancelled (ex_handles ex ! h) \<longrightarrow> hd_cancelled (ex_handles ex' ! h)))
     \<and> (ex_borrowed ex \<longrightarrow> ex_spawned ex' = ex_spawned ex)"

definition wakes_added ::
  "('f, 'v, 'a, 'o, 'c, 'x) env \<Rightarrow> usize list \<Rightarrow> usize list \<Rightarrow>
     ('f, 'v, 'a, 'o, 'c, 'x) executor \<Rightarrow> ('f, 'v, 'a, 'o, 'c, 'x) executor \<Rightarrow> bool" where
  "wakes_added E l c ex ex' \<longleftrightarrow>
     wq_local (ex_queue ex') = wq_local (ex_queue ex) @ l
     \<and> cq_items (en_cq E) (wq_con (ex_queue ex')) = cq_items (en_cq E) (wq_con (ex_queue ex)) @ c
     \<and> (\<forall>n < length (ex_wakers ex). tw_awoken (ex_wakers ex' ! n) \<longrightarrow>
          tw_awoken (ex_wakers ex ! n) \<or> tw_task_id (ex_wakers ex ! n) \<in> set (l @ c))
     \<and> (if l = [] \<and> c = [] then wq_base (ex_queue ex') = wq_base (ex_queue ex)
        else called_since (en_aw E) (wq_base (ex_queue ex)) (wq_base (ex_queue ex')))"

definition advanced ::
  "('f, 'v, 'a, 'o, 'c, 'x) env \<Rightarrow> ('f, 'v, 'a, 'o, 'c, 'x) executor \<Rightarrow> ('f, 'v, 'a, 'o, 'c, 'x) executor \<Rightarrow> bool" where
  "advanced E ex ex' \<longleftrightarrow> same_objects ex ex' \<and> (\<exists>l c. wakes_added E l c ex ex')"

lemma called_since_trans:
  "called_since A b b' \<Longrightarrow> called_since A b' b'' \<Longrightarrow> called_since A b b''"
  unfolding called_since_def using cx_stateI by metis

lemma called_since_wake: "aw_laws A \<Longrightarrow> called_since A b (base_wake A b)"
  by (simp add: called_since_def cx_called_wake)

lemma same_objects_refl [simp]: "same_objects ex ex"
  by (simp add: same_objects_def)

lemma same_objects_trans:
  "same_objects ex ex1 \<Longrightarrow> same_objects ex1 ex2 \<Longrightarrow> same_objects ex ex2"
  by (auto simp: same_objects_def)

lemma same_objects_wakers:
  "same_objects ex ex' \<Longrightarrow> length (ex_wakers ex') = length (ex_wakers ex)"
  "same_objects ex ex' \<Longrightarrow> n < length (ex_wakers ex) \<Longrightarrow>
     tw_task_id (ex_wakers ex' ! n) = tw_task_id (ex_wakers ex ! n)"
  unfolding same_objects_def by (metis length_map, metis length_map nth_map)

lemma wakes_added_trans:
  assumes "same_objects ex ex1" "wakes_added E l c ex ex1" "wakes_added E l' c' ex1 ex2"
  shows "wakes_added E (l @ l') (c @ c') ex ex2"
  using assms same_objects_wakers [OF assms(1)]
  by (auto simp: wakes_added_def dest: called_since_trans split: if_splits)

lemma advanced_refl [simp]: "advanced E ex ex"
  unfolding advanced_def
  by (intro conjI same_objects_refl exI [of _ "[]"]) (simp add: wakes_added_def)

lemma advanced_trans: "advanced E ex ex1 \<Longrightarrow> advanced E ex1 ex2 \<Longrightarrow> advanced E ex ex2"
  unfolding advanced_def using same_objects_trans wakes_added_trans by metis

text \<open>A change that leaves the queue and the wakers alone.\<close>

lemma advanced_quiet:
  "same_objects ex ex' \<Longrightarrow> ex_queue ex' = ex_queue ex \<Longrightarrow> ex_wakers ex' = ex_wakers ex \<Longrightarrow>
   advanced E ex ex'"
  unfolding advanced_def by (intro conjI exI [of _ "[]"]) (simp_all add: wakes_added_def)

definition env_ok :: "('f, 'v, 'a, 'o, 'c, 'x) env \<Rightarrow> bool" where
  "env_ok E \<longleftrightarrow> aw_laws (en_aw E) \<and> cq_laws (en_cq E) \<and> slab_laws (en_slab E)"

lemma env_okD:
  "env_ok E \<Longrightarrow> aw_laws (en_aw E)" "env_ok E \<Longrightarrow> cq_laws (en_cq E)" "env_ok E \<Longrightarrow> slab_laws (en_slab E)"
  by (simp_all add: env_ok_def)

lemma wake_advanced:
  assumes "env_ok E"
  shows "advanced E ex (TaskWaker_wake E th n ex)"
proof (cases "n < length (ex_wakers ex) \<and> \<not> tw_awoken (ex_wakers ex ! n)")
  case True
  let ?id = "tw_task_id (ex_wakers ex ! n)" and ?ex = "TaskWaker_wake E th n ex"
  have "same_objects ex ?ex"
    using True by (auto simp: same_objects_def TaskWaker_wake_def Let_def map_update
        list_update_same_conv)
  moreover have aw': "tw_awoken (ex_wakers ?ex ! k) \<longrightarrow> tw_awoken (ex_wakers ex ! k) \<or>
      tw_task_id (ex_wakers ex ! k) = ?id" for k
    using True by (cases "k = n") (simp_all add: TaskWaker_wake_def Let_def)
  have "wakes_added E (if th = wq_thread (ex_queue ex) then [?id] else [])
      (if th = wq_thread (ex_queue ex) then [] else [?id]) ex ?ex"
    unfolding wakes_added_def
    using aw' True cq_simps(2) [OF env_okD(2) [OF assms]] called_since_wake [OF env_okD(1) [OF assms]]
    by (simp add: TaskWaker_wake_def Let_def WakeQueue_push_def)
  ultimately show ?thesis unfolding advanced_def by blast
qed (auto simp: TaskWaker_wake_def)

lemma any_wake_advanced: "env_ok E \<Longrightarrow> advanced E ex (any_wake E th w ex)"
  by (cases w) (auto simp: any_wake_def wake_advanced same_objects_def intro!: advanced_quiet)

lemma spawn_advanced: "Executor_spawn f ex = (r, ex') \<Longrightarrow> advanced E ex ex'"
  by (rule advanced_quiet)
    (auto simp: Executor_spawn_def same_objects_def Let_def nth_append split: if_splits)

lemma cancel_advanced:
  assumes "env_ok E"
  shows "advanced E ex (TaskHandle_cancel E th h ex)"
proof -
  let ?ex1 = "ex\<lparr>ex_handles := (ex_handles ex)[th_handle h := \<lparr>hd_cancelled = True, hd_waker = None\<rparr>]\<rparr>"
  have "hd_cancelled (ex_handles ?ex1 ! k)" if "hd_cancelled (ex_handles ex ! k)" "k < length (ex_handles ex)" for k
    using that by (cases "k = th_handle h") simp_all
  then have 1: "advanced E ex ?ex1" by (intro advanced_quiet) (simp_all add: same_objects_def)
  show ?thesis using advanced_trans [OF 1 wake_advanced [OF assms]] 1
    by (simp add: TaskHandle_cancel_def Let_def split: option.splits)
qed

lemma handle_poll_advanced: "TaskHandle_poll w h ex = (p, ex') \<Longrightarrow> advanced E ex ex'"
  by (rule advanced_quiet)
    (auto simp: TaskHandle_poll_def same_objects_def Let_def split: option.splits)

lemma world_advanced: "advanced E ex (ex\<lparr>ex_world := x\<rparr>)"
  by (rule advanced_quiet) (simp_all add: same_objects_def)

lemma do_call_advanced: "env_ok E \<Longrightarrow> do_call E th c ex = (r, ex') \<Longrightarrow> advanced E ex ex'"
  by (cases c) (auto simp: do_call_def any_wake_advanced cancel_advanced world_advanced split: prod.splits
      dest: spawn_advanced handle_poll_advanced)

lemma run_prog_advanced: "env_ok E \<Longrightarrow> run_prog E th p ex = (r, ex') \<Longrightarrow> advanced E ex ex'"
proof (induction p arbitrary: ex)
  case (Do c k)
  obtain r1 ex1 where 1: "do_call E th c ex = (r1, ex1)" by fastforce
  note adv = do_call_advanced [OF Do.prems(1) 1]
  show ?case
  proof (cases r1)
    case (Ok a)
    then have "run_prog E th (k a) ex1 = (r, ex')" using Do.prems(2) 1 by simp
    then show ?thesis using Do.IH [OF _ Do.prems(1)] advanced_trans [OF adv] by blast
  qed (use Do.prems(2) 1 adv in auto)
qed auto

lemma deliver_advanced:
  assumes "env_ok E"
  shows "advanced E ex (deliver E th ret v ex)"
proof -
  let ?ex1 = "ex\<lparr>ex_rets := (ex_rets ex)[ret := \<lparr>rd_value = Some v, rd_waker = None\<rparr>]\<rparr>"
  have 1: "advanced E ex ?ex1" by (rule advanced_quiet) (simp_all add: same_objects_def)
  show ?thesis using advanced_trans [OF 1 any_wake_advanced [OF assms]] 1
    by (simp add: deliver_def Let_def split: option.splits)
qed

lemma Task_poll_advanced:
  assumes "env_ok E" "Task_poll E th t ex = (r, t', ex')"
  shows "advanced E (TaskWaker_to_sleep (tk_waker t) ex) ex'" "tk_waker t' = tk_waker t"
    "tk_handle t' = tk_handle t" "tk_ret t' = tk_ret t"
proof -
  obtain q ex1 where 1: "run_prog E th (en_poll E (tk_waker t) (tk_fut t))
      (TaskWaker_to_sleep (tk_waker t) ex) = (q, ex1)" by fastforce
  note adv = run_prog_advanced [OF assms(1) 1]
  show "advanced E (TaskWaker_to_sleep (tk_waker t) ex) ex'"
    using assms(2) 1 adv advanced_trans [OF adv deliver_advanced [OF assms(1)]]
    by (auto simp: Task_poll_def split: res.splits poll.splits)
  show "tk_waker t' = tk_waker t" "tk_handle t' = tk_handle t" "tk_ret t' = tk_ret t"
    using assms(2) 1 by (auto simp: Task_poll_def split: res.splits poll.splits)
qed

text \<open>User code panics only when it spawns while \<open>spawned\<close> is borrowed.\<close>

lemma do_call_Ok:
  "\<not> ex_borrowed ex \<Longrightarrow> \<exists>r ex'. do_call E th c ex = (Ok r, ex')"
  by (cases c) (auto simp: do_call_def Executor_spawn_def Let_def split: prod.splits)

lemma run_prog_Ok:
  assumes "env_ok E" "\<not> ex_borrowed ex"
  shows "\<exists>f p ex'. run_prog E th pr ex = (Ok (f, p), ex')"
  using assms(2)
proof (induction pr arbitrary: ex)
  case (Do c k)
  obtain r ex1 where 1: "do_call E th c ex = (Ok r, ex1)" using do_call_Ok [OF Do.prems] by blast
  moreover have "\<not> ex_borrowed ex1"
    using do_call_advanced [OF assms(1) 1] Do.prems by (simp add: advanced_def same_objects_def)
  ultimately show ?case using Do.IH [of "k r" ex1] by auto
qed simp

lemma Task_poll_Ok:
  assumes "env_ok E" "\<not> ex_borrowed ex"
  shows "\<exists>p t' ex'. Task_poll E th t ex = (Ok p, t', ex')"
proof -
  have "\<not> ex_borrowed (TaskWaker_to_sleep (tk_waker t) ex)" using assms(2) by (simp add: TaskWaker_to_sleep_def)
  then obtain f p ex' where "run_prog E th (en_poll E (tk_waker t) (tk_fut t))
      (TaskWaker_to_sleep (tk_waker t) ex) = (Ok (f, p), ex')"
    using run_prog_Ok [OF assms(1)] by blast
  then show ?thesis by (cases p) (simp_all add: Task_poll_def)
qed

section \<open>The wake invariant\<close>

text \<open>
  A waker that is set has its task in the queue, or in \<open>X\<close>, the identifiers that were taken
  from the queue and not dealt with yet. The invariant claims this of the wakers of the
  live tasks, and of the main waker \<open>n\<close>.
\<close>

definition wk_ok :: "('f, 'v, 'a, 'o, 'c, 'x) env \<Rightarrow> usize set \<Rightarrow> nat \<Rightarrow> ('f, 'v, 'a, 'o, 'c, 'x) executor \<Rightarrow> bool" where
  "wk_ok E X n ex \<longleftrightarrow> n < length (ex_wakers ex) \<and>
     (tw_awoken (ex_wakers ex ! n) \<longrightarrow>
        tw_task_id (ex_wakers ex ! n) \<in> X \<union> set (wq_items (en_cq E) (ex_queue ex)))"

definition tasks_ok :: "('f, 'v, 'a, 'o, 'c, 'x) env \<Rightarrow> usize set \<Rightarrow> ('f, 'v, 'a, 'o, 'c, 'x) executor \<Rightarrow> bool" where
  "tasks_ok E X ex \<longleftrightarrow> (\<forall>id t. ex_tasks ex id = Some t \<longrightarrow> id \<noteq> MAIN_TASK_ID
     \<and> wk_ok E X (tk_waker t) ex \<and> tw_task_id (ex_wakers ex ! tk_waker t) = id)"

definition main_ok :: "('f, 'v, 'a, 'o, 'c, 'x) env \<Rightarrow> usize set \<Rightarrow> nat \<Rightarrow> ('f, 'v, 'a, 'o, 'c, 'x) executor \<Rightarrow> bool" where
  "main_ok E X n ex \<longleftrightarrow> wk_ok E X n ex \<and> tw_task_id (ex_wakers ex ! n) = MAIN_TASK_ID"

definition grown ::
  "('f, 'v, 'a, 'o, 'c, 'x) env \<Rightarrow> ('f, 'v, 'a, 'o, 'c, 'x) executor \<Rightarrow> ('f, 'v, 'a, 'o, 'c, 'x) executor \<Rightarrow> bool" where
  "grown E ex ex' \<longleftrightarrow> wq_thread (ex_queue ex') = wq_thread (ex_queue ex) \<and>
     ex_borrowed ex' = ex_borrowed ex \<and>
     (\<exists>l c. wq_local (ex_queue ex') = wq_local (ex_queue ex) @ l
        \<and> cq_items (en_cq E) (wq_con (ex_queue ex')) = cq_items (en_cq E) (wq_con (ex_queue ex)) @ c
        \<and> (if l = [] \<and> c = [] then wq_base (ex_queue ex') = wq_base (ex_queue ex)
           else called_since (en_aw E) (wq_base (ex_queue ex)) (wq_base (ex_queue ex'))))"

lemma advanced_grown:
  assumes "advanced E ex ex'"
  shows "grown E ex ex'"
proof -
  obtain l c where "same_objects ex ex'" "wakes_added E l c ex ex'"
    using assms by (auto simp: advanced_def)
  then show ?thesis unfolding grown_def
    by (intro conjI exI [of _ l] exI [of _ c]) (simp_all add: same_objects_def wakes_added_def)
qed

lemma to_sleep_simps [simp]:
  "ex_queue (TaskWaker_to_sleep n ex) = ex_queue ex" "ex_tasks (TaskWaker_to_sleep n ex) = ex_tasks ex"
  "ex_borrowed (TaskWaker_to_sleep n ex) = ex_borrowed ex" "ex_hist (TaskWaker_to_sleep n ex) = ex_hist ex"
  "ex_handles (TaskWaker_to_sleep n ex) = ex_handles ex" "ex_spawned (TaskWaker_to_sleep n ex) = ex_spawned ex"
  "length (ex_wakers (TaskWaker_to_sleep n ex)) = length (ex_wakers ex)"
  by (simp_all add: TaskWaker_to_sleep_def)

lemma to_sleep_wakers [simp]:
  "k < length (ex_wakers ex) \<Longrightarrow> tw_task_id (ex_wakers (TaskWaker_to_sleep n ex) ! k) = tw_task_id (ex_wakers ex ! k)"
  "k < length (ex_wakers ex) \<Longrightarrow> tw_awoken (ex_wakers (TaskWaker_to_sleep n ex) ! k) \<longleftrightarrow>
     k \<noteq> n \<and> tw_awoken (ex_wakers ex ! k)"
  by (cases "k = n"; simp add: TaskWaker_to_sleep_def)+

lemma wk_ok_mono: "wk_ok E X n ex \<Longrightarrow> X \<subseteq> Y \<Longrightarrow> wk_ok E Y n ex"
  by (auto simp: wk_ok_def)

lemma wk_ok_advanced: "advanced E ex ex' \<Longrightarrow> wk_ok E X n ex \<Longrightarrow> wk_ok E X n ex'"
  using same_objects_wakers [of ex ex'] by (auto simp: advanced_def wakes_added_def wk_ok_def wq_items_def)

lemma main_ok_advanced: "advanced E ex ex' \<Longrightarrow> main_ok E X n ex \<Longrightarrow> main_ok E X n ex'"
  using wk_ok_advanced [of E ex ex' X n] same_objects_wakers [of ex ex']
  by (auto simp: main_ok_def advanced_def wk_ok_def)

lemma tasks_ok_advanced: "advanced E ex ex' \<Longrightarrow> tasks_ok E X ex \<Longrightarrow> tasks_ok E X ex'"
  using wk_ok_advanced [of E ex ex' X] same_objects_wakers [of ex ex']
  by (auto simp: tasks_ok_def advanced_def wk_ok_def same_objects_def)

text \<open>Taking an identifier from the queue.\<close>

definition popped :: "('f, 'v, 'a, 'o, 'c, 'x) env \<Rightarrow> usize \<Rightarrow> ('a, 'o, 'c) wake_queue \<Rightarrow> ('a, 'o, 'c) wake_queue \<Rightarrow> bool" where
  "popped E v q q' \<longleftrightarrow> set (wq_items (en_cq E) q) \<subseteq> Set.insert v (set (wq_items (en_cq E) q'))"

lemma popped_ok:
  assumes "popped E v (ex_queue ex) q"
  shows "tasks_ok E X ex \<Longrightarrow> tasks_ok E (Set.insert v X) (ex\<lparr>ex_queue := q\<rparr>)"
    "main_ok E X n ex \<Longrightarrow> main_ok E (Set.insert v X) n (ex\<lparr>ex_queue := q\<rparr>)"
  using assms by (fastforce simp: tasks_ok_def main_ok_def wk_ok_def popped_def)+

text \<open>Dealing with it.\<close>

lemma tasks_ok_settle:
  "tasks_ok E {v} ex \<Longrightarrow> ex_tasks ex v = None \<Longrightarrow> tasks_ok E {} ex"
  "tasks_ok E {MAIN_TASK_ID} ex \<Longrightarrow> tasks_ok E {} ex"
  "tasks_ok E {v} ex \<Longrightarrow> tasks_ok E {} (ex\<lparr>ex_tasks := (ex_tasks ex)(v := None), ex_hist := h\<rparr>)"
  by (fastforce simp: tasks_ok_def wk_ok_def)+

lemma tasks_ok_sleep:
  "tasks_ok E {v} ex \<Longrightarrow> ex_tasks ex v = Some t \<Longrightarrow> tasks_ok E {} (TaskWaker_to_sleep (tk_waker t) ex)"
  by (auto simp: tasks_ok_def wk_ok_def) (metis option.inject)

lemma main_ok_settle: "main_ok E (Set.insert v X) n ex \<Longrightarrow> v \<noteq> MAIN_TASK_ID \<Longrightarrow> main_ok E X n ex"
  by (auto simp: main_ok_def wk_ok_def)

lemma main_ok_sleep: "main_ok E X n ex \<Longrightarrow> main_ok E X n (TaskWaker_to_sleep k ex)"
  by (auto simp: main_ok_def wk_ok_def)

lemma tasks_ok_replace:
  "tasks_ok E X ex \<Longrightarrow> ex_tasks ex v = Some t \<Longrightarrow> tk_waker t' = tk_waker t \<Longrightarrow>
   tasks_ok E X (ex\<lparr>ex_tasks := (ex_tasks ex)(v \<mapsto> t')\<rparr>)"
  by (auto simp: tasks_ok_def wk_ok_def)

lemma grown_simps [simp]:
  "grown E ex (ex'\<lparr>ex_tasks := t, ex_hist := h\<rparr>) = grown E ex ex'"
  "grown E ex (ex'\<lparr>ex_tasks := t\<rparr>) = grown E ex ex'"
  "grown E (TaskWaker_to_sleep n ex) ex' = grown E ex ex'"
  by (simp_all add: grown_def)

lemma main_ok_simps [simp]:
  "main_ok E X n (ex\<lparr>ex_tasks := t, ex_hist := h\<rparr>) = main_ok E X n ex"
  "main_ok E X n (ex\<lparr>ex_tasks := t\<rparr>) = main_ok E X n ex"
  by (simp_all add: main_ok_def wk_ok_def)

lemma advanced_tasks: "advanced E ex ex' \<Longrightarrow> ex_tasks ex' = ex_tasks ex"
  by (simp add: advanced_def same_objects_def)

abbreviation main_exempt :: "bool \<Rightarrow> usize set" where
  "main_exempt main \<equiv> (if main then {MAIN_TASK_ID} else {})"

text \<open>The callback of \<open>poll_tasks\<close> deals with the identifier it is given.\<close>

lemma poll_task_id_ok:
  assumes "env_ok E" "\<not> ex_borrowed ex" "tasks_ok E {v} ex" "main_ok E (Set.insert v (main_exempt main)) n ex"
    "poll_task_id E th v (main, ex) = (r, main', ex')"
  shows "r = Ok () \<and> main' = (main \<or> v = MAIN_TASK_ID) \<and> tasks_ok E {} ex'
    \<and> main_ok E (main_exempt main') n ex' \<and> grown E ex ex'"
proof (cases "v = MAIN_TASK_ID")
  case True
  then show ?thesis using assms tasks_ok_settle(2) advanced_grown [OF advanced_refl]
    by (auto simp: poll_task_id_def split: if_splits)
next
  case False
  have m: "main_ok E (main_exempt main) n ex" using main_ok_settle [OF assms(4) False] .
  show ?thesis
  proof (cases "ex_tasks ex v")
    case None
    then show ?thesis using assms False m tasks_ok_settle(1) advanced_grown [OF advanced_refl]
      by (auto simp: poll_task_id_def)
  next
    case (Some t)
    show ?thesis
    proof (cases "hd_cancelled (ex_handles ex ! tk_handle t)")
      case True
      then show ?thesis using assms False m Some tasks_ok_settle(3) advanced_grown [OF advanced_refl]
        by (auto simp: poll_task_id_def)
    next
      case nc: False
      obtain p t' ex1 where p: "Task_poll E th t ex = (Ok p, t', ex1)"
        using Task_poll_Ok [OF assms(1,2)] by blast
      note adv = Task_poll_advanced [OF assms(1) p]
      have ok: "tasks_ok E {} ex1" "main_ok E (main_exempt main) n ex1" "ex_tasks ex1 v = Some t"
        using tasks_ok_advanced [OF adv(1) tasks_ok_sleep [OF assms(3) Some]]
          main_ok_advanced [OF adv(1) main_ok_sleep [OF m]] advanced_tasks [OF adv(1)] Some by simp_all
      have rem: "tasks_ok E {} (ex1\<lparr>ex_tasks := (ex_tasks ex1)(v := None), ex_hist := h\<rparr>)" for h
        using ok(1) by (intro tasks_ok_settle(3)) (auto simp: tasks_ok_def intro: wk_ok_mono)
      have "(r, main', ex') = (Ok (), main, case p of
          Ready _ \<Rightarrow> ex1\<lparr>ex_tasks := (ex_tasks ex1)(v := None), ex_hist := Suc (ex_hist ex1)\<rparr>
        | Pending \<Rightarrow> ex1\<lparr>ex_tasks := (ex_tasks ex1)(v \<mapsto> t')\<rparr>)"
        using assms(5) False Some nc p by (cases p) (simp_all add: poll_task_id_def)
      then show ?thesis
        using False rem tasks_ok_replace [OF ok(1,3) adv(2)] ok(2) advanced_grown [OF adv(1)]
        by (cases p) simp_all
    qed
  qed
qed

section \<open>Polling the woken tasks\<close>

interpretation exq: queue_holder "\<lambda>(main, ex). ex_queue ex" "\<lambda>q (main, ex). (main, ex\<lparr>ex_queue := q\<rparr>)"
  by unfold_locales auto

text \<open>
  The invariant of the drain: \<open>n\<close> and \<open>m\<close> elements are left of what the two queues held at
  the start, \<open>L\<close> and \<open>K\<close>; whatever is behind them was added since, and the base waker \<open>cx\<close>
  has been called if there is any.
\<close>

definition drain_inv ::
  "('f, 'v, 'a, 'o, 'c, 'x) env \<Rightarrow> thread_id \<Rightarrow> 'o \<Rightarrow> 'o list \<Rightarrow> nat \<Rightarrow> usize list \<Rightarrow> usize list \<Rightarrow> nat \<Rightarrow> nat \<Rightarrow>
     bool \<times> ('f, 'v, 'a, 'o, 'c, 'x) executor \<Rightarrow> bool" where
  "drain_inv E th cx lg k L K n m = (\<lambda>(main, ex).
     \<not> ex_borrowed ex \<and> wq_thread (ex_queue ex) = th \<and> tasks_ok E {} ex
     \<and> main_ok E (main_exempt main) k ex
     \<and> (\<exists>dl rl dk rk l c. L = dl @ rl \<and> K = dk @ rk \<and> length rl = n \<and> length rk = m
        \<and> wq_local (ex_queue ex) = rl @ l \<and> cq_items (en_cq E) (wq_con (ex_queue ex)) = rk @ c
        \<and> main = (MAIN_TASK_ID \<in> set dl \<union> set dk)
        \<and> cx_state (en_aw E) cx lg (wq_base (ex_queue ex))
        \<and> (l @ c \<noteq> [] \<longrightarrow> cx_called (en_aw E) cx lg (wq_base (ex_queue ex)))))"

lemma drain_invE:
  assumes "drain_inv E th cx lg k L K n m (b, x)"
  obtains dl rl dk rk l c where "\<not> ex_borrowed x" "wq_thread (ex_queue x) = th" "tasks_ok E {} x"
      "main_ok E (main_exempt b) k x" "L = dl @ rl" "K = dk @ rk" "length rl = n" "length rk = m"
      "wq_local (ex_queue x) = rl @ l" "cq_items (en_cq E) (wq_con (ex_queue x)) = rk @ c"
      "b = (MAIN_TASK_ID \<in> set dl \<union> set dk)" "cx_state (en_aw E) cx lg (wq_base (ex_queue x))"
      "l @ c \<noteq> [] \<longrightarrow> cx_called (en_aw E) cx lg (wq_base (ex_queue x))"
  using assms unfolding drain_inv_def prod.case by blast

lemma grown_called:
  assumes "grown E ex ex'" "cx_state (en_aw E) cx lg (wq_base (ex_queue ex))"
    "l @ c \<noteq> [] \<longrightarrow> cx_called (en_aw E) cx lg (wq_base (ex_queue ex))"
    "wq_local (ex_queue ex) = rl @ l" "cq_items (en_cq E) (wq_con (ex_queue ex)) = rk @ c"
  obtains l' c' where "wq_local (ex_queue ex') = rl @ l'"
    "cq_items (en_cq E) (wq_con (ex_queue ex')) = rk @ c'"
    "cx_state (en_aw E) cx lg (wq_base (ex_queue ex'))"
    "l' @ c' \<noteq> [] \<longrightarrow> cx_called (en_aw E) cx lg (wq_base (ex_queue ex'))"
proof -
  obtain x y where g: "wq_local (ex_queue ex') = wq_local (ex_queue ex) @ x"
      "cq_items (en_cq E) (wq_con (ex_queue ex')) = cq_items (en_cq E) (wq_con (ex_queue ex)) @ y"
      "if x = [] \<and> y = [] then wq_base (ex_queue ex') = wq_base (ex_queue ex)
       else called_since (en_aw E) (wq_base (ex_queue ex)) (wq_base (ex_queue ex'))"
    using assms(1) unfolding grown_def by blast
  show thesis
  proof (cases "x = [] \<and> y = []")
    case True
    then show thesis using g assms by (intro that [of l c]) simp_all
  next
    case False
    then have "cx_called (en_aw E) cx lg (wq_base (ex_queue ex'))"
      using g(3) assms(2) unfolding called_since_def by metis
    then show thesis using g assms by (intro that [of "l @ x" "c @ y"]) (simp_all add: cx_stateI)
  qed
qed

lemma drain_inv_step:
  assumes "env_ok E" "popped E v (ex_queue ex) q" "wq_base q = wq_base (ex_queue ex)"
    "wq_thread q = th" "\<not> ex_borrowed ex" "tasks_ok E {} ex" "main_ok E (main_exempt main) k ex"
    "L = dl @ rl" "K = dk @ rk"
    "wq_local q = rl @ l" "cq_items (en_cq E) (wq_con q) = rk @ c"
    "(main \<or> v = MAIN_TASK_ID) = (MAIN_TASK_ID \<in> set dl \<union> set dk)"
    "cx_state (en_aw E) cx lg (wq_base (ex_queue ex))"
    "l @ c \<noteq> [] \<longrightarrow> cx_called (en_aw E) cx lg (wq_base (ex_queue ex))"
    "poll_task_id E th v (main, ex\<lparr>ex_queue := q\<rparr>) = (r, main', ex')"
  shows "r = Ok () \<and> drain_inv E th cx lg k L K (length rl) (length rk) (main', ex')"
proof -
  let ?ex = "ex\<lparr>ex_queue := q\<rparr>"
  have ok: "r = Ok () \<and> main' = (main \<or> v = MAIN_TASK_ID) \<and> tasks_ok E {} ex'
    \<and> main_ok E (main_exempt main') k ex' \<and> grown E ?ex ex'"
    by (rule poll_task_id_ok [OF assms(1) _ popped_ok(1) [OF assms(2,6)] popped_ok(2) [OF assms(2,7)] assms(15)])
      (use assms(5) in simp)
  then have "wq_thread (ex_queue ex') = th" "\<not> ex_borrowed ex'"
    using assms(4,5) by (simp_all add: grown_def)
  moreover obtain l' c' where "wq_local (ex_queue ex') = rl @ l'"
      "cq_items (en_cq E) (wq_con (ex_queue ex')) = rk @ c'"
      "cx_state (en_aw E) cx lg (wq_base (ex_queue ex'))"
      "l' @ c' \<noteq> [] \<longrightarrow> cx_called (en_aw E) cx lg (wq_base (ex_queue ex'))"
    using ok assms(3,10,11,13,14) by (elim conjE grown_called [of E ?ex ex' cx lg l c rl rk]) auto
  ultimately show ?thesis using ok assms(8,9,12) unfolding drain_inv_def prod.case by blast
qed

text \<open>The rule for \<open>poll_tasks\<close>: a further invariant \<open>J\<close> can be carried along.\<close>

lemma poll_tasks_rule:
  assumes "env_ok E" "drain_inv E th cx lg k L K (length L) (length K) (False, ex)"
    "L = wq_local (ex_queue ex)" "K = cq_items (en_cq E) (wq_con (ex_queue ex))"
    "poll_tasks E th ex = (r, ex')" "J (length L) (length K) (False, ex)"
    and J_local: "\<And>n m b x v vs b' x'. drain_inv E th cx lg k L K (Suc n) m (b, x) \<Longrightarrow> J (Suc n) m (b, x) \<Longrightarrow>
      wq_local (ex_queue x) = v # vs \<Longrightarrow>
      poll_task_id E th v (b, x\<lparr>ex_queue := (ex_queue x)\<lparr>wq_local := vs\<rparr>\<rparr>) = (Ok (), b', x') \<Longrightarrow> J n m (b', x')"
    and J_con: "\<And>m b x v vs c b' x'. drain_inv E th cx lg k L K 0 (Suc m) (b, x) \<Longrightarrow> J 0 (Suc m) (b, x) \<Longrightarrow>
      cq_items (en_cq E) (wq_con (ex_queue x)) = v # vs \<Longrightarrow> cq_items (en_cq E) c = vs \<Longrightarrow>
      poll_task_id E th v (b, x\<lparr>ex_queue := (ex_queue x)\<lparr>wq_con := c\<rparr>\<rparr>) = (Ok (), b', x') \<Longrightarrow> J 0 m (b', x')"
  shows "\<exists>main. r = Ok main \<and> drain_inv E th cx lg k L K 0 0 (main, ex') \<and> J 0 0 (main, ex')"
proof -
  let ?get = "\<lambda>(main :: bool, ex). ex_queue ex" and ?put = "\<lambda>q (main :: bool, ex). (main, ex\<lparr>ex_queue := q\<rparr>)"
  obtain q main where d: "WakeQueue_drain_for_each (en_cq E) ?get ?put th (poll_task_id E th) (False, ex) = (q, main, ex')"
    and r: "r = bind_res q (\<lambda>_. Ok main)"
    using assms(5) by (auto simp: poll_tasks_def split: prod.splits)
  have "if q = Ok () then drain_inv E th cx lg k L K 0 0 (main, ex') \<and> J 0 0 (main, ex') else False"
  proof (rule exq.drain_rule [where I = "\<lambda>n m s. drain_inv E th cx lg k L K n m s \<and> J n m s" and E = "\<lambda>_ _. False", OF env_okD(2) [OF assms(1)] _ _ _ _ _ _ d], goal_cases)
    case 1
    then show ?case using assms(2) by (simp add: drain_inv_def)
  next
    case 2
    then show ?case using assms(2-4,6) by simp
  next
    case (3 n m s)
    then show ?case by (auto simp: drain_inv_def split: prod.splits)
  next
    case (4 m s)
    then show ?case by (auto simp: drain_inv_def split: prod.splits)
  next
    case (5 n m s v vs r s')
    obtain b x where s: "s = (b, x)" by (cases s)
    obtain b' x' where s': "s' = (b', x')" by (cases s')
    obtain dl rl dk rk l c where I: "\<not> ex_borrowed x" "wq_thread (ex_queue x) = th" "tasks_ok E {} x"
      "main_ok E (main_exempt b) k x" "L = dl @ rl" "K = dk @ rk" "length rl = Suc n" "length rk = m"
      "wq_local (ex_queue x) = rl @ l" "cq_items (en_cq E) (wq_con (ex_queue x)) = rk @ c"
      "b = (MAIN_TASK_ID \<in> set dl \<union> set dk)" "cx_state (en_aw E) cx lg (wq_base (ex_queue x))"
      "l @ c \<noteq> [] \<longrightarrow> cx_called (en_aw E) cx lg (wq_base (ex_queue x))"
      by (rule drain_invE [OF 5(1) [THEN conjunct1, unfolded s]])
    obtain w rl' where rl: "rl = w # rl'" using I(7) by (cases rl) auto
    then have v: "w = v" "vs = rl' @ l" using 5(2) I(9) s by simp_all
    have "r = Ok () \<and> drain_inv E th cx lg k L K (length rl') (length rk) (b', x')"
      by (rule drain_inv_step [OF assms(1), where dl = "dl @ [v]" and q = "(ex_queue x)\<lparr>wq_local := vs\<rparr>"])
        (use I rl v 5(2,3) s s' in \<open>auto simp: popped_def wq_items_def\<close>)
    then show ?case using rl I(7,8) s' 5 s J_local [of n m b x v vs b' x'] by simp
  next
    case (6 m s v vs c0 r s')
    obtain b x where s: "s = (b, x)" by (cases s)
    obtain b' x' where s': "s' = (b', x')" by (cases s')
    obtain dl rl dk rk l c where I: "\<not> ex_borrowed x" "wq_thread (ex_queue x) = th" "tasks_ok E {} x"
      "main_ok E (main_exempt b) k x" "L = dl @ rl" "K = dk @ rk" "length rl = 0" "length rk = Suc m"
      "wq_local (ex_queue x) = rl @ l" "cq_items (en_cq E) (wq_con (ex_queue x)) = rk @ c"
      "b = (MAIN_TASK_ID \<in> set dl \<union> set dk)" "cx_state (en_aw E) cx lg (wq_base (ex_queue x))"
      "l @ c \<noteq> [] \<longrightarrow> cx_called (en_aw E) cx lg (wq_base (ex_queue x))"
      by (rule drain_invE [OF 6(1) [THEN conjunct1, unfolded s]])
    obtain w rk' where rk: "rk = w # rk'" using I(8) by (cases rk) auto
    then have v: "w = v" "vs = rk' @ c" using 6(2) I(10) s by simp_all
    have "r = Ok () \<and> drain_inv E th cx lg k L K (length rl) (length rk') (b', x')"
      by (rule drain_inv_step [OF assms(1), where dk = "dk @ [v]" and q = "(ex_queue x)\<lparr>wq_con := c0\<rparr>"])
        (use I rk v 6(2,3,4) s s' in \<open>auto simp: popped_def wq_items_def\<close>)
    then show ?case using rk I(7,8) s' 6 s J_con [of m b x v vs c0 b' x'] by simp
  qed
  then show ?thesis using r by (auto split: if_splits)
qed

lemma poll_tasks_inv:
  assumes "env_ok E" "drain_inv E th cx lg k L K (length L) (length K) (False, ex)"
    "L = wq_local (ex_queue ex)" "K = cq_items (en_cq E) (wq_con (ex_queue ex))"
    "poll_tasks E th ex = (r, ex')"
  shows "\<exists>main. r = Ok main \<and> drain_inv E th cx lg k L K 0 0 (main, ex')"
  using poll_tasks_rule [OF assms, of "\<lambda>_ _ _. True"] by simp

section \<open>Polling the spawned tasks\<close>

lemma grown_trans:
  assumes "grown E ex ex1" "grown E ex1 ex2"
  shows "grown E ex ex2"
proof -
  obtain l c where 1: "wq_local (ex_queue ex1) = wq_local (ex_queue ex) @ l"
      "cq_items (en_cq E) (wq_con (ex_queue ex1)) = cq_items (en_cq E) (wq_con (ex_queue ex)) @ c"
      "if l = [] \<and> c = [] then wq_base (ex_queue ex1) = wq_base (ex_queue ex)
       else called_since (en_aw E) (wq_base (ex_queue ex)) (wq_base (ex_queue ex1))"
    using assms(1) unfolding grown_def by blast
  obtain l' c' where 2: "wq_local (ex_queue ex2) = wq_local (ex_queue ex1) @ l'"
      "cq_items (en_cq E) (wq_con (ex_queue ex2)) = cq_items (en_cq E) (wq_con (ex_queue ex1)) @ c'"
      "if l' = [] \<and> c' = [] then wq_base (ex_queue ex2) = wq_base (ex_queue ex1)
       else called_since (en_aw E) (wq_base (ex_queue ex1)) (wq_base (ex_queue ex2))"
    using assms(2) unfolding grown_def by blast
  have "if l @ l' = [] \<and> c @ c' = [] then wq_base (ex_queue ex2) = wq_base (ex_queue ex)
       else called_since (en_aw E) (wq_base (ex_queue ex)) (wq_base (ex_queue ex2))"
    using 1(3) 2(3) by (auto split: if_splits intro: called_since_trans)
  then show ?thesis using assms 1(1,2) 2(1,2) unfolding grown_def
    by (intro conjI exI [of _ "l @ l'"] exI [of _ "c @ c'"]) simp_all
qed

lemma new_waker_wk:
  "TaskWaker_new i ex = (n, ex1) \<Longrightarrow> wk_ok E X k ex \<Longrightarrow>
   wk_ok E X k ex1 \<and> tw_task_id (ex_wakers ex1 ! k) = tw_task_id (ex_wakers ex ! k)"
  by (auto simp: TaskWaker_new_def wk_ok_def nth_append)

lemma new_waker_ok:
  assumes "TaskWaker_new i ex = (n, ex1)"
  shows "wk_ok E {} n ex1" "tw_task_id (ex_wakers ex1 ! n) = i" "\<not> tw_awoken (ex_wakers ex1 ! n)"
    "grown E ex ex1" "ex_tasks ex1 = ex_tasks ex" "ex_spawned ex1 = ex_spawned ex"
    "ex_borrowed ex1 = ex_borrowed ex" "ex_handles ex1 = ex_handles ex" "ex_hist ex1 = ex_hist ex"
    "ex_queue ex1 = ex_queue ex"
  using assms by (auto simp: TaskWaker_new_def wk_ok_def nth_append grown_def)

lemma new_waker_tasks:
  assumes "TaskWaker_new i ex = (n, ex1)"
  shows "tasks_ok E X ex \<Longrightarrow> tasks_ok E X ex1" "main_ok E X k ex \<Longrightarrow> main_ok E X k ex1"
  using new_waker_wk [OF assms] new_waker_ok(5) [OF assms] unfolding tasks_ok_def main_ok_def by metis+

lemma ok_update_simps [simp]:
  "tasks_ok E X (ex\<lparr>ex_handles := h\<rparr>) = tasks_ok E X ex"
  "tasks_ok E X (ex\<lparr>ex_spawned := sp\<rparr>) = tasks_ok E X ex"
  "tasks_ok E X (ex\<lparr>ex_borrowed := b\<rparr>) = tasks_ok E X ex"
  "main_ok E X k (ex\<lparr>ex_handles := h\<rparr>) = main_ok E X k ex"
  "main_ok E X k (ex\<lparr>ex_spawned := sp\<rparr>) = main_ok E X k ex"
  "main_ok E X k (ex\<lparr>ex_borrowed := b\<rparr>) = main_ok E X k ex"
  "wk_ok E X n (ex\<lparr>ex_handles := h\<rparr>) = wk_ok E X n ex"
  "grown E ex (ex'\<lparr>ex_handles := h\<rparr>) = grown E ex ex'"
  by (simp_all add: tasks_ok_def main_ok_def wk_ok_def grown_def)

lemma from_spawned_ok:
  assumes "Task_from_spawned st n ex = (t, ex1)"
  shows "tasks_ok E X ex \<Longrightarrow> tasks_ok E X ex1" "main_ok E X k ex \<Longrightarrow> main_ok E X k ex1"
    "wk_ok E X n ex \<Longrightarrow> wk_ok E X n ex1" "ex_wakers ex1 = ex_wakers ex" "tk_waker t = n"
    "grown E ex ex1" "ex_tasks ex1 = ex_tasks ex" "ex_spawned ex1 = ex_spawned ex"
    "ex_borrowed ex1 = ex_borrowed ex" "tk_fut t = st_fut st" "tk_handle t = st_handle st"
  using assms advanced_grown [OF advanced_refl] by (auto simp: Task_from_spawned_def Let_def)

lemma wk_ok_sleep: "wk_ok E X n ex \<Longrightarrow> wk_ok E X n (TaskWaker_to_sleep k ex)"
  by (auto simp: wk_ok_def)

lemma tasks_ok_sleep_other: "tasks_ok E X ex \<Longrightarrow> tasks_ok E X (TaskWaker_to_sleep k ex)"
  by (auto simp: tasks_ok_def wk_ok_def)

lemma tasks_ok_insert:
  "tasks_ok E {} ex \<Longrightarrow> i \<noteq> MAIN_TASK_ID \<Longrightarrow> wk_ok E {} (tk_waker t) ex \<Longrightarrow>
   tw_task_id (ex_wakers ex ! tk_waker t) = i \<Longrightarrow>
   tasks_ok E {} (ex\<lparr>ex_tasks := (ex_tasks ex)(i \<mapsto> t), ex_hist := h\<rparr>)"
  by (auto simp: tasks_ok_def wk_ok_def)

text \<open>A spawned task that is polled for the first time: it gets a key that no live task
  has, and every live task stays.\<close>

lemma poll_spawned_task_ok:
  assumes "env_ok E" "ex_borrowed ex" "tasks_ok E {} ex" "main_ok E {} k ex"
    "poll_spawned_task E th st ex = (Ok (), ex')"
  shows "tasks_ok E {} ex' \<and> main_ok E {} k ex' \<and> grown E ex ex' \<and> ex_spawned ex' = ex_spawned ex
    \<and> ex_tasks ex \<subseteq>\<^sub>m ex_tasks ex'"
proof (cases "hd_cancelled (ex_handles ex ! st_handle st)")
  case True
  then show ?thesis using assms advanced_grown [OF advanced_refl] by (simp add: poll_spawned_task_def)
next
  case False
  define i where "i = en_slab E (ex_hist ex) (dom (ex_tasks ex))"
  have i: "i \<noteq> MAIN_TASK_ID" using assms(5) False by (auto simp: poll_spawned_task_def Let_def i_def split: if_splits)
  have "MAIN_TASK_ID \<notin> dom (ex_tasks ex)" using assms(3) by (auto simp: tasks_ok_def)
  then have "dom (ex_tasks ex) \<noteq> UNIV" by blast
  then have fresh: "ex_tasks ex i = None"
    using env_okD(3) [OF assms(1)] unfolding slab_laws_def i_def by (metis domIff)
  obtain n ex1 where n: "TaskWaker_new i ex = (n, ex1)" by fastforce
  obtain t ex2 where t: "Task_from_spawned st n ex1 = (t, ex2)" by fastforce
  obtain r t' ex3 where p: "Task_poll E th t ex2 = (r, t', ex3)" by (metis prod_cases3)
  note N = new_waker_ok [OF n] and T = from_spawned_ok [OF t] and P = Task_poll_advanced [OF assms(1) p]
  have pre: "tasks_ok E {} ex2" "main_ok E {} k ex2" "wk_ok E {} n ex2" "tw_task_id (ex_wakers ex2 ! n) = i"
    using N T new_waker_tasks [OF n] assms(3,4) by simp_all
  have so: "same_objects (TaskWaker_to_sleep (tk_waker t) ex2) ex3" using P(1) by (simp add: advanced_def)
  have post: "tasks_ok E {} ex3" "main_ok E {} k ex3" "wk_ok E {} n ex3" "tw_task_id (ex_wakers ex3 ! n) = i"
    using tasks_ok_advanced [OF P(1) tasks_ok_sleep_other [OF pre(1)]]
      main_ok_advanced [OF P(1) main_ok_sleep [OF pre(2)]]
      wk_ok_advanced [OF P(1) wk_ok_sleep [OF pre(3)]] same_objects_wakers(2) [OF so] pre(3,4)
    by (simp_all add: wk_ok_def)
  have g: "grown E ex ex3"
    using grown_trans [OF N(4) T(6)] advanced_grown [OF P(1)] by (auto intro: grown_trans)
  have keep: "ex_tasks ex3 = ex_tasks ex" "ex_spawned ex3 = ex_spawned ex"
    using so N T assms(2) by (simp_all add: same_objects_def)
  have "ex' = (case r of Ok Pending \<Rightarrow> ex3\<lparr>ex_tasks := (ex_tasks ex3)(i \<mapsto> t'), ex_hist := Suc (ex_hist ex3)\<rparr>
      | _ \<Rightarrow> ex3)"
    using assms(5) False i n t p
    by (auto simp: poll_spawned_task_def i_def [symmetric] Let_def split: res.splits poll.splits)
  moreover have "tasks_ok E {} (ex3\<lparr>ex_tasks := (ex_tasks ex3)(i \<mapsto> t'), ex_hist := h\<rparr>)" for h
    using tasks_ok_insert [OF post(1) i, of t'] post(3,4) P(2) T(5) by simp
  moreover have "ex_tasks ex \<subseteq>\<^sub>m (ex_tasks ex)(i \<mapsto> t')" using fresh by (auto simp: map_le_def)
  ultimately show ?thesis using post g keep by (cases r) (auto split: poll.splits)
qed

lemma poll_spawned_loop_ok:
  assumes "env_ok E"
  shows "\<not> ex_borrowed ex \<Longrightarrow> tasks_ok E {} ex \<Longrightarrow> main_ok E {} k ex \<Longrightarrow> rev sts = ex_spawned ex \<Longrightarrow>
    poll_spawned_loop E th sts ex = (Ok (), ex') \<Longrightarrow>
    tasks_ok E {} ex' \<and> main_ok E {} k ex' \<and> grown E ex ex' \<and> ex_spawned ex' = []
    \<and> ex_tasks ex \<subseteq>\<^sub>m ex_tasks ex'"
proof (induction sts arbitrary: ex)
  case (Cons st sts)
  let ?ex = "ex\<lparr>ex_spawned := rev sts, ex_borrowed := True\<rparr>"
  obtain r ex1 where 1: "poll_spawned_task E th st ?ex = (r, ex1)" by fastforce
  then have r: "r = Ok ()" using Cons.prems(5) by (auto split: res.splits)
  have "tasks_ok E {} ?ex" "main_ok E {} k ?ex"
    using Cons.prems(2,3) by simp_all
  from poll_spawned_task_ok [OF assms _ this 1 [unfolded r]]
  have ok: "tasks_ok E {} ex1" "main_ok E {} k ex1" "grown E ?ex ex1" "ex_spawned ex1 = rev sts"
    "ex_tasks ex \<subseteq>\<^sub>m ex_tasks ex1" by simp_all
  let ?ex1 = "ex1\<lparr>ex_borrowed := False\<rparr>"
  have pre: "\<not> ex_borrowed ?ex1" "tasks_ok E {} ?ex1" "main_ok E {} k ?ex1" "rev sts = ex_spawned ?ex1"
    using ok by simp_all
  have "grown E ex ?ex1" using ok(3) Cons.prems(1) by (simp add: grown_def cong: if_cong)
  moreover have "poll_spawned_loop E th sts ?ex1 = (Ok (), ex')" using Cons.prems(5) 1 r by simp
  from Cons.IH [OF pre this]
  have "tasks_ok E {} ex' \<and> main_ok E {} k ex' \<and> grown E ?ex1 ex' \<and> ex_spawned ex' = [] \<and> ex_tasks ex1 \<subseteq>\<^sub>m ex_tasks ex'"
    by simp
  ultimately show ?case using ok(5) grown_trans by (blast intro: map_le_trans)
qed (use advanced_grown [OF advanced_refl] in auto)

end
