(* ===== verification/Executor_Run.thy ===== *)
theory Executor_Run
  imports Executor
begin

text \<open>
  The properties of \<open>Executor::run\<close> and \<open>TaskHandle\<close>: no wakeup of a task or of the main
  future is lost, over the whole life of an executor; what cancelling and completing a
  task do; when \<open>run\<close> can panic.
\<close>

section \<open>One poll of run\<close>

definition exec_ok :: "('f, 'v, 'a, 'o, 'c, 'x) env \<Rightarrow> thread_id \<Rightarrow> nat \<Rightarrow> ('f, 'v, 'a, 'o, 'c, 'x) executor \<Rightarrow> bool" where
  "exec_ok E th n ex \<longleftrightarrow> \<not> ex_borrowed ex \<and> wq_thread (ex_queue ex) = th \<and> tasks_ok E {} ex \<and> main_ok E {} n ex"

text \<open>Since \<open>cx\<close> was registered with the log at \<open>lg\<close>: either nothing was queued and \<open>cx\<close> is
  still registered, or \<open>cx\<close> has been called, once.\<close>

definition queue_heard ::
  "('f, 'v, 'a, 'o, 'c, 'x) env \<Rightarrow> 'o \<Rightarrow> 'o list \<Rightarrow> ('f, 'v, 'a, 'o, 'c, 'x) executor \<Rightarrow> bool" where
  "queue_heard E cx lg ex \<longleftrightarrow> cx_state (en_aw E) cx lg (wq_base (ex_queue ex)) \<and>
     (wq_items (en_cq E) (ex_queue ex) \<noteq> [] \<longrightarrow> cx_called (en_aw E) cx lg (wq_base (ex_queue ex)))"

lemma queue_heard_grown: "grown E ex ex' \<Longrightarrow> queue_heard E cx lg ex \<Longrightarrow> queue_heard E cx lg ex'"
  unfolding queue_heard_def wq_items_def
  by (erule grown_called [where rl = "[]" and rk = "[]"]) auto

lemma exec_ok_advanced: "advanced E ex ex' \<Longrightarrow> exec_ok E th n ex \<Longrightarrow> exec_ok E th n ex'"
  using tasks_ok_advanced main_ok_advanced advanced_grown [of E ex ex']
  by (auto simp: exec_ok_def grown_def)

lemma drain_invI:
  assumes "\<not> ex_borrowed ex" "wq_thread (ex_queue ex) = th" "tasks_ok E {} ex" "main_ok E {} n ex"
    "wq_local (ex_queue ex) = L" "cq_items (en_cq E) (wq_con (ex_queue ex)) = K"
    "cx_state (en_aw E) cx lg (wq_base (ex_queue ex))"
  shows "drain_inv E th cx lg n L K (length L) (length K) (False, ex)"
  unfolding drain_inv_def prod.case
  by (intro conjI, use assms in simp_all)
    (rule exI [of _ "[]"], rule exI [of _ L], simp, rule exI [of _ "[]"], rule exI [of _ K], simp)

lemma register_base_waker_simps [simp]:
  "tasks_ok E X (register_base_waker E cx ex) = tasks_ok E X ex"
  "main_ok E X n (register_base_waker E cx ex) = main_ok E X n ex"
  "ex_borrowed (register_base_waker E cx ex) = ex_borrowed ex"
  "wq_thread (ex_queue (register_base_waker E cx ex)) = wq_thread (ex_queue ex)"
  by (simp_all add: register_base_waker_def tasks_ok_def main_ok_def wk_ok_def wq_items_def)

lemma drain_start:
  assumes "env_ok E" "exec_ok E th n ex"
  shows "drain_inv E th cx (base_log (wq_base (ex_queue ex))) n
    (wq_local (ex_queue ex)) (cq_items (en_cq E) (wq_con (ex_queue ex)))
    (length (wq_local (ex_queue ex))) (length (cq_items (en_cq E) (wq_con (ex_queue ex))))
    (False, register_base_waker E cx ex)"
  using assms(2) cx_state_register [OF env_okD(1) [OF assms(1)]]
  by (intro drain_invI) (simp_all add: exec_ok_def, simp_all add: register_base_waker_def)

lemma poll_tasks_result:
  assumes "env_ok E" "exec_ok E th n ex"
  obtains main ex1 where "poll_tasks E th (register_base_waker E cx ex) = (Ok main, ex1)"
    "main \<longleftrightarrow> MAIN_TASK_ID \<in> set (wq_items (en_cq E) (ex_queue ex))"
    "\<not> ex_borrowed ex1" "wq_thread (ex_queue ex1) = th" "tasks_ok E {} ex1"
    "main_ok E (main_exempt main) n ex1"
    "queue_heard E cx (base_log (wq_base (ex_queue ex))) ex1"
proof -
  let ?ex = "register_base_waker E cx ex" and ?lg = "base_log (wq_base (ex_queue ex))"
  let ?L = "wq_local (ex_queue ex)" and ?K = "cq_items (en_cq E) (wq_con (ex_queue ex))"
  have q: "wq_local (ex_queue ?ex) = ?L" "wq_con (ex_queue ?ex) = wq_con (ex_queue ex)"
    by (simp_all add: register_base_waker_def)
  obtain r ex1 where p: "poll_tasks E th ?ex = (r, ex1)" by fastforce
  then obtain main where r: "r = Ok main" and d: "drain_inv E th cx ?lg n ?L ?K 0 0 (main, ex1)"
    using poll_tasks_inv [OF assms(1) drain_start [OF assms] _ _ p] q by metis
  from d show thesis
    by (rule drain_invE) (rule that [of main ex1], use p r in \<open>auto simp: queue_heard_def wq_items_def\<close>)
qed

lemma poll_spawned_result:
  assumes "env_ok E" "exec_ok E th n ex" "poll_spawned E th ex = (Ok (), ex')"
  shows "exec_ok E th n ex'" "grown E ex ex'" "ex_spawned ex' = []" "ex_tasks ex \<subseteq>\<^sub>m ex_tasks ex'"
proof -
  have *: "tasks_ok E {} ex' \<and> main_ok E {} n ex' \<and> grown E ex ex' \<and> ex_spawned ex' = [] \<and> ex_tasks ex \<subseteq>\<^sub>m ex_tasks ex'"
    by (rule poll_spawned_loop_ok [OF assms(1)])
      (use assms(2,3) in \<open>simp_all add: exec_ok_def poll_spawned_def\<close>)
  then show "exec_ok E th n ex'" using assms(2) by (simp add: exec_ok_def grown_def)
  show "grown E ex ex'" "ex_spawned ex' = []" "ex_tasks ex \<subseteq>\<^sub>m ex_tasks ex'" using * by simp_all
qed

lemma main_sleep_ok: "main_ok E (main_exempt main) n ex \<Longrightarrow> main_ok E {} n (TaskWaker_to_sleep n ex)"
  by (auto simp: main_ok_def wk_ok_def)

lemma run_main_pending:
  assumes "env_ok E" "exec_ok E th n ex" "run_main E th cx n fut ex = (Ok Pending, fut', ex')"
  shows "exec_ok E th n ex' \<and> ex_spawned ex' = [] \<and>
    queue_heard E cx (base_log (wq_base (ex_queue ex))) ex'"
proof -
  let ?lg = "base_log (wq_base (ex_queue ex))"
  obtain main ex1 where p: "poll_tasks E th (register_base_waker E cx ex) = (Ok main, ex1)"
    and ok1: "\<not> ex_borrowed ex1" "wq_thread (ex_queue ex1) = th" "tasks_ok E {} ex1"
      "main_ok E (main_exempt main) n ex1" "queue_heard E cx ?lg ex1"
    by (rule poll_tasks_result [OF assms(1,2), of cx]) blast
  define s where "s = (if main then run_prog E th (en_poll E n fut) (TaskWaker_to_sleep n ex1)
     else (Ok (fut, Pending), ex1))"
  obtain q ex2 where s: "s = (q, ex2)" by fastforce
  have q: "q = Ok (fut', Pending)" and sp: "poll_spawned E th ex2 = (Ok (), ex')"
    using assms(3) s [unfolded s_def]
    by (auto simp: run_main_def p split: res.splits poll.splits prod.splits elim!: bind_res.elims)
  have "exec_ok E th n ex2 \<and> grown E ex1 ex2"
  proof (cases main)
    case True
    have "exec_ok E th n (TaskWaker_to_sleep n ex1)"
      using ok1 tasks_ok_sleep_other main_sleep_ok by (auto simp: exec_ok_def)
    moreover have "advanced E (TaskWaker_to_sleep n ex1) ex2"
      using run_prog_advanced [OF assms(1)] s True unfolding s_def by auto
    ultimately show ?thesis using exec_ok_advanced advanced_grown by fastforce
  next
    case False
    then show ?thesis using ok1 s advanced_grown [OF advanced_refl] unfolding s_def by (auto simp: exec_ok_def)
  qed
  then have "exec_ok E th n ex2" "queue_heard E cx ?lg ex2" using queue_heard_grown ok1(5) by auto
  then show ?thesis
    using poll_spawned_result [OF assms(1) _ sp] queue_heard_grown [of E ex2 ex'] by simp
qed

lemma run_main_ready:
  assumes "env_ok E" "exec_ok E th n ex" "run_main E th cx n fut ex = (Ok (Ready v), fut', ex')"
  shows "\<not> ex_borrowed ex'" "wq_thread (ex_queue ex') = th"
proof -
  obtain main ex1 where p: "poll_tasks E th (register_base_waker E cx ex) = (Ok main, ex1)"
    and ok1: "\<not> ex_borrowed ex1" "wq_thread (ex_queue ex1) = th"
    by (rule poll_tasks_result [OF assms(1,2), of cx]) blast
  have "run_prog E th (en_poll E n fut) (TaskWaker_to_sleep n ex1) = (Ok (fut', Ready v), ex')"
    using assms(3)
    by (auto simp: run_main_def p split: res.splits poll.splits prod.splits if_splits elim!: bind_res.elims)
  then have "grown E ex1 ex'" using run_prog_advanced [OF assms(1)] advanced_grown by fastforce
  then show "\<not> ex_borrowed ex'" "wq_thread (ex_queue ex') = th" using ok1 by (simp_all add: grown_def)
qed

lemma run_start_ok:
  assumes "env_ok E" "ex_tasks ex = Map.empty" "\<not> ex_borrowed ex" "wq_thread (ex_queue ex) = th"
  obtains n ex1 where "run_start E th ex = Some (n, ex1)" "exec_ok E th n ex1"
    "wq_base (ex_queue ex1) = wq_base (ex_queue ex)"
    "wq_items (en_cq E) (ex_queue ex1) = [MAIN_TASK_ID]"
proof -
  obtain n ex0 where n: "TaskWaker_new MAIN_TASK_ID ex = (n, ex0)" by fastforce
  note N = new_waker_ok [OF n]
  obtain q where q: "WakeQueue_reset (en_cq E) th MAIN_TASK_ID (ex_queue ex0) = Some q"
    "wq_items (en_cq E) q = [MAIN_TASK_ID]" "wq_base q = wq_base (ex_queue ex)" "wq_thread q = th"
    using WakeQueue_reset_result [OF env_okD(2) [OF assms(1)], of "ex_queue ex0" MAIN_TASK_ID] N(10) assms(4) by auto
  have "exec_ok E th n (ex0\<lparr>ex_queue := q\<rparr>)"
    using N assms(2,3) q(2,4) by (simp add: exec_ok_def tasks_ok_def main_ok_def wk_ok_def)
  then show thesis using q n by (intro that [of n "ex0\<lparr>ex_queue := q\<rparr>"]) (simp_all add: run_start_def)
qed

section \<open>The life of an executor\<close>

text \<open>
  The state: the current \<open>run\<close> future, the task waker it was last polled with together with
  the log of outer wakers at that time, and the executor. Between two polls, anything
  outside may wake a waker, on this thread or another one, spawn, or use a handle.
\<close>

record ('f, 'v, 'a, 'o, 'c, 'x) xsys =
  xs_run :: "'f run_state"
  xs_cx :: "('o \<times> 'o list) option"
  xs_ex :: "('f, 'v, 'a, 'o, 'c, 'x) executor"

inductive xstep :: "('f, 'v, 'a, 'o, 'c, 'x) env \<Rightarrow> thread_id \<Rightarrow> ('f, 'v, 'a, 'o, 'c, 'x) xsys \<Rightarrow>
    ('f, 'v, 'a, 'o, 'c, 'x) xsys \<Rightarrow> bool"
  for E :: "('f, 'v, 'a, 'o, 'c, 'x) env" and th :: thread_id where
  outside: "do_call E th c (xs_ex s) = (Ok r, ex') \<Longrightarrow> xstep E th s (s\<lparr>xs_ex := ex'\<rparr>)"
| poll: "Executor_run_poll E th cx (xs_run s) (xs_ex s) = Some (Ok p, rs', ex') \<Longrightarrow>
    xstep E th s \<lparr>xs_run = rs', xs_cx = Some (cx, base_log (wq_base (ex_queue (xs_ex s)))), xs_ex = ex'\<rparr>"
| again: "xs_run s = RunDone \<Longrightarrow> xstep E th s (s\<lparr>xs_run := RunStart fut\<rparr>)"

inductive_cases xstep_cases: "xstep E th s s'"

definition xinit :: "('f, 'v, 'a, 'o, 'c, 'x) env \<Rightarrow> thread_id \<Rightarrow> ('f, 'v, 'a, 'o, 'c, 'x) xsys \<Rightarrow> bool" where
  "xinit E th s \<longleftrightarrow> (\<exists>x. xs_ex s = Executor_new E th x) \<and> (\<exists>fut. xs_run s = RunStart fut) \<and> env_ok E"

definition xinv :: "('f, 'v, 'a, 'o, 'c, 'x) env \<Rightarrow> thread_id \<Rightarrow> ('f, 'v, 'a, 'o, 'c, 'x) xsys \<Rightarrow> bool" where
  "xinv E th s \<longleftrightarrow> env_ok E \<and> \<not> ex_borrowed (xs_ex s) \<and> wq_thread (ex_queue (xs_ex s)) = th \<and>
     (case xs_run s of
        RunMain n fut \<Rightarrow> exec_ok E th n (xs_ex s) \<and>
          (\<exists>cx lg. xs_cx s = Some (cx, lg) \<and> queue_heard E cx lg (xs_ex s))
      | _ \<Rightarrow> ex_tasks (xs_ex s) = Map.empty)"

lemma xinv_run_main:
  assumes "env_ok E" "exec_ok E th n ex" "run_main E th cx n fut ex = (Ok p, fut', ex')"
  shows "xinv E th (case p of
      Ready v \<Rightarrow> \<lparr>xs_run = RunDone, xs_cx = c, xs_ex = run_finish ex'\<rparr>
    | Pending \<Rightarrow> \<lparr>xs_run = RunMain n fut', xs_cx = Some (cx, base_log (wq_base (ex_queue ex))), xs_ex = ex'\<rparr>)"
proof (cases p)
  case (Ready v)
  then show ?thesis using run_main_ready [OF assms(1,2)] assms by (simp add: xinv_def run_finish_def)
next
  case Pending
  then show ?thesis using run_main_pending [OF assms(1,2)] assms by (simp add: xinv_def exec_ok_def)
qed

lemma xinv_poll:
  assumes "xinv E th s" "Executor_run_poll E th cx (xs_run s) (xs_ex s) = Some (Ok p, rs', ex')"
  shows "xinv E th \<lparr>xs_run = rs', xs_cx = Some (cx, base_log (wq_base (ex_queue (xs_ex s)))), xs_ex = ex'\<rparr>"
proof -
  have E: "env_ok E" using assms(1) by (simp add: xinv_def)
  obtain n fut ex1 where 1: "exec_ok E th n ex1" "wq_base (ex_queue ex1) = wq_base (ex_queue (xs_ex s))"
    and run: "(case run_main E th cx n fut ex1 of
               (Ok (Ready out), fut', ex2) \<Rightarrow> Some (Ok (Ready out), RunDone, run_finish ex2)
             | (Ok Pending, fut', ex2) \<Rightarrow> Some (Ok Pending, RunMain n fut', ex2)
             | (Err e, fut', ex2) \<Rightarrow> Some (Err e, RunDone, ex2)
             | (Panic m, fut', ex2) \<Rightarrow> Some (Panic m, RunDone, ex2)) = Some (Ok p, rs', ex')"
  proof (cases "xs_run s")
    case (RunStart fut)
    have pre: "ex_tasks (xs_ex s) = Map.empty" "\<not> ex_borrowed (xs_ex s)" "wq_thread (ex_queue (xs_ex s)) = th"
      using assms(1) RunStart by (simp_all add: xinv_def)
    obtain n ex1 where "run_start E th (xs_ex s) = Some (n, ex1)" "exec_ok E th n ex1"
        "wq_base (ex_queue ex1) = wq_base (ex_queue (xs_ex s))"
      by (rule run_start_ok [OF E pre])
    then show thesis using that assms(2) RunStart by (simp add: Executor_run_poll_def)
  next
    case (RunMain n fut)
    then show thesis using that [of n "xs_ex s" fut] assms by (simp add: Executor_run_poll_def xinv_def)
  next
    case RunDone
    then show thesis using assms(2) by (simp add: Executor_run_poll_def)
  qed
  obtain r fut' ex2 where rm: "run_main E th cx n fut ex1 = (r, fut', ex2)" by (metis prod_cases3)
  then have "r = Ok p" using run by (auto split: res.splits poll.splits)
  then show ?thesis using xinv_run_main [OF E 1(1) rm [unfolded \<open>r = Ok p\<close>]] run rm 1(2)
    by (cases p) auto
qed

lemma xinv_step: "xstep E th s s' \<Longrightarrow> xinv E th s \<Longrightarrow> xinv E th s'"
proof (erule xstep_cases, goal_cases)
  case (1 c r ex')
  then have E: "env_ok E" by (simp add: xinv_def)
  note adv = do_call_advanced [OF E 1(3)]
  then have "ex_tasks ex' = ex_tasks (xs_ex s)" "grown E (xs_ex s) ex'"
    using advanced_tasks advanced_grown by blast+
  then show ?case using 1 exec_ok_advanced [OF adv] queue_heard_grown [of E "xs_ex s" ex']
    by (auto simp: xinv_def grown_def split: run_state.splits)
next
  case (2 cx p rs' ex')
  then show ?case using xinv_poll by simp
next
  case (3 fut)
  then show ?case by (simp add: xinv_def)
qed

lemma xinv_init: "xinit E th s \<Longrightarrow> xinv E th s"
  by (auto simp: xinit_def xinv_def Executor_new_def WakeQueue_with_capacity_def)

interpretation xsystem: step_system "xinit E th" "xstep E th" "xinv E th" for E th
  by unfold_locales (auto intro: xinv_init xinv_step)

section \<open>Properties\<close>


text \<open>A main future that spawns a task and waits; the task wakes itself whenever it is polled.\<close>

definition demo_poll :: "nat \<Rightarrow> nat \<Rightarrow> (nat, nat, nat, unit) prog" where
  "demo_poll n f =
     (if f = 0 then Do (Spawn 1) (\<lambda>_. Yield 2 Pending)
      else if f = 1 then Do (Wake (TaskW n)) (\<lambda>_. Yield 1 Pending)
      else Yield 2 Pending)"

definition demo_env :: "(nat, nat, nat option, nat, usize list, unit) env" where
  "demo_env = \<lparr>en_aw = cell_waker, en_cq = list_queue, en_slab = lowest_vacant, en_poll = demo_poll\<rparr>"

lemma demo_env_ok: "env_ok demo_env"
  by (simp add: env_ok_def demo_env_def cell_waker_laws list_queue_laws lowest_vacant_laws)

text \<open>The executor after the first poll, with task waker 3.\<close>

definition demo_pending :: "(nat, nat, nat option, nat, usize list, unit) executor" where
  "demo_pending =
     \<lparr>ex_tasks = [0 \<mapsto> \<lparr>tk_fut = 1, tk_ret = 0, tk_handle = 0, tk_waker = 1\<rparr>], ex_hist = 1,
      ex_spawned = [], ex_borrowed = False,
      ex_queue = \<lparr>wq_base = \<lparr>base_cell = None, base_log = [3]\<rparr>, wq_thread = 0, wq_local = [0], wq_con = []\<rparr>,
      ex_wakers = [\<lparr>tw_awoken = False, tw_task_id = MAIN_TASK_ID\<rparr>, \<lparr>tw_awoken = True, tw_task_id = 0\<rparr>],
      ex_handles = [\<lparr>hd_cancelled = False, hd_waker = Some 1\<rparr>],
      ex_rets = [\<lparr>rd_value = None, rd_waker = None\<rparr>], ex_other = [], ex_world = ()\<rparr>"

lemmas exec_eval = Executor_run_poll_def run_start_def run_main_def run_finish_def poll_tasks_def
  poll_task_id_def poll_spawned_def poll_spawned_task_def Task_poll_def Task_from_spawned_def
  deliver_def do_call_def any_wake_def TaskWaker_wake_def TaskWaker_new_def TaskWaker_to_sleep_def
  Executor_spawn_def TaskHandle_cancel_def TaskHandle_poll_def Executor_new_def register_base_waker_def
  WakeQueue_with_capacity_def WakeQueue_push_def WakeQueue_drain_for_each_def WakeQueue_reset_def
  base_register_def base_wake_def cell_waker_def list_queue_def lowest_vacant_def Let_def

lemma MAIN_not_0: "MAIN_TASK_ID \<noteq> 0" "0 \<noteq> MAIN_TASK_ID"
  by (simp_all add: MAIN_TASK_ID_def)

lemma demo_first_poll:
  "Executor_run_poll demo_env 0 3 (RunStart 0) (Executor_new demo_env 0 ()) =
     Some (Ok Pending, RunMain 0 2, demo_pending)"
  by (simp add: demo_env_def demo_poll_def demo_pending_def exec_eval MAIN_not_0)


text \<open>
  \<open>poll_tasks\<close> never panics and always returns: it handles what the queues hold when it
  starts, and wakes that come in meanwhile are left for the next poll, so a task that wakes
  itself cannot keep it busy. It reports the main future exactly when its identifier was
  queued, keeps the invariant, and everything left in the queue was queued since the task
  waker was registered, which has therefore been called.
\<close>

theorem poll_tasks_total:
  assumes "env_ok E" "exec_ok E th n ex"
  shows "\<exists>main ex1. poll_tasks E th (register_base_waker E cx ex) = (Ok main, ex1)
    \<and> (main \<longleftrightarrow> MAIN_TASK_ID \<in> set (wq_items (en_cq E) (ex_queue ex)))
    \<and> tasks_ok E {} ex1
    \<and> (wq_items (en_cq E) (ex_queue ex1) \<noteq> [] \<longrightarrow>
         base_log (wq_base (ex_queue ex1)) = base_log (wq_base (ex_queue ex)) @ [cx])"
proof -
  obtain main ex1 where "poll_tasks E th (register_base_waker E cx ex) = (Ok main, ex1)"
    "main \<longleftrightarrow> MAIN_TASK_ID \<in> set (wq_items (en_cq E) (ex_queue ex))" "tasks_ok E {} ex1"
    "queue_heard E cx (base_log (wq_base (ex_queue ex))) ex1"
    by (rule poll_tasks_result [OF assms, of cx]) blast
  then show ?thesis by (auto simp: queue_heard_def dest: cx_called_log)
qed

lemma demo_pending_ok: "exec_ok demo_env 0 0 demo_pending"
  by (simp add: exec_ok_def demo_pending_def tasks_ok_def main_ok_def wk_ok_def wq_items_def
      MAIN_TASK_ID_def)

theorem poll_tasks_total_witness:
  "\<exists>ex1. poll_tasks demo_env 0 (register_base_waker demo_env 4 demo_pending) = (Ok False, ex1)"
  using poll_tasks_total [OF demo_env_ok demo_pending_ok, of 4]
  by (auto simp: demo_pending_def wq_items_def demo_env_def list_queue_def MAIN_TASK_ID_def)

section \<open>Cancelling\<close>

lemma poll_task_id_frame:
  assumes "env_ok E" "\<not> ex_borrowed ex" "poll_task_id E th v (b, ex) = (Ok (), b', ex')"
  shows "(\<forall>j. j \<noteq> v \<longrightarrow> ex_tasks ex' j = ex_tasks ex j) \<and> grown E ex ex' \<and>
    (\<forall>h < length (ex_handles ex). h < length (ex_handles ex') \<and>
       (hd_cancelled (ex_handles ex ! h) \<longrightarrow> hd_cancelled (ex_handles ex' ! h)))"
proof -
  obtain p t' ex1 where p: "ex_tasks ex v \<noteq> None \<longrightarrow> Task_poll E th (the (ex_tasks ex v)) ex = (Ok p, t', ex1)"
    using Task_poll_Ok [OF assms(1,2)] by blast
  show ?thesis
  proof (cases "ex_tasks ex v \<noteq> None \<and> v \<noteq> MAIN_TASK_ID \<and> \<not> hd_cancelled (ex_handles ex ! tk_handle (the (ex_tasks ex v)))")
    case True
    then have adv: "advanced E (TaskWaker_to_sleep (tk_waker (the (ex_tasks ex v))) ex) ex1"
      using Task_poll_advanced(1) [OF assms(1)] p by blast
    then have "same_objects (TaskWaker_to_sleep (tk_waker (the (ex_tasks ex v))) ex) ex1"
      by (simp add: advanced_def)
    then show ?thesis using assms(3) True p advanced_grown [OF adv]
      by (cases p) (auto simp: poll_task_id_def same_objects_def)
  next
    case False
    then show ?thesis using assms(3) advanced_grown [OF advanced_refl]
      by (auto simp: poll_task_id_def split: if_splits option.splits)
  qed
qed

text \<open>The task \<open>t\<close> at \<open>i\<close> with a cancelled handle: it is gone, or unchanged and still among
  the \<open>n\<close> and \<open>m\<close> wakes to be handled.\<close>

definition removal ::
  "('f, 'v, 'a, 'o, 'c, 'x) env \<Rightarrow> usize \<Rightarrow> 'f task \<Rightarrow> nat \<Rightarrow> nat \<Rightarrow> bool \<times> ('f, 'v, 'a, 'o, 'c, 'x) executor \<Rightarrow> bool" where
  "removal E i t n m = (\<lambda>(b, ex). tk_handle t < length (ex_handles ex) \<and> hd_cancelled (ex_handles ex ! tk_handle t)
     \<and> (ex_tasks ex i = None \<or> ex_tasks ex i = Some t \<and>
          i \<in> set (take n (wq_local (ex_queue ex))) \<union> set (take m (cq_items (en_cq E) (wq_con (ex_queue ex))))))"

lemma removal_step:
  assumes "env_ok E" "\<not> ex_borrowed ex" "i \<noteq> MAIN_TASK_ID"
    "tk_handle t < length (ex_handles ex)" "hd_cancelled (ex_handles ex ! tk_handle t)"
    "ex_tasks ex i = None \<or> ex_tasks ex i = Some t \<and> (i = v \<or>
       i \<in> set (take n (wq_local (ex_queue ex))) \<union> set (take m (cq_items (en_cq E) (wq_con (ex_queue ex)))))"
    "n \<le> length (wq_local (ex_queue ex))" "m \<le> length (cq_items (en_cq E) (wq_con (ex_queue ex)))"
    "poll_task_id E th v (b, ex) = (Ok (), b', ex')"
  shows "removal E i t n m (b', ex')"
proof -
  note F = poll_task_id_frame [OF assms(1,2,9)]
  obtain l c where g: "wq_local (ex_queue ex') = wq_local (ex_queue ex) @ l"
      "cq_items (en_cq E) (wq_con (ex_queue ex')) = cq_items (en_cq E) (wq_con (ex_queue ex)) @ c"
    using F by (auto simp: grown_def)
  have gone: "ex_tasks ex' i = None" if "i = v"
    using that assms(3,5,6,9) by (auto simp: poll_task_id_def split: option.splits)
  show ?thesis unfolding removal_def prod.case
    using F assms(4-8) g gone by (cases "i = v") auto
qed

lemma wake_sets: "n < length (ex_wakers ex) \<Longrightarrow> tw_awoken (ex_wakers (TaskWaker_wake E th n ex) ! n)"
  by (simp add: TaskWaker_wake_def Let_def)

lemma drain_inv_len:
  assumes "drain_inv E th cx lg k L K n m (b, x)"
  shows "\<not> ex_borrowed x \<and> n \<le> length (wq_local (ex_queue x)) \<and> m \<le> length (cq_items (en_cq E) (wq_con (ex_queue x)))"
  by (rule drain_invE [OF assms]) simp

lemma removed_by_poll:
  assumes "env_ok E" "exec_ok E th n ex" "ex_tasks ex i = Some t" "tw_awoken (ex_wakers ex ! tk_waker t)"
    "tk_handle t < length (ex_handles ex)" "hd_cancelled (ex_handles ex ! tk_handle t)"
  shows "\<exists>main ex1. poll_tasks E th (register_base_waker E cx ex) = (Ok main, ex1) \<and> ex_tasks ex1 i = None"
proof -
  let ?ex = "register_base_waker E cx ex" and ?lg = "base_log (wq_base (ex_queue ex))"
  let ?L = "wq_local (ex_queue ex)" and ?K = "cq_items (en_cq E) (wq_con (ex_queue ex))"
  have q: "?L = wq_local (ex_queue ?ex)" "?K = cq_items (en_cq E) (wq_con (ex_queue ?ex))"
    by (simp_all add: register_base_waker_def)
  have i: "i \<noteq> MAIN_TASK_ID" "i \<in> set ?L \<union> set ?K"
    using assms(2-4) by (auto simp: exec_ok_def tasks_ok_def wk_ok_def wq_items_def)
  obtain r ex1 where p: "poll_tasks E th ?ex = (r, ex1)" by fastforce
  have start: "removal E i t (length ?L) (length ?K) (False, ?ex)"
    using assms(3,5,6) i by (simp add: removal_def register_base_waker_def)
  have "\<exists>main. r = Ok main \<and> drain_inv E th cx ?lg n ?L ?K 0 0 (main, ex1) \<and> removal E i t 0 0 (main, ex1)"
  proof (rule poll_tasks_rule [where J = "removal E i t", OF assms(1) drain_start [OF assms(1,2)] q p start], goal_cases)
    case (1 k m b x v vs b' x')
    then show ?case using drain_inv_len [OF 1(1)]
      by (intro removal_step [OF assms(1) _ i(1) _ _ _ _ _ 1(4)]) (auto simp: removal_def)
  next
    case (2 m b x v vs c b' x')
    then show ?case using drain_inv_len [OF 2(1)]
      by (intro removal_step [OF assms(1) _ i(1) _ _ _ _ _ 2(5)]) (auto simp: removal_def)
  qed
  then show ?thesis using p by (auto simp: removal_def)
qed



section \<open>Spawning from a task's first poll\<close>

text \<open>Whether running a program reaches a call of \<open>spawn\<close>.\<close>

primrec reaches_spawn ::
  "('f, 'v, 'a, 'o, 'c, 'x) env \<Rightarrow> thread_id \<Rightarrow> ('f, 'v, 'o, 'x) prog \<Rightarrow> ('f, 'v, 'a, 'o, 'c, 'x) executor \<Rightarrow> bool" where
  "reaches_spawn E th (Yield f p) ex = False"
| "reaches_spawn E th (Do c k) ex =
     ((case c of Spawn _ \<Rightarrow> True | _ \<Rightarrow> False) \<or>
      (case do_call E th c ex of (Ok r, ex1) \<Rightarrow> reaches_spawn E th (k r) ex1 | _ \<Rightarrow> False))"

lemma run_prog_borrowed:
  assumes "env_ok E" "ex_borrowed ex"
  shows "case run_prog E th p ex of
      (Ok _, _) \<Rightarrow> \<not> reaches_spawn E th p ex
    | (Err e, _) \<Rightarrow> False
    | (Panic m, _) \<Rightarrow> reaches_spawn E th p ex"
  using assms(2)
proof (induction p arbitrary: ex)
  case (Do c k)
  show ?case
  proof (cases "\<exists>f. c = Spawn f")
    case True
    then show ?thesis using Do.prems by (auto simp: do_call_def Executor_spawn_def Let_def)
  next
    case False
    then obtain r ex1 where 1: "do_call E th c ex = (Ok r, ex1)"
      by (cases c) (auto simp: do_call_def split_beta Let_def)
    then have "ex_borrowed ex1"
      using do_call_advanced [OF assms(1) 1] Do.prems by (simp add: advanced_def same_objects_def)
    moreover have "reaches_spawn E th (Do c k) ex = reaches_spawn E th (k r) ex1"
      using False 1 by (cases c) simp_all
    moreover have "run_prog E th (Do c k) ex = run_prog E th (k r) ex1" using 1 by simp
    ultimately show ?thesis using Do.IH [OF rangeI, of ex1 r] by (simp only:)
  qed
qed simp

lemma slab_key_room:
  assumes "env_ok E" "card (dom (ex_tasks ex)) < slab_max"
  shows "en_slab E (ex_hist ex) (dom (ex_tasks ex)) \<noteq> MAIN_TASK_ID"
proof -
  have "unat (en_slab E (ex_hist ex) (dom (ex_tasks ex))) < slab_max"
    using env_okD(3) [OF assms(1)] assms(2) by (simp add: slab_laws_def)
  moreover have "slab_max < unat MAIN_TASK_ID"
    by (simp add: slab_max_def MAIN_TASK_ID_def unsigned_minus_1_eq_mask mask_eq_exp_minus_1)
  ultimately show ?thesis by auto
qed


text \<open>An executor that polls a task which spawns at once.\<close>

definition eager :: "(nat, nat, nat option, nat, usize list, unit) executor" where
  "eager = (Executor_new demo_env 0 ())\<lparr>ex_borrowed := True, ex_handles := [\<lparr>hd_cancelled = False, hd_waker = None\<rparr>],
     ex_rets := [\<lparr>rd_value = None, rd_waker = None\<rparr>]\<rparr>"


section \<open>Handles and completion\<close>

text \<open>
  C34: A \<open>TaskHandle\<close> that was polled before its task completed is woken by the completion:
  the waker of that poll is set and its task queued. From then on \<open>is_finished\<close> holds, the
  next poll is ready with the task's value, and the value is handed out once.
\<close>

theorem handle_delivers:
  assumes "env_ok E" "th_ret h < length (ex_rets ex)"
    "TaskHandle_poll (TaskW n) h ex = (Pending, ex0)" "wk_ok E {} n ex0"
  shows "let ex1 = deliver E th (th_ret h) v ex0 in
    tw_awoken (ex_wakers ex1 ! n)
    \<and> tw_task_id (ex_wakers ex1 ! n) \<in> set (wq_items (en_cq E) (ex_queue ex1))
    \<and> TaskHandle_is_finished h ex1
    \<and> (\<exists>ex2. TaskHandle_poll w h ex1 = (Ready v, ex2) \<and> \<not> TaskHandle_is_finished h ex2)"
proof -
  let ?i = "th_ret h" and ?ex1 = "deliver E th (th_ret h) v ex0"
  have rd: "rd_waker (ex_rets ex0 ! ?i) = Some (TaskW n)" "?i < length (ex_rets ex0)"
    using assms(2,3) by (auto simp: TaskHandle_poll_def Let_def split: option.splits)
  let ?x = "ex0\<lparr>ex_rets := (ex_rets ex0)[?i := \<lparr>rd_value = Some v, rd_waker = None\<rparr>]\<rparr>"
  have d: "?ex1 = TaskWaker_wake E th n ?x" using rd by (simp add: deliver_def Let_def any_wake_def)
  have n: "n < length (ex_wakers ?x)" using assms(4) by (simp add: wk_ok_def)
  have set: "tw_awoken (ex_wakers ?ex1 ! n)" unfolding d by (rule wake_sets [OF n])
  have "wk_ok E {} n ?ex1" by (rule wk_ok_advanced [OF deliver_advanced [OF assms(1)] assms(4)])
  then have queued: "tw_task_id (ex_wakers ?ex1 ! n) \<in> set (wq_items (en_cq E) (ex_queue ?ex1))"
    using set by (simp add: wk_ok_def)
  have val: "ex_rets ?ex1 ! ?i = \<lparr>rd_value = Some v, rd_waker = None\<rparr>" "?i < length (ex_rets ?ex1)"
    unfolding d using rd(2) by (simp_all add: TaskWaker_wake_def Let_def)
  then show ?thesis using set queued
    by (simp add: Let_def TaskHandle_is_finished_def TaskHandle_poll_def)
qed

theorem handle_delivers_witness:
  "\<exists>ex2. TaskHandle_poll (OtherW 0) \<lparr>th_ret = 0, th_handle = 0\<rparr>
     (deliver demo_env 0 0 9 (snd (TaskHandle_poll (TaskW 0) \<lparr>th_ret = 0, th_handle = 0\<rparr> demo_pending))) = (Ready 9, ex2)"
proof -
  let ?h = "\<lparr>th_ret = 0, th_handle = 0\<rparr>"
  let ?ex0 = "snd (TaskHandle_poll (TaskW 0) ?h demo_pending)"
  have 1: "th_ret ?h < length (ex_rets demo_pending)"
    "TaskHandle_poll (TaskW 0) ?h demo_pending = (Pending, ?ex0)" "wk_ok demo_env {} 0 ?ex0"
    by (simp_all add: demo_pending_def TaskHandle_poll_def wk_ok_def)
  show ?thesis
    using handle_delivers [OF demo_env_ok 1, where th = 0 and v = 9 and w = "OtherW 0"] by (auto simp: Let_def)
qed



text \<open>
  C36: When a \<open>run\<close> future is dropped before it completes and the executor is run again, the
  reset of the wake queue drops the queued identifiers but not the flags of their wakers: a
  task that was woken and not yet polled stays in the executor, is not in the queue, and
  waking it again has no effect.
\<close>

theorem restart_loses_wakeup:
  assumes "cq_laws (en_cq E)" "wq_thread (ex_queue ex) = th" "ex_tasks ex i = Some t" "i \<noteq> MAIN_TASK_ID"
    "tk_waker t < length (ex_wakers ex)" "tw_awoken (ex_wakers ex ! tk_waker t)"
  shows "\<exists>n ex1. run_start E th ex = Some (n, ex1) \<and> ex_tasks ex1 i = Some t
    \<and> i \<notin> set (wq_items (en_cq E) (ex_queue ex1)) \<and> TaskWaker_wake E th' (tk_waker t) ex1 = ex1"
proof -
  obtain n ex0 where n: "TaskWaker_new MAIN_TASK_ID ex = (n, ex0)" by fastforce
  note N = new_waker_ok [OF n]
  obtain q where q: "WakeQueue_reset (en_cq E) th MAIN_TASK_ID (ex_queue ex0) = Some q"
    "wq_items (en_cq E) q = [MAIN_TASK_ID]"
    using WakeQueue_reset_result [OF assms(1), of "ex_queue ex0" MAIN_TASK_ID] N(10) assms(2) by auto
  have "tw_awoken (ex_wakers ex0 ! tk_waker t)"
    using n assms(5,6) by (auto simp: TaskWaker_new_def nth_append)
  then show ?thesis using n q N assms(3,4)
    by (intro exI [of _ n] exI [of _ "ex0\<lparr>ex_queue := q\<rparr>"]) (simp add: run_start_def TaskWaker_wake_def)
qed

theorem restart_loses_wakeup_witness:
  "\<exists>n ex1. run_start demo_env 0 demo_pending = Some (n, ex1) \<and> 0 \<notin> set (wq_items list_queue (ex_queue ex1))"
proof -
  let ?t = "\<lparr>tk_fut = 1, tk_ret = 0, tk_handle = 0, tk_waker = 1\<rparr>"
  have "wq_thread (ex_queue demo_pending) = 0" "ex_tasks demo_pending 0 = Some ?t"
    "tk_waker ?t < length (ex_wakers demo_pending)" "tw_awoken (ex_wakers demo_pending ! tk_waker ?t)"
    by (simp_all add: demo_pending_def)
  from restart_loses_wakeup [OF env_okD(2) [OF demo_env_ok] this(1,2) MAIN_not_0(2) this(3,4), of 0]
  show ?thesis by (auto simp: demo_env_def)
qed

end
