(* ===== verification/Executor_Drain.thy ===== *)
theory Executor_Drain
  imports Executor_Run
begin

text \<open>
  \<open>poll_tasks\<close> of \<open>src/src/lib.rs\<close> against a plain reference: take everything out of the wake
  queue and handle it, one identifier after the other. The code handles the identifiers
  while they and the wakes that come in meanwhile share the two queues, and counts its
  steps by lengths read at the start. The proof runs the two side by side: user code cannot
  see the queues, so that each callback does the same to both.
\<close>

section \<open>The reference\<close>

primrec handle_ids :: "'s callback \<Rightarrow> usize list \<Rightarrow> 's \<Rightarrow> unit res \<times> 's" where
  "handle_ids f [] s = (Ok (), s)"
| "handle_ids f (v # vs) s =
     (case f v s of
        (Ok _, s1) \<Rightarrow> handle_ids f vs s1
      | (Err e, s1) \<Rightarrow> (Err e, s1)
      | (Panic m, s1) \<Rightarrow> (Panic m, s1))"

definition emptied :: "('c, usize) concurrent_queue \<Rightarrow> ('a, 'o, 'c) wake_queue \<Rightarrow> ('a, 'o, 'c) wake_queue" where
  "emptied C q = q\<lparr>wq_local := [], wq_con := cq_unbounded C\<rparr>"

definition poll_tasks_reference ::
  "('f, 'v, 'a, 'o, 'c, 'x) env \<Rightarrow> thread_id \<Rightarrow> ('f, 'v, 'a, 'o, 'c, 'x) executor \<Rightarrow>
     bool res \<times> ('f, 'v, 'a, 'o, 'c, 'x) executor" where
  "poll_tasks_reference E th ex =
     (case handle_ids (poll_task_id E th) (wq_items (en_cq E) (ex_queue ex))
             (False, ex\<lparr>ex_queue := emptied (en_cq E) (ex_queue ex)\<rparr>) of
        (r, main, ex1) \<Rightarrow> (bind_res r (\<lambda>_. Ok main), ex1))"

section \<open>Running side by side\<close>

text \<open>The first queue holds \<open>rl\<close> and \<open>rk\<close> in front of what the second holds.\<close>

definition queue_sim ::
  "('c, usize) concurrent_queue \<Rightarrow> usize list \<Rightarrow> usize list \<Rightarrow>
     ('a, 'o, 'c) wake_queue \<Rightarrow> ('a, 'o, 'c) wake_queue \<Rightarrow> bool" where
  "queue_sim C rl rk q q' \<longleftrightarrow> wq_base q' = wq_base q \<and> wq_thread q' = wq_thread q
     \<and> wq_local q = rl @ wq_local q' \<and> cq_items C (wq_con q) = rk @ cq_items C (wq_con q')"

text \<open>Updates of the other fields pass by an update of the queue.\<close>

lemma queue_last:
  "ex\<lparr>ex_queue := q, ex_tasks := y0\<rparr> = ex\<lparr>ex_tasks := y0, ex_queue := q\<rparr>"
  "ex\<lparr>ex_queue := q, ex_hist := y1\<rparr> = ex\<lparr>ex_hist := y1, ex_queue := q\<rparr>"
  "ex\<lparr>ex_queue := q, ex_spawned := y2\<rparr> = ex\<lparr>ex_spawned := y2, ex_queue := q\<rparr>"
  "ex\<lparr>ex_queue := q, ex_wakers := y3\<rparr> = ex\<lparr>ex_wakers := y3, ex_queue := q\<rparr>"
  "ex\<lparr>ex_queue := q, ex_handles := y4\<rparr> = ex\<lparr>ex_handles := y4, ex_queue := q\<rparr>"
  "ex\<lparr>ex_queue := q, ex_rets := y5\<rparr> = ex\<lparr>ex_rets := y5, ex_queue := q\<rparr>"
  "ex\<lparr>ex_queue := q, ex_other := y6\<rparr> = ex\<lparr>ex_other := y6, ex_queue := q\<rparr>"
  "ex\<lparr>ex_queue := q, ex_world := y7\<rparr> = ex\<lparr>ex_world := y7, ex_queue := q\<rparr>"
  for ex :: "('f, 'v, 'a, 'o, 'c, 'x) executor"
  by simp_all

lemma push_sim:
  "cq_laws C \<Longrightarrow> queue_sim C rl rk q q' \<Longrightarrow> queue_sim C rl rk (WakeQueue_push C th v q) (WakeQueue_push C th v q')"
  using cq_simps(2) by (fastforce simp: queue_sim_def WakeQueue_push_def)

lemma wake_sim:
  assumes "env_ok E" "queue_sim (en_cq E) rl rk (ex_queue ex) q"
  shows "\<exists>q1. TaskWaker_wake E th n (ex\<lparr>ex_queue := q\<rparr>) = (TaskWaker_wake E th n ex)\<lparr>ex_queue := q1\<rparr>
    \<and> queue_sim (en_cq E) rl rk (ex_queue (TaskWaker_wake E th n ex)) q1"
proof (cases "n < length (ex_wakers ex) \<and> \<not> tw_awoken (ex_wakers ex ! n)")
  case True
  let ?id = "tw_task_id (ex_wakers ex ! n)"
  let ?q = "WakeQueue_push (en_cq E) th ?id q"
  have "queue_sim (en_cq E) rl rk (WakeQueue_push (en_cq E) th ?id (ex_queue ex)) ?q"
    by (rule push_sim [OF env_okD(2) [OF assms(1)] assms(2)])
  with True show ?thesis
    by (intro exI [of _ "?q\<lparr>wq_base := base_wake (en_aw E) (wq_base ?q)\<rparr>"])
      (simp add: TaskWaker_wake_def Let_def queue_sim_def)
qed (use assms(2) in \<open>auto simp: TaskWaker_wake_def\<close>)

lemma any_wake_sim:
  assumes "env_ok E" "queue_sim (en_cq E) rl rk (ex_queue ex) q"
  shows "\<exists>q1. any_wake E th w (ex\<lparr>ex_queue := q\<rparr>) = (any_wake E th w ex)\<lparr>ex_queue := q1\<rparr>
    \<and> queue_sim (en_cq E) rl rk (ex_queue (any_wake E th w ex)) q1"
  using wake_sim [OF assms] assms(2) by (cases w) (auto simp: any_wake_def queue_last)

lemma do_call_sim:
  assumes E: "env_ok E" and q: "queue_sim (en_cq E) rl rk (ex_queue ex) q" and call: "do_call E th c ex = (r, ex1)"
  shows "\<exists>q1. do_call E th c (ex\<lparr>ex_queue := q\<rparr>) = (r, ex1\<lparr>ex_queue := q1\<rparr>)
    \<and> queue_sim (en_cq E) rl rk (ex_queue ex1) q1"
proof (cases c)
  case (Cancel h)
  let ?ex = "ex\<lparr>ex_handles := (ex_handles ex)[th_handle h := \<lparr>hd_cancelled = True, hd_waker = None\<rparr>]\<rparr>"
  have "queue_sim (en_cq E) rl rk (ex_queue ?ex) q" using q by simp
  from wake_sim [OF E this] q call Cancel show ?thesis
    by (auto simp: do_call_def TaskHandle_cancel_def Let_def queue_last split: option.splits)
next
  case (Wake w)
  with any_wake_sim [OF E q] call show ?thesis by (auto simp: do_call_def)
next
  case (RemoteWake t w)
  with any_wake_sim [OF E q] call show ?thesis by (auto simp: do_call_def)
next
  case (Spawn f)
  with q call show ?thesis by (auto simp: do_call_def Executor_spawn_def Let_def queue_last split: prod.splits if_splits)
next
  case (PollHandle h w)
  with q call show ?thesis by (auto simp: do_call_def TaskHandle_poll_def Let_def queue_last split: prod.splits option.splits)
qed (use q call in \<open>auto simp: do_call_def TaskHandle_is_finished_def TaskHandle_is_cancelled_def queue_last split: prod.splits\<close>)

lemma run_prog_sim:
  assumes "env_ok E"
  shows "queue_sim (en_cq E) rl rk (ex_queue ex) q \<Longrightarrow> run_prog E th p ex = (r, ex1) \<Longrightarrow>
    \<exists>q1. run_prog E th p (ex\<lparr>ex_queue := q\<rparr>) = (r, ex1\<lparr>ex_queue := q1\<rparr>)
      \<and> queue_sim (en_cq E) rl rk (ex_queue ex1) q1"
proof (induction p arbitrary: ex q)
  case (Do c k)
  obtain a ex2 where c: "do_call E th c ex = (a, ex2)" by fastforce
  then obtain q2 where "do_call E th c (ex\<lparr>ex_queue := q\<rparr>) = (a, ex2\<lparr>ex_queue := q2\<rparr>)"
      "queue_sim (en_cq E) rl rk (ex_queue ex2) q2"
    using do_call_sim [OF assms Do.prems(1)] by blast
  with Do c show ?case by (cases a) auto
qed auto

lemma deliver_sim:
  assumes "env_ok E" "queue_sim (en_cq E) rl rk (ex_queue ex) q"
  shows "\<exists>q1. deliver E th ret v (ex\<lparr>ex_queue := q\<rparr>) = (deliver E th ret v ex)\<lparr>ex_queue := q1\<rparr>
    \<and> queue_sim (en_cq E) rl rk (ex_queue (deliver E th ret v ex)) q1"
proof -
  let ?ex = "ex\<lparr>ex_rets := (ex_rets ex)[ret := \<lparr>rd_value = Some v, rd_waker = None\<rparr>]\<rparr>"
  have "queue_sim (en_cq E) rl rk (ex_queue ?ex) q" using assms(2) by simp
  from any_wake_sim [OF assms(1) this] assms(2) show ?thesis
    by (auto simp: deliver_def Let_def queue_last split: option.splits)
qed

lemma Task_poll_sim:
  assumes E: "env_ok E" and q: "queue_sim (en_cq E) rl rk (ex_queue ex) q"
    and poll: "Task_poll E th t ex = (r, t', ex1)"
  shows "\<exists>q1. Task_poll E th t (ex\<lparr>ex_queue := q\<rparr>) = (r, t', ex1\<lparr>ex_queue := q1\<rparr>)
    \<and> queue_sim (en_cq E) rl rk (ex_queue ex1) q1"
proof -
  let ?p = "en_poll E (tk_waker t) (tk_fut t)" and ?ex = "TaskWaker_to_sleep (tk_waker t) ex"
  obtain a ex2 where a: "run_prog E th ?p ?ex = (a, ex2)" by fastforce
  have "queue_sim (en_cq E) rl rk (ex_queue ?ex) q" using q by simp
  from run_prog_sim [OF E this a] obtain q2 where
      2: "run_prog E th ?p (TaskWaker_to_sleep (tk_waker t) (ex\<lparr>ex_queue := q\<rparr>)) = (a, ex2\<lparr>ex_queue := q2\<rparr>)"
        "queue_sim (en_cq E) rl rk (ex_queue ex2) q2"
    by (auto simp: TaskWaker_to_sleep_def queue_last)
  with a poll deliver_sim [OF E 2(2), of th "tk_ret t"] show ?thesis
    by (auto simp: Task_poll_def split: res.splits poll.splits)
qed

lemma poll_task_id_sim:
  assumes E: "env_ok E" and q: "queue_sim (en_cq E) rl rk (ex_queue ex) q"
    and poll: "poll_task_id E th v (b, ex) = (r, b', ex1)"
  shows "\<exists>q1. poll_task_id E th v (b, ex\<lparr>ex_queue := q\<rparr>) = (r, b', ex1\<lparr>ex_queue := q1\<rparr>)
    \<and> queue_sim (en_cq E) rl rk (ex_queue ex1) q1"
proof (cases "v = MAIN_TASK_ID \<or> ex_tasks ex v = None \<or> hd_cancelled (ex_handles ex ! tk_handle (the (ex_tasks ex v)))")
  case True
  then show ?thesis using q poll by (auto simp: poll_task_id_def queue_last split: if_splits option.splits)
next
  case False
  then obtain t where t: "v \<noteq> MAIN_TASK_ID" "ex_tasks ex v = Some t" "\<not> hd_cancelled (ex_handles ex ! tk_handle t)"
    by auto
  obtain a t' ex2 where a: "Task_poll E th t ex = (a, t', ex2)" by (metis prod_cases3)
  from Task_poll_sim [OF E q a] t a poll show ?thesis
    by (auto simp: poll_task_id_def queue_last split: res.splits poll.splits)
qed


section \<open>The two drains\<close>

abbreviation ex_get :: "bool \<times> ('f, 'v, 'a, 'o, 'c, 'x) executor \<Rightarrow> ('a, 'o, 'c) wake_queue" where
  "ex_get \<equiv> \<lambda>(main, ex). ex_queue ex"

abbreviation ex_put ::
  "('a, 'o, 'c) wake_queue \<Rightarrow> bool \<times> ('f, 'v, 'a, 'o, 'c, 'x) executor \<Rightarrow> bool \<times> ('f, 'v, 'a, 'o, 'c, 'x) executor" where
  "ex_put \<equiv> \<lambda>q (main, ex). (main, ex\<lparr>ex_queue := q\<rparr>)"

text \<open>
  The identifiers that are left when a callback ends the drain stay in front of the queue.
\<close>

lemma drain_local_sim:
  assumes "env_ok E"
  shows "queue_sim (en_cq E) rl rk (ex_queue ex) q \<Longrightarrow>
    drain_local ex_get ex_put (poll_task_id E th) (length rl) (b, ex) = (r, b', ex1) \<Longrightarrow>
    \<exists>q1 rl'. handle_ids (poll_task_id E th) rl (b, ex\<lparr>ex_queue := q\<rparr>) = (r, b', ex1\<lparr>ex_queue := q1\<rparr>)
      \<and> queue_sim (en_cq E) rl' rk (ex_queue ex1) q1 \<and> (r = Ok () \<longrightarrow> rl' = [])"
proof (induction rl arbitrary: b ex q)
  case (Cons v rl)
  have v: "wq_local (ex_queue ex) = v # rl @ wq_local q" using Cons.prems(1) by (simp add: queue_sim_def)
  let ?ex = "ex\<lparr>ex_queue := (ex_queue ex)\<lparr>wq_local := rl @ wq_local q\<rparr>\<rparr>"
  have sim: "queue_sim (en_cq E) rl rk (ex_queue ?ex) q" using Cons.prems(1) by (simp add: queue_sim_def)
  obtain a b2 ex2 where a: "poll_task_id E th v (b, ?ex) = (a, b2, ex2)" by (metis prod_cases3)
  from poll_task_id_sim [OF assms sim a] obtain q2 where
      2: "poll_task_id E th v (b, ex\<lparr>ex_queue := q\<rparr>) = (a, b2, ex2\<lparr>ex_queue := q2\<rparr>)"
        "queue_sim (en_cq E) rl rk (ex_queue ex2) q2" by auto
  with a v Cons.prems(2) Cons.IH [OF 2(2), of b2] show ?case by (cases a) auto
qed auto

lemma drain_con_sim:
  assumes "env_ok E"
  shows "queue_sim (en_cq E) [] rk (ex_queue ex) q \<Longrightarrow>
    drain_con (en_cq E) ex_get ex_put (poll_task_id E th) (length rk) (b, ex) = (r, b', ex1) \<Longrightarrow>
    \<exists>q1 rk'. handle_ids (poll_task_id E th) rk (b, ex\<lparr>ex_queue := q\<rparr>) = (r, b', ex1\<lparr>ex_queue := q1\<rparr>)
      \<and> queue_sim (en_cq E) [] rk' (ex_queue ex1) q1 \<and> (r = Ok () \<longrightarrow> rk' = [])"
proof (induction rk arbitrary: b ex q)
  case (Cons v rk)
  have "cq_items (en_cq E) (wq_con (ex_queue ex)) = v # rk @ cq_items (en_cq E) (wq_con q)"
    using Cons.prems(1) by (simp add: queue_sim_def)
  then obtain c where c: "cq_pop (en_cq E) (wq_con (ex_queue ex)) = (Some v, c)"
      "cq_items (en_cq E) c = rk @ cq_items (en_cq E) (wq_con q)"
    using cq_simps(3,4) [OF env_okD(2) [OF assms], of "wq_con (ex_queue ex)"]
    by (cases "cq_pop (en_cq E) (wq_con (ex_queue ex))") auto
  let ?ex = "ex\<lparr>ex_queue := (ex_queue ex)\<lparr>wq_con := c\<rparr>\<rparr>"
  have sim: "queue_sim (en_cq E) [] rk (ex_queue ?ex) q" using Cons.prems(1) c(2) by (simp add: queue_sim_def)
  obtain a b2 ex2 where a: "poll_task_id E th v (b, ?ex) = (a, b2, ex2)" by (metis prod_cases3)
  from poll_task_id_sim [OF assms sim a] obtain q2 where
      2: "poll_task_id E th v (b, ex\<lparr>ex_queue := q\<rparr>) = (a, b2, ex2\<lparr>ex_queue := q2\<rparr>)"
        "queue_sim (en_cq E) [] rk (ex_queue ex2) q2" by auto
  with a c(1) Cons.prems(2) Cons.IH [OF 2(2), of b2] show ?case by (cases a) auto
qed auto

lemma handle_ids_append:
  "handle_ids f (vs @ ws) s = (case handle_ids f vs s of (Ok _, s1) \<Rightarrow> handle_ids f ws s1 | r \<Rightarrow> r)"
  by (induction vs arbitrary: s) (auto split: prod.splits res.splits)

lemma poll_tasks_sim:
  assumes E: "env_ok E" and th: "wq_thread (ex_queue ex) = th" and poll: "poll_tasks E th ex = (r, ex1)"
  shows "\<exists>q1 rl rk. poll_tasks_reference E th ex = (r, ex1\<lparr>ex_queue := q1\<rparr>)
    \<and> queue_sim (en_cq E) rl rk (ex_queue ex1) q1 \<and> (\<forall>main. r = Ok main \<longrightarrow> rl = [] \<and> rk = [])"
proof -
  let ?f = "poll_task_id E th" and ?L = "wq_local (ex_queue ex)" and ?K = "cq_items (en_cq E) (wq_con (ex_queue ex))"
  let ?q = "emptied (en_cq E) (ex_queue ex)"
  have start: "queue_sim (en_cq E) ?L ?K (ex_queue ex) ?q"
    using cq_simps(1) [OF env_okD(2) [OF E]] by (simp add: queue_sim_def emptied_def)
  obtain r1 b2 ex2 where l: "drain_local ex_get ex_put ?f (length ?L) (False, ex) = (r1, b2, ex2)"
    by (metis prod_cases3)
  from drain_local_sim [OF E start l] obtain q2 rl where
      2: "handle_ids ?f ?L (False, ex\<lparr>ex_queue := ?q\<rparr>) = (r1, b2, ex2\<lparr>ex_queue := q2\<rparr>)"
        "queue_sim (en_cq E) rl ?K (ex_queue ex2) q2" "r1 = Ok () \<longrightarrow> rl = []" by blast
  have len: "cq_len (en_cq E) (wq_con (ex_queue ex)) = length ?K" by (rule cq_simps(5) [OF env_okD(2) [OF E]])
  show ?thesis
  proof (cases "r1 = Ok ()")
    case True
    obtain r3 b3 ex3 where c: "drain_con (en_cq E) ex_get ex_put ?f (length ?K) (b2, ex2) = (r3, b3, ex3)"
      by (metis prod_cases3)
    have "queue_sim (en_cq E) [] ?K (ex_queue ex2) q2" using 2(2,3) True by simp
    from drain_con_sim [OF E this c] obtain q3 rk where
        3: "handle_ids ?f ?K (b2, ex2\<lparr>ex_queue := q2\<rparr>) = (r3, b3, ex3\<lparr>ex_queue := q3\<rparr>)"
          "queue_sim (en_cq E) [] rk (ex_queue ex3) q3" "r3 = Ok () \<longrightarrow> rk = []" by blast
    have "(r, ex1) = (bind_res r3 (\<lambda>_. Ok b3), ex3)"
      using poll th l c len True by (simp add: poll_tasks_def WakeQueue_drain_for_each_def Let_def)
    moreover have "poll_tasks_reference E th ex = (bind_res r3 (\<lambda>_. Ok b3), ex3\<lparr>ex_queue := q3\<rparr>)"
      using 2(1) 3(1) True by (simp add: poll_tasks_reference_def wq_items_def handle_ids_append)
    ultimately show ?thesis using 3(2,3) by (cases r3) auto
  next
    case False
    then have "(r, ex1) = (bind_res r1 (\<lambda>_. Ok b2), ex2)"
      using poll th l by (cases r1) (simp_all add: poll_tasks_def WakeQueue_drain_for_each_def Let_def)
    moreover have "poll_tasks_reference E th ex = (bind_res r1 (\<lambda>_. Ok b2), ex2\<lparr>ex_queue := q2\<rparr>)"
      using 2(1) False by (cases r1) (simp_all add: poll_tasks_reference_def wq_items_def handle_ids_append)
    ultimately show ?thesis using 2(2) False by (cases r1) auto
  qed
qed


section \<open>A queued task is reached\<close>

lemma poll_task_id_Ok:
  assumes "env_ok E" "\<not> ex_borrowed ex"
  shows "\<exists>b' ex'. poll_task_id E th v (b, ex) = (Ok (), b', ex')"
proof (cases "ex_tasks ex v")
  case (Some t)
  obtain p t' ex' where "Task_poll E th t ex = (Ok p, t', ex')" using Task_poll_Ok [OF assms] by blast
  with Some show ?thesis by (cases p) (auto simp: poll_task_id_def)
qed (auto simp: poll_task_id_def)

lemma handle_ids_other:
  assumes "env_ok E"
  shows "\<not> ex_borrowed ex \<Longrightarrow> i \<notin> set vs \<Longrightarrow> \<exists>b' ex'. handle_ids (poll_task_id E th) vs (b, ex) = (Ok (), b', ex')
    \<and> ex_tasks ex' i = ex_tasks ex i"
proof (induction vs arbitrary: b ex)
  case (Cons v vs)
  obtain b1 ex1 where v: "poll_task_id E th v (b, ex) = (Ok (), b1, ex1)"
    using poll_task_id_Ok [OF assms Cons.prems(1)] by blast
  note F = poll_task_id_frame [OF assms Cons.prems(1) v]
  then have "\<not> ex_borrowed ex1" using Cons.prems(1) by (simp add: grown_def)
  with Cons.IH [of ex1 b1] Cons.prems(2) v F show ?case by auto
qed simp

text \<open>
  The next \<open>poll_tasks\<close>, by its reference, comes to the task \<open>t\<close> at \<open>i\<close>: the identifiers before
  it are handled without a panic and the task is still there.
\<close>

definition task_reached ::
  "('f, 'v, 'a, 'o, 'c, 'x) env \<Rightarrow> thread_id \<Rightarrow> 'o \<Rightarrow> usize \<Rightarrow> 'f task \<Rightarrow> ('f, 'v, 'a, 'o, 'c, 'x) executor \<Rightarrow> bool" where
  "task_reached E th cx i t ex \<longleftrightarrow>
     (\<exists>pre post b ex1. wq_items (en_cq E) (ex_queue ex) = pre @ i # post
        \<and> handle_ids (poll_task_id E th) pre (False, (register_base_waker E cx ex)\<lparr>ex_queue :=
              emptied (en_cq E) (ex_queue (register_base_waker E cx ex))\<rparr>) = (Ok (), b, ex1)
        \<and> ex_tasks ex1 i = Some t)"

lemma queued_task_reached:
  assumes "env_ok E" "exec_ok E th n ex" "ex_tasks ex i = Some t"
    "i \<in> set (wq_items (en_cq E) (ex_queue ex))"
  shows "task_reached E th cx i t ex"
proof -
  obtain pre post where pre: "wq_items (en_cq E) (ex_queue ex) = pre @ i # post" "i \<notin> set pre"
    using split_list_first [OF assms(4)] by blast
  let ?ex = "(register_base_waker E cx ex)\<lparr>ex_queue := emptied (en_cq E) (ex_queue (register_base_waker E cx ex))\<rparr>"
  have "\<not> ex_borrowed ?ex" "ex_tasks ?ex i = Some t"
    using assms(2,3) by (simp_all add: exec_ok_def register_base_waker_def)
  with handle_ids_other [OF assms(1) _ pre(2), of ?ex th False] pre(1) show ?thesis
    unfolding task_reached_def by fastforce
qed

section \<open>Properties\<close>

text \<open>
  C9: \<open>poll_tasks\<close> is equivalent to its reference: whatever wakes the futures and other threads
  queue while it runs, it handles exactly the identifiers that the two queues held at its
  start, those of the executor's thread first, each in the order of its queue and as often
  as it was queued. The result is the same, a panic included, and the executor is the same
  but for the representation of the queues: they hold the wakes that have come in, behind
  the identifiers not yet handled in case of a panic.
\<close>

theorem poll_tasks_equivalent:
  assumes "env_ok E" and "wq_thread (ex_queue ex) = th"
  shows "\<exists>r ex1 q1 rl rk. poll_tasks E th ex = (r, ex1)
    \<and> poll_tasks_reference E th ex = (r, ex1\<lparr>ex_queue := q1\<rparr>)
    \<and> queue_sim (en_cq E) rl rk (ex_queue ex1) q1 \<and> (\<forall>main. r = Ok main \<longrightarrow> rl = [] \<and> rk = [])"
proof -
  obtain r ex1 where "poll_tasks E th ex = (r, ex1)" by fastforce
  with poll_tasks_sim [OF assms this] show ?thesis by blast
qed

theorem poll_tasks_equivalent_witness:
  "\<exists>ex1 q1. poll_tasks demo_env 0 demo_pending = (Ok False, ex1)
     \<and> poll_tasks_reference demo_env 0 demo_pending = (Ok False, ex1\<lparr>ex_queue := q1\<rparr>)
     \<and> wq_items list_queue (ex_queue ex1) = [0]"
proof -
  have th: "wq_thread (ex_queue demo_pending) = 0" by (simp add: demo_pending_def)
  have "fst (poll_tasks demo_env 0 demo_pending) = Ok False"
    "wq_items list_queue (ex_queue (snd (poll_tasks demo_env 0 demo_pending))) = [0]"
    by (simp_all add: demo_pending_def demo_env_def demo_poll_def exec_eval MAIN_not_0 wq_items_def)
  with poll_tasks_equivalent [OF demo_env_ok th] show ?thesis by auto
qed

end
