(* ===== verification/Wake_Protocol.thy ===== *)
theory Wake_Protocol
  imports Reactor
begin

text \<open>
  The loop of \<open>block_on\<close> (\<open>src/src/lib.rs\<close>) and the notification protocol between it,
  \<open>Reactor::wait\<close> and the wakers of other threads (\<open>src/src/reactor.rs\<close>), at the level of
  single operations on the shared flag and the notifier's descriptor. Memory is
  sequentially consistent; the descriptor is readable or not.
\<close>

section \<open>The loop of block\_on\<close>

text \<open>
  The future is a parameter: one poll uses the reactor and the notifier's world, and may not
  return, which is \<open>None\<close>. An error of \<open>wait\<close> is logged and the loop goes on; a loop that does
  not end is \<open>None\<close> too.
\<close>

type_synonym ('f, 'p, 'w, 'k, 'v) main_future =
  "'f \<Rightarrow> ('p, 'w) reactor \<Rightarrow> 'k nworld \<Rightarrow> ('v poll \<times> 'f \<times> ('p, 'w) reactor \<times> 'k nworld) option"

partial_function (option) block_on ::
  "('p, 'k) event_poller \<Rightarrow> 'k os \<Rightarrow> 'k notifier_fd \<Rightarrow> ('w \<Rightarrow> 'k nworld \<Rightarrow> 'k nworld) \<Rightarrow>
     ('f, 'p, 'w, 'k, 'v) main_future \<Rightarrow> 'f \<Rightarrow> ('p, 'w) reactor \<Rightarrow> 'k nworld \<Rightarrow>
     ('v res \<times> ('p, 'w) reactor \<times> 'k nworld) option" where
  "block_on EP os N wake F f r n =
     Option.bind (F f r n) (\<lambda>(p, f', r1, n1).
       (case p of
          Ready out \<Rightarrow> Some (Ok out, r1, n1)
        | Pending \<Rightarrow>
            (case Reactor_wait EP os N wake r1 n1 of
               (Panic m, r2, n2) \<Rightarrow> Some (Panic m, r2, n2)
             | (Err e, r2, n2) \<Rightarrow> block_on EP os N wake F f' r2 n2
             | (Ok _, r2, n2) \<Rightarrow> block_on EP os N wake F f' r2 n2)))"

section \<open>The notification protocol\<close>

text \<open>
  The local thread: polling the future; before \<open>is_notified\<close> in \<open>wait\<close>; in the poll system
  call; after \<open>set_to_notified\<close> or having skipped the poll, calling wakers of events and
  timers; before the clear of the descriptor; before the store of the flag. A remote
  thread that wakes the future has published what the future waits for and is before the
  \<open>compare_exchange\<close> of \<open>notify\<close>, or before the write to the descriptor.
\<close>

datatype lpc = LPoll | LCheck | LBlocked | LDispatch | LClear | LStore
datatype rpc = RIdle | RCas | RWrite

text \<open>\<open>ps_work\<close>: something was published for the future since it was last polled.\<close>

record psys =
  ps_lpc :: lpc
  ps_rpc :: "nat \<Rightarrow> rpc"
  ps_flag :: bool
  ps_readable :: bool
  ps_work :: bool

text \<open>A wake on the local thread, \<open>notify\<close> without interleaving.\<close>

definition local_wake :: "psys \<Rightarrow> psys" where
  "local_wake s =
     (let s1 = s\<lparr>ps_work := True\<rparr>
      in if ps_flag s1 then s1 else s1\<lparr>ps_flag := True, ps_readable := True\<rparr>)"

inductive lstep :: "psys \<Rightarrow> psys \<Rightarrow> bool" where
  poll_pending: "ps_lpc s = LPoll \<Longrightarrow> lstep s (s\<lparr>ps_lpc := LCheck, ps_work := False\<rparr>)"
| poll_self_wake: "ps_lpc s = LPoll \<Longrightarrow> lstep s (local_wake (s\<lparr>ps_lpc := LCheck, ps_work := False\<rparr>))"
| check_skip: "ps_lpc s = LCheck \<Longrightarrow> ps_flag s \<or> timer_due \<Longrightarrow> lstep s (s\<lparr>ps_lpc := LDispatch\<rparr>)"
| check_block: "ps_lpc s = LCheck \<Longrightarrow> \<not> ps_flag s \<Longrightarrow> lstep s (s\<lparr>ps_lpc := LBlocked\<rparr>)"
| poll_returns: "ps_lpc s = LBlocked \<Longrightarrow> ps_readable s \<or> source_ready \<Longrightarrow>
    lstep s (s\<lparr>ps_lpc := LDispatch, ps_flag := True\<rparr>)"
| dispatch_wake: "ps_lpc s = LDispatch \<Longrightarrow> lstep s (local_wake s)"
| dispatch_done: "ps_lpc s = LDispatch \<Longrightarrow> lstep s (s\<lparr>ps_lpc := LClear\<rparr>)"
| clear_fd: "ps_lpc s = LClear \<Longrightarrow> lstep s (s\<lparr>ps_lpc := LStore, ps_readable := False\<rparr>)"
| clear_flag: "ps_lpc s = LStore \<Longrightarrow> lstep s (s\<lparr>ps_lpc := LPoll, ps_flag := False\<rparr>)"

inductive rstep :: "psys \<Rightarrow> psys \<Rightarrow> bool" where
  publish: "ps_rpc s i = RIdle \<Longrightarrow> rstep s (s\<lparr>ps_rpc := (ps_rpc s)(i := RCas), ps_work := True\<rparr>)"
| cas_ok: "ps_rpc s i = RCas \<Longrightarrow> \<not> ps_flag s \<Longrightarrow>
    rstep s (s\<lparr>ps_rpc := (ps_rpc s)(i := RWrite), ps_flag := True\<rparr>)"
| cas_fail: "ps_rpc s i = RCas \<Longrightarrow> ps_flag s \<Longrightarrow> rstep s (s\<lparr>ps_rpc := (ps_rpc s)(i := RIdle)\<rparr>)"
| write_fd: "ps_rpc s i = RWrite \<Longrightarrow>
    rstep s (s\<lparr>ps_rpc := (ps_rpc s)(i := RIdle), ps_readable := True\<rparr>)"

inductive_cases lstep_cases: "lstep s s'"
inductive_cases rstep_cases: "rstep s s'"

definition pstep :: "psys \<Rightarrow> psys \<Rightarrow> bool" where
  "pstep s s' \<longleftrightarrow> lstep s s' \<or> rstep s s'"

definition pinit :: "psys \<Rightarrow> bool" where
  "pinit s \<longleftrightarrow> ps_lpc s = LPoll \<and> ps_rpc s = (\<lambda>_. RIdle) \<and> \<not> ps_flag s \<and> \<not> ps_readable s"

text \<open>What the local thread needs to come back to polling the future.\<close>

definition will_poll :: "psys \<Rightarrow> bool" where
  "will_poll s \<longleftrightarrow> (case ps_lpc s of
     LCheck \<Rightarrow> ps_flag s | LBlocked \<Rightarrow> ps_readable s \<or> (\<exists>i. ps_rpc s i = RWrite) | _ \<Rightarrow> True)"

definition pinv :: "psys \<Rightarrow> bool" where
  "pinv s \<longleftrightarrow> (ps_work s \<longrightarrow> (\<exists>i. ps_rpc s i = RCas) \<or> will_poll s)
     \<and> (ps_lpc s = LBlocked \<and> ps_flag s \<longrightarrow> ps_readable s \<or> (\<exists>i. ps_rpc s i = RWrite))"

lemma pinv_lstep: "lstep s s' \<Longrightarrow> pinv s \<Longrightarrow> pinv s'"
  by (erule lstep_cases) (auto simp: pinv_def will_poll_def local_wake_def Let_def)

lemma pinv_rstep: "rstep s s' \<Longrightarrow> pinv s \<Longrightarrow> pinv s'"
proof (erule rstep_cases, goal_cases)
  case (1 i)
  have "ps_rpc s' i = RCas" "ps_lpc s' = ps_lpc s" "ps_flag s' = ps_flag s" "ps_readable s' = ps_readable s"
    using 1 by simp_all
  moreover have "ps_rpc s j = RWrite \<Longrightarrow> ps_rpc s' j = RWrite" for j using 1 by auto
  ultimately show ?case using 1(1) unfolding pinv_def by metis
next
  case (2 i)
  have "ps_rpc s' i = RWrite" using 2 by simp
  then show ?case using 2 unfolding pinv_def will_poll_def by (cases "ps_lpc s") auto
next
  case (3 i)
  have f: "ps_lpc s' = ps_lpc s" "ps_flag s'" "ps_flag s" "ps_readable s' = ps_readable s" using 3 by simp_all
  have "ps_rpc s j = RWrite \<Longrightarrow> ps_rpc s' j = RWrite" for j using 3 by auto
  then have "ps_lpc s' = LBlocked \<longrightarrow> ps_readable s' \<or> (\<exists>j. ps_rpc s' j = RWrite)"
    using 3(1) f unfolding pinv_def by metis
  then show ?case using f(2) unfolding pinv_def will_poll_def by (cases "ps_lpc s'") auto
next
  case (4 i)
  have f: "ps_lpc s' = ps_lpc s" "ps_flag s' = ps_flag s" "ps_readable s'" "ps_work s' = ps_work s"
    using 4 by simp_all
  have "ps_rpc s j = RCas \<Longrightarrow> ps_rpc s' j = RCas" for j using 4 by auto
  then have "ps_work s' \<and> ps_lpc s' = LCheck \<longrightarrow> ps_flag s' \<or> (\<exists>j. ps_rpc s' j = RCas)"
    using 4(1) f unfolding pinv_def will_poll_def by auto
  then show ?case using f(3) unfolding pinv_def will_poll_def by (cases "ps_lpc s'") auto
qed

lemma pinv_pinit: "pinit s \<Longrightarrow> pinv s"
  by (simp add: pinit_def pinv_def will_poll_def)

interpretation psystem: step_system pinit pstep pinv
proof unfold_locales
  show "pinit s \<Longrightarrow> pinv s" for s by (rule pinv_pinit)
  show "pinv s \<Longrightarrow> pstep s t \<Longrightarrow> pinv t" for s t
    unfolding pstep_def using pinv_lstep pinv_rstep by blast
qed

section \<open>Properties\<close>

lemma local_return:
  assumes "ps_work s" "case ps_lpc s of LCheck \<Rightarrow> ps_flag s | LBlocked \<Rightarrow> ps_readable s | _ \<Rightarrow> True"
  shows "\<exists>s'. lstep\<^sup>*\<^sup>* s s' \<and> ps_lpc s' = LPoll \<and> ps_work s'"
proof -
  have store: "\<exists>s'. lstep\<^sup>*\<^sup>* s s' \<and> ps_lpc s' = LPoll \<and> ps_work s'" if "ps_lpc s = LStore" "ps_work s" for s
    using lstep.clear_flag [OF that(1)] that(2)
    by (intro exI [of _ "s\<lparr>ps_lpc := LPoll, ps_flag := False\<rparr>"]) auto
  have clear: "\<exists>s'. lstep\<^sup>*\<^sup>* s s' \<and> ps_lpc s' = LPoll \<and> ps_work s'" if "ps_lpc s = LClear" "ps_work s" for s
    using lstep.clear_fd [OF that(1)] store [of "s\<lparr>ps_lpc := LStore, ps_readable := False\<rparr>"] that(2)
    by (auto intro: converse_rtranclp_into_rtranclp)
  have disp: "\<exists>s'. lstep\<^sup>*\<^sup>* s s' \<and> ps_lpc s' = LPoll \<and> ps_work s'" if "ps_lpc s = LDispatch" "ps_work s" for s
    using lstep.dispatch_done [OF that(1)] clear [of "s\<lparr>ps_lpc := LClear\<rparr>"] that(2)
    by (auto intro: converse_rtranclp_into_rtranclp)
  show ?thesis
  proof (cases "ps_lpc s")
    case LCheck
    then have "lstep s (s\<lparr>ps_lpc := LDispatch\<rparr>)" using assms(2) lstep.check_skip by auto
    then show ?thesis using disp [of "s\<lparr>ps_lpc := LDispatch\<rparr>"] assms(1)
      by (auto intro: converse_rtranclp_into_rtranclp)
  next
    case LBlocked
    then have "lstep s (s\<lparr>ps_lpc := LDispatch, ps_flag := True\<rparr>)" using assms(2) lstep.poll_returns by auto
    then show ?thesis using disp [of "s\<lparr>ps_lpc := LDispatch, ps_flag := True\<rparr>"] assms(1)
      by (auto intro: converse_rtranclp_into_rtranclp)
  qed (use assms disp clear store in auto)
qed

text \<open>
  C2: No notification is lost. In every interleaving of the local thread's loop with any
  number of threads that wake its future, once the wakers have returned from \<open>notify\<close> and
  something published is not yet seen by the future, the local thread is not stuck in the
  poll system call (the notifier's descriptor is readable), and by its own steps alone it
  comes back to polling the future with the news still there.
\<close>

theorem no_lost_notification:
  assumes "reachable pinit pstep s" "ps_work s" "\<forall>i. ps_rpc s i = RIdle"
  shows "(ps_lpc s = LBlocked \<longrightarrow> ps_readable s) \<and>
    (\<exists>s'. lstep\<^sup>*\<^sup>* s s' \<and> ps_lpc s' = LPoll \<and> ps_work s')"
proof -
  have "pinv s" by (rule psystem.reachable_inv [OF assms(1)])
  then have "will_poll s" using assms(2,3) by (auto simp: pinv_def)
  then have w: "case ps_lpc s of LCheck \<Rightarrow> ps_flag s | LBlocked \<Rightarrow> ps_readable s | _ \<Rightarrow> True"
    using assms(3) by (auto simp: will_poll_def split: lpc.splits)
  show ?thesis using local_return [OF assms(2) w] w by (auto split: lpc.splits)
qed

text \<open>The local thread blocks, then thread 0 publishes and notifies.\<close>

definition psys_start :: psys where
  "psys_start = \<lparr>ps_lpc = LPoll, ps_rpc = (\<lambda>_. RIdle), ps_flag = False, ps_readable = False, ps_work = False\<rparr>"

definition psys_notified :: psys where
  "psys_notified = \<lparr>ps_lpc = LBlocked, ps_rpc = (\<lambda>_. RIdle), ps_flag = True, ps_readable = True, ps_work = True\<rparr>"

lemma psys_notified_reachable: "reachable pinit pstep psys_notified"
proof -
  have 0: "reachable pinit pstep psys_start" by (rule reach_init) (simp add: pinit_def psys_start_def)
  let ?s1 = "psys_start\<lparr>ps_lpc := LCheck\<rparr>" and ?s2 = "psys_start\<lparr>ps_lpc := LBlocked\<rparr>"
  let ?s3 = "?s2\<lparr>ps_rpc := (\<lambda>_. RIdle)(0 := RCas), ps_work := True\<rparr>"
  let ?s4 = "?s3\<lparr>ps_rpc := (\<lambda>_. RIdle)(0 := RWrite), ps_flag := True\<rparr>"
  have "pstep psys_start ?s1" using lstep.poll_pending [of psys_start] by (simp add: pstep_def psys_start_def)
  moreover have "pstep ?s1 ?s2" using lstep.check_block [of ?s1] by (simp add: pstep_def psys_start_def)
  moreover have "pstep ?s2 ?s3" using rstep.publish [of ?s2 0] by (simp add: pstep_def psys_start_def)
  moreover have "pstep ?s3 ?s4" using rstep.cas_ok [of ?s3 0] by (simp add: pstep_def psys_start_def)
  moreover have "pstep ?s4 psys_notified"
    using rstep.write_fd [of ?s4 0] by (simp add: pstep_def psys_start_def psys_notified_def fun_upd_idem)
  ultimately show ?thesis using 0 by (meson reach_step)
qed

theorem no_lost_notification_witness:
  "\<exists>s'. lstep\<^sup>*\<^sup>* psys_notified s' \<and> ps_lpc s' = LPoll \<and> ps_work s'"
  using no_lost_notification [OF psys_notified_reachable] by (simp add: psys_notified_def)

text \<open>
  The operations of \<open>WithFlag\<close> on a descriptor that is readable or not, and the protocol's
  state seen as the notifier's.
\<close>

definition bool_notifier :: "bool notifier_fd" where
  "bool_notifier = \<lparr>nf_clear = (\<lambda>_. (Ok (), False)), nf_notify = (\<lambda>_. (Ok (), True)), nf_raw_fd = 3\<rparr>"

definition notifier_view :: "psys \<Rightarrow> bool nworld" where
  "notifier_view s = \<lparr>kernel = ps_readable s, is_notified = ps_flag s\<rparr>"

text \<open>
  The protocol's single steps are the steps of the notifier's operations: a remote
  \<open>compare_exchange\<close> with its write, uninterrupted, is \<open>Notifier::wake\<close>, and so is a local
  wake; the return from the poll is \<open>set_to_notified\<close>; the two clearing steps are
  \<open>WithFlag::clear\<close>; and every other local step leaves the notifier alone.
\<close>

lemma protocol_refines_notifier:
  "(ps_rpc s i = RCas \<longrightarrow> (\<exists>s'. rstep\<^sup>*\<^sup>* s s' \<and> ps_rpc s' i = RIdle \<and>
       notifier_view s' = Notifier_wake bool_notifier (notifier_view s)))
   \<and> notifier_view (local_wake s) = Notifier_wake bool_notifier (notifier_view s)
   \<and> (ps_lpc s = LBlocked \<longrightarrow> lstep s t \<longrightarrow> notifier_view t = WithFlag_set_to_notified (notifier_view s))
   \<and> (ps_lpc s = LClear \<longrightarrow> lstep s t \<longrightarrow> lstep t u \<longrightarrow>
       notifier_view u = snd (WithFlag_clear bool_notifier (notifier_view s)))"
proof (intro conjI impI)
  assume i: "ps_rpc s i = RCas"
  show "\<exists>s'. rstep\<^sup>*\<^sup>* s s' \<and> ps_rpc s' i = RIdle \<and>
       notifier_view s' = Notifier_wake bool_notifier (notifier_view s)"
  proof (cases "ps_flag s")
    case True
    then show ?thesis using rstep.cas_fail [OF i]
      by (intro exI [of _ "s\<lparr>ps_rpc := (ps_rpc s)(i := RIdle)\<rparr>"])
        (auto simp: notifier_view_def notifier_defs)
  next
    case False
    let ?s1 = "s\<lparr>ps_rpc := (ps_rpc s)(i := RWrite), ps_flag := True\<rparr>"
    let ?s2 = "?s1\<lparr>ps_rpc := (ps_rpc ?s1)(i := RIdle), ps_readable := True\<rparr>"
    have "rstep s ?s1" "rstep ?s1 ?s2" using rstep.cas_ok [OF i False] rstep.write_fd [of ?s1 i] by simp_all
    then have "rstep\<^sup>*\<^sup>* s ?s2" by (meson r_into_rtranclp rtranclp.rtrancl_into_rtrancl)
    then show ?thesis using False
      by (intro exI [of _ ?s2]) (auto simp: notifier_view_def notifier_defs bool_notifier_def)
  qed
next
  show "notifier_view (local_wake s) = Notifier_wake bool_notifier (notifier_view s)"
    by (simp add: notifier_view_def notifier_defs bool_notifier_def local_wake_def Let_def)
next
  assume "ps_lpc s = LBlocked" "lstep s t"
  then show "notifier_view t = WithFlag_set_to_notified (notifier_view s)"
    by (elim lstep_cases) (auto simp: notifier_view_def notifier_defs)
next
  assume s: "ps_lpc s = LClear" "lstep s t" "lstep t u"
  have t: "t = s\<lparr>ps_lpc := LStore, ps_readable := False\<rparr>" using s(1,2) by (elim lstep_cases) auto
  then have "u = t\<lparr>ps_lpc := LPoll, ps_flag := False\<rparr>" using s(3) by (elim lstep_cases) auto
  then show "notifier_view u = snd (WithFlag_clear bool_notifier (notifier_view s))"
    using t by (simp add: notifier_view_def notifier_defs bool_notifier_def)
qed

lemma protocol_refines_notifier_witness:
  "notifier_view (local_wake psys_start) = \<lparr>kernel = True, is_notified = True\<rparr>"
  using protocol_refines_notifier [of psys_start 0 psys_start psys_start]
  by (simp add: notifier_view_def psys_start_def notifier_defs bool_notifier_def)

lemma block_on_skip:
  assumes "F f r n = Some (Pending, f', r1, n1)" "sys_now os (kernel n1) = (now, k)"
    "is_notified n1 \<or> TimerQueue_next_timeout now (timer_queue r1) = Some 0"
  shows "\<exists>r2 n2. wait_finish os N wake r1 (n1\<lparr>kernel := k\<rparr>) = (Ok (), r2, n2) \<and> \<not> is_notified n2
    \<and> (\<forall>EP. block_on EP os N wake F f r n = block_on EP os N wake F f' r2 n2)"
proof -
  obtain q r2 n2 where w: "wait_finish os N wake r1 (n1\<lparr>kernel := k\<rparr>) = (q, r2, n2)" by (metis prod_cases3)
  then have q: "q = Ok ()" "\<not> is_notified n2"
    using wait_finish_Ok [of os N wake r1 "n1\<lparr>kernel := k\<rparr>"] wait_finish_flag [of os N wake r1 "n1\<lparr>kernel := k\<rparr>"]
    by simp_all
  have "Reactor_wait EP os N wake r1 n1 = (Ok (), r2, n2)" for EP
    using Reactor_wait_skip [OF assms(2), of r1 EP N wake] assms(3) w q by auto
  then have "block_on EP os N wake F f r n = block_on EP os N wake F f' r2 n2" for EP
    using assms(1) by (subst block_on.simps) simp
  then show ?thesis using w q by auto
qed

text \<open>
  When the future of \<open>block_on\<close> is pending and has woken itself, or a timer is already
  due, the loop does not block: whatever the poller, it is not called, the due timers are
  woken, the notification is cleared, and the future is polled again.
\<close>

theorem block_on_no_block:
  assumes "F f r n = Some (Pending, f', r1, n1)" "sys_now os (kernel n1) = (now, k)"
    "is_notified n1 \<or> TimerQueue_next_timeout now (timer_queue r1) = Some 0"
  shows "\<exists>r2 n2. wait_finish os N wake r1 (n1\<lparr>kernel := k\<rparr>) = (Ok (), r2, n2) \<and> \<not> is_notified n2
    \<and> (\<forall>EP. block_on EP os N wake F f r n = block_on EP os N wake F f' r2 n2)"
  using assms by (rule block_on_skip)

text \<open>A future that wakes itself once and is then ready.\<close>

definition twice :: "(nat, unit, nat, unit, nat) main_future" where
  "twice f r n = Some (if f = 0 then (Ready 9, 0, r, n)
     else (Pending, f - 1, r, Notifier_wake busy_notifier n))"

theorem block_on_no_block_witness:
  "\<forall>EP. \<exists>r2 n2. block_on EP busy_os busy_notifier (\<lambda>w n. n) twice 1 (Reactor_new ()) idle_world = Some (Ok 9, r2, n2)"
proof -
  let ?n1 = "Notifier_wake busy_notifier idle_world"
  have 1: "twice 1 (Reactor_new ()) idle_world = Some (Pending, 0, Reactor_new (), ?n1)"
    by (simp add: twice_def)
  have 2: "sys_now busy_os (kernel ?n1) = (0, ())" "is_notified ?n1"
    using notif.raise_flag [of busy_notifier idle_world] by (simp_all add: busy_os_def)
  obtain r2 n2 where "\<forall>EP. block_on EP busy_os busy_notifier (\<lambda>w n. n) twice 1 (Reactor_new ()) idle_world =
      block_on EP busy_os busy_notifier (\<lambda>w n. n) twice 0 r2 n2"
    using block_on_no_block [of twice 1 "Reactor_new ()" idle_world, OF 1 2(1) disjI1 [OF 2(2)], of busy_notifier "\<lambda>w n. n"]
    by blast
  then show ?thesis by (auto simp: twice_def block_on.simps)
qed

text \<open>
  \<open>block_on\<close> returns the output of its future whenever its polls return, it completes after
  finitely many polls and \<open>wait\<close> does not panic, also when \<open>wait\<close> fails with an error in
  between: such an error neither ends the loop nor loses the future's state.
\<close>

lemma block_on_returns:
  fixes measure_f :: "'f \<Rightarrow> nat" and F :: "('f, 'p, 'w, 'k, 'v) main_future"
  assumes "\<forall>f r n. \<exists>p f' r' n'. F f r n = Some (p, f', r', n') \<and> (p = Pending \<longrightarrow> measure_f f' < measure_f f)"
    "\<forall>r n. \<not> is_panic (fst (Reactor_wait EP os N wake r n))"
  shows "\<exists>v r' n'. block_on EP os N wake F f r n = Some (Ok v, r', n')"
proof (induction "measure_f f" arbitrary: f r n rule: less_induct)
  case less
  obtain p f' r1 n1 where F: "F f r n = Some (p, f', r1, n1)"
    and dec: "p = Pending \<Longrightarrow> measure_f f' < measure_f f"
    using assms(1) by meson
  obtain q r2 n2 where w: "Reactor_wait EP os N wake r1 n1 = (q, r2, n2)" by (metis prod_cases3)
  have q: "\<not> is_panic q" using assms(2) w by (metis fst_conv)
  show ?case
  proof (cases p)
    case (Ready v)
    then show ?thesis using F by (subst block_on.simps) simp
  next
    case Pending
    from less [OF dec [OF this], of r2 n2] show ?thesis
      using F w q Pending by (subst block_on.simps) (cases q; auto)
  qed
qed

text \<open>A poller that always fails.\<close>

definition broken_poller :: "(unit, unit) event_poller" where
  "broken_poller = \<lparr>ep_register = (\<lambda>s p. (Ok (), p)), ep_modify = (\<lambda>s f p. (Ok (), p)),
     ep_deregister = (\<lambda>s p. (Ok (), p)), ep_poll = (\<lambda>t evs p k. (Err (Os 4), p, k))\<rparr>"

definition countdown_future :: "(nat, unit, nat, unit, nat) main_future" where
  "countdown_future f r n = Some (if f = 0 then (Ready 9, 0, r, n) else (Pending, f - 1, r, n))"

lemma block_on_returns_witness:
  "\<exists>v r' n'. block_on broken_poller busy_os busy_notifier (\<lambda>w n. n) countdown_future 3 (Reactor_new ()) idle_world =
     Some (Ok v, r', n')"
proof -
  have 1: "\<forall>f r n. \<exists>p f' r' n'. countdown_future f r n = Some (p, f', r', n') \<and> (p = Pending \<longrightarrow> id f' < id f)"
    by (simp add: countdown_future_def)
  have "\<not> is_panic (fst (Reactor_wait broken_poller busy_os busy_notifier (\<lambda>w n. n) r n))" for r n
  proof (cases "TimerQueue_next_timeout 0 (timer_queue r) = Some 0 \<or> is_notified n")
    case True
    have now: "sys_now busy_os (kernel n) = (0, ())" by (simp add: busy_os_def)
    show ?thesis using Reactor_wait_skip [OF now True, of broken_poller busy_notifier "\<lambda>w n. n"]
      wait_finish_Ok [of busy_os busy_notifier "\<lambda>w n. n" r "n\<lparr>kernel := ()\<rparr>"] by simp
  next
    case False
    then show ?thesis by (simp add: Reactor_wait_def broken_poller_def busy_os_def)
  qed
  then have 2: "\<forall>r n. \<not> is_panic (fst (Reactor_wait broken_poller busy_os busy_notifier (\<lambda>w n. n) r n))" by blast
  show ?thesis by (rule block_on_returns [OF 1 2])
qed

end
