(* ===== verification/Async_IO.thy ===== *)
theory Async_IO
  imports Reactor
begin

text \<open>
  \<open>Async\<close> of \<open>src/src/io.rs\<close>: an I/O object registered with the thread's reactor. An
  operation takes the reactor and the kernel and returns them changed. The outcome of a
  poll is a value of \<open>Poll\<close> over an outcome, as in \<open>Poll<io::Result<P>>\<close>; a poll that
  panics has the outcome \<open>Ready (Panic _)\<close>. The object that is wrapped is an argument: its
  descriptor, what dropping it does, and its \<open>Read\<close>, \<open>Write\<close> and \<open>BufRead\<close> methods.
\<close>

section \<open>The wrapped object\<close>

text \<open>\<open>AsFd\<close> and \<open>Drop\<close> of the wrapped type.\<close>

record ('t, 'k) io_handle =
  h_as_fd :: "'t \<Rightarrow> fd"
  h_drop :: "'t \<Rightarrow> 'k \<Rightarrow> 'k"

text \<open>
  \<open>Read\<close>, \<open>Write\<close> and \<open>BufRead\<close>. A read takes the length of the buffer and returns the
  bytes it has put there, whose number is what the method returns.
\<close>

type_synonym bytes = "8 word list"

record ('t, 'k) read_impl =
  rd_read :: "nat \<Rightarrow> 't \<Rightarrow> 'k \<Rightarrow> (io_error + bytes) \<times> 't \<times> 'k"

record ('t, 'k) write_impl =
  wr_write :: "bytes \<Rightarrow> 't \<Rightarrow> 'k \<Rightarrow> (io_error + nat) \<times> 't \<times> 'k"
  wr_flush :: "'t \<Rightarrow> 'k \<Rightarrow> (io_error + unit) \<times> 't \<times> 'k"

record ('t, 'k) bufread_impl =
  br_fill_buf :: "'t \<Rightarrow> 'k \<Rightarrow> (io_error + bytes) \<times> 't \<times> 'k"
  br_consume :: "nat \<Rightarrow> 't \<Rightarrow> 'k \<Rightarrow> 't \<times> 'k"

fun io_res :: "io_error + 'a \<Rightarrow> 'a res" where
  "io_res (Inl e) = Err e"
| "io_res (Inr a) = Ok a"

text \<open>
  The closures that \<open>poll_event\<close> and \<open>poll_event_mut\<close> take: on the wrapped object, by shared
  and by mutable reference, with the reactor and the kernel as their effects.
\<close>

type_synonym ('t, 'p, 'w, 'k, 'a) io_fn =
  "'t \<Rightarrow> ('p, 'w) reactor \<Rightarrow> 'k \<Rightarrow> 'a res \<times> ('p, 'w) reactor \<times> 'k"

type_synonym ('t, 'p, 'w, 'k, 'a) io_fn_mut =
  "'t \<Rightarrow> ('p, 'w) reactor \<Rightarrow> 'k \<Rightarrow> 'a res \<times> 't \<times> ('p, 'w) reactor \<times> 'k"

text \<open>Closures that only call the operating system.\<close>

definition kernel_fn ::
  "('t \<Rightarrow> 'k \<Rightarrow> (io_error + 'a) \<times> 'k) \<Rightarrow> ('t, 'p, 'w, 'k, 'a) io_fn" where
  "kernel_fn g t r k = (let (res, k1) = g t k in (io_res res, r, k1))"

definition kernel_fn_mut ::
  "('t \<Rightarrow> 'k \<Rightarrow> (io_error + 'a) \<times> 't \<times> 'k) \<Rightarrow> ('t, 'p, 'w, 'k, 'a) io_fn_mut" where
  "kernel_fn_mut g t r k = (let (res, t1, k1) = g t k in (io_res res, t1, r, k1))"

text \<open>A closure that calls a method of a copied reference to the object.\<close>

definition kernel_fn_ref ::
  "('t \<Rightarrow> 'k \<Rightarrow> (io_error + 'a) \<times> 't \<times> 'k) \<Rightarrow> ('t, 'p, 'w, 'k, 'a) io_fn" where
  "kernel_fn_ref g t r k = (let (res, _, k1) = g t k in (io_res res, r, k1))"

section \<open>Registration\<close>

record 't async =
  as_source :: Source
  as_inner :: 't

text \<open>\<open>GuardedSource\<close>: an error of the deregistration is logged.\<close>

definition GuardedSource_drop ::
  "('p, 'k) event_poller \<Rightarrow> Source \<Rightarrow> ('p, 'w) reactor \<Rightarrow> unit res \<times> ('p, 'w) reactor" where
  "GuardedSource_drop EP source r =
     (case Reactor_deregister_event EP source r of
        (Panic m, r1) \<Rightarrow> (Panic m, r1)
      | (Err _, r1) \<Rightarrow> (Ok (), r1)
      | (Ok _, r1) \<Rightarrow> (Ok (), r1))"

text \<open>The object is dropped when the constructor fails, because it has been moved in.\<close>

definition Async_without_nonblocking ::
  "('p, 'k) event_poller \<Rightarrow> ('t, 'k) io_handle \<Rightarrow> 't \<Rightarrow> ('p, 'w) reactor \<Rightarrow> 'k \<Rightarrow>
     't async res \<times> ('p, 'w) reactor \<times> 'k" where
  "Async_without_nonblocking EP H inner r k =
     (let source = h_as_fd H inner
      in case Reactor_register_event EP source r of
           (Ok _, r1) \<Rightarrow> (Ok \<lparr>as_source = source, as_inner = inner\<rparr>, r1, k)
         | (Err e, r1) \<Rightarrow> (Err e, r1, h_drop H inner k)
         | (Panic m, r1) \<Rightarrow> (Panic m, r1, h_drop H inner k))"

definition Async_new ::
  "target_os \<Rightarrow> 'k os \<Rightarrow> ('p, 'k) event_poller \<Rightarrow> ('t, 'k) io_handle \<Rightarrow> 't \<Rightarrow> ('p, 'w) reactor \<Rightarrow> 'k \<Rightarrow>
     't async res \<times> ('p, 'w) reactor \<times> 'k" where
  "Async_new target os EP H inner r k =
     (case set_nonblocking target os (h_as_fd H inner) k of
        (Ok _, k1) \<Rightarrow> Async_without_nonblocking EP H inner r k1
      | (Err e, k1) \<Rightarrow> (Err e, r, h_drop H inner k1)
      | (Panic m, k1) \<Rightarrow> (Panic m, r, h_drop H inner k1))"

text \<open>Dropping an \<open>Async\<close> drops its fields in order: the guard, then the object.\<close>

definition Async_drop ::
  "('p, 'k) event_poller \<Rightarrow> ('t, 'k) io_handle \<Rightarrow> 't async \<Rightarrow> ('p, 'w) reactor \<Rightarrow> 'k \<Rightarrow>
     unit res \<times> ('p, 'w) reactor \<times> 'k" where
  "Async_drop EP H a r k =
     (let (res, r1) = GuardedSource_drop EP (as_source a) r
      in (res, r1, h_drop H (as_inner a) k))"

definition Async_get_ref :: "'t async \<Rightarrow> 't" where
  "Async_get_ref a = as_inner a"

text \<open>\<open>into_inner\<close> moves the object out and drops the guard.\<close>

definition Async_into_inner ::
  "('p, 'k) event_poller \<Rightarrow> ('t, 'k) io_handle \<Rightarrow> 't async \<Rightarrow> ('p, 'w) reactor \<Rightarrow> 'k \<Rightarrow>
     't res \<times> ('p, 'w) reactor \<times> 'k" where
  "Async_into_inner EP H a r k =
     (case GuardedSource_drop EP (as_source a) r of
        (Ok _, r1) \<Rightarrow> (Ok (as_inner a), r1, k)
      | (Err e, r1) \<Rightarrow> (Err e, r1, h_drop H (as_inner a) k)
      | (Panic m, r1) \<Rightarrow> (Panic m, r1, h_drop H (as_inner a) k))"

section \<open>Polling\<close>

text \<open>The statement \<open>enable_event(..)?; Poll::Pending\<close>.\<close>

definition enable_pending ::
  "('p, 'k) event_poller \<Rightarrow> Source \<Rightarrow> Interest \<Rightarrow> 'w \<Rightarrow> ('p, 'w) reactor \<Rightarrow>
     'a res poll \<times> ('p, 'w) reactor" where
  "enable_pending EP source i w r =
     (case Reactor_enable_event EP source i w r of
        (Ok _, r1) \<Rightarrow> (Pending, r1)
      | (Err e, r1) \<Rightarrow> (Ready (Err e), r1)
      | (Panic m, r1) \<Rightarrow> (Ready (Panic m), r1))"

definition poll_event ::
  "('p, 'k) event_poller \<Rightarrow> Interest \<Rightarrow> 'w \<Rightarrow> ('t, 'p, 'w, 'k, 'a) io_fn \<Rightarrow> 't async \<Rightarrow>
     ('p, 'w) reactor \<Rightarrow> 'k \<Rightarrow> 'a res poll \<times> ('p, 'w) reactor \<times> 'k" where
  "poll_event EP i w f a r k =
     (case f (as_inner a) r k of
        (Ok n, r1, k1) \<Rightarrow> (Ready (Ok n), r1, k1)
      | (Panic m, r1, k1) \<Rightarrow> (Ready (Panic m), r1, k1)
      | (Err e, r1, k1) \<Rightarrow>
          (if e = WouldBlock
           then (let (p, r2) = enable_pending EP (as_source a) i w r1 in (p, r2, k1))
           else (Ready (Err e), r1, k1)))"

definition poll_event_mut ::
  "('p, 'k) event_poller \<Rightarrow> Interest \<Rightarrow> 'w \<Rightarrow> ('t, 'p, 'w, 'k, 'a) io_fn_mut \<Rightarrow> 't async \<Rightarrow>
     ('p, 'w) reactor \<Rightarrow> 'k \<Rightarrow> 'a res poll \<times> 't async \<times> ('p, 'w) reactor \<times> 'k" where
  "poll_event_mut EP i w f a r k =
     (case f (as_inner a) r k of
        (Ok n, t, r1, k1) \<Rightarrow> (Ready (Ok n), a\<lparr>as_inner := t\<rparr>, r1, k1)
      | (Panic m, t, r1, k1) \<Rightarrow> (Ready (Panic m), a\<lparr>as_inner := t\<rparr>, r1, k1)
      | (Err e, t, r1, k1) \<Rightarrow>
          (if e = WouldBlock
           then (let (p, r2) = enable_pending EP (as_source a) i w r1
                 in (p, a\<lparr>as_inner := t\<rparr>, r2, k1))
           else (Ready (Err e), a\<lparr>as_inner := t\<rparr>, r1, k1)))"

definition poll_read_with ::
  "('p, 'k) event_poller \<Rightarrow> 'w \<Rightarrow> ('t, 'p, 'w, 'k, 'a) io_fn \<Rightarrow> 't async \<Rightarrow>
     ('p, 'w) reactor \<Rightarrow> 'k \<Rightarrow> 'a res poll \<times> ('p, 'w) reactor \<times> 'k" where
  "poll_read_with EP w f a r k = poll_event EP Interest_Read w f a r k"

definition poll_read_with_mut ::
  "('p, 'k) event_poller \<Rightarrow> 'w \<Rightarrow> ('t, 'p, 'w, 'k, 'a) io_fn_mut \<Rightarrow> 't async \<Rightarrow>
     ('p, 'w) reactor \<Rightarrow> 'k \<Rightarrow> 'a res poll \<times> 't async \<times> ('p, 'w) reactor \<times> 'k" where
  "poll_read_with_mut EP w f a r k = poll_event_mut EP Interest_Read w f a r k"

definition poll_write_with ::
  "('p, 'k) event_poller \<Rightarrow> 'w \<Rightarrow> ('t, 'p, 'w, 'k, 'a) io_fn \<Rightarrow> 't async \<Rightarrow>
     ('p, 'w) reactor \<Rightarrow> 'k \<Rightarrow> 'a res poll \<times> ('p, 'w) reactor \<times> 'k" where
  "poll_write_with EP w f a r k = poll_event EP Interest_Write w f a r k"

definition poll_write_with_mut ::
  "('p, 'k) event_poller \<Rightarrow> 'w \<Rightarrow> ('t, 'p, 'w, 'k, 'a) io_fn_mut \<Rightarrow> 't async \<Rightarrow>
     ('p, 'w) reactor \<Rightarrow> 'k \<Rightarrow> 'a res poll \<times> 't async \<times> ('p, 'w) reactor \<times> 'k" where
  "poll_write_with_mut EP w f a r k = poll_event_mut EP Interest_Write w f a r k"

text \<open>
  The future of \<open>wait_for_event_ready\<close>: before its first poll, between polls, and done.
  Polling an \<open>async fn\<close> after it has returned panics.
\<close>

datatype wait_event = First_Call | Later_Call | Wait_Done

definition wait_for_event_ready ::
  "('p, 'k) event_poller \<Rightarrow> Interest \<Rightarrow> Source \<Rightarrow> 'w \<Rightarrow> wait_event \<Rightarrow> ('p, 'w) reactor \<Rightarrow>
     unit res poll \<times> wait_event \<times> ('p, 'w) reactor" where
  "wait_for_event_ready EP i source w st r =
     (let enable = (\<lambda>r. case enable_pending EP source i w r of
                       (Pending, r1) \<Rightarrow> (Pending, Later_Call, r1)
                     | (Ready x, r1) \<Rightarrow> (Ready x, Wait_Done, r1))
      in case st of
           First_Call \<Rightarrow> enable r
         | Later_Call \<Rightarrow>
             (case Reactor_is_event_ready source i r of
                Ok True \<Rightarrow> (Ready (Ok ()), Wait_Done, r)
              | Ok False \<Rightarrow> enable r
              | Err e \<Rightarrow> (Ready (Err e), Wait_Done, r)
              | Panic m \<Rightarrow> (Ready (Panic m), Wait_Done, r))
         | Wait_Done \<Rightarrow> (Ready (Panic ''async fn resumed after completion''), Wait_Done, r))"

definition Async_writable ::
  "('p, 'k) event_poller \<Rightarrow> 't async \<Rightarrow> 'w \<Rightarrow> wait_event \<Rightarrow> ('p, 'w) reactor \<Rightarrow>
     unit res poll \<times> wait_event \<times> ('p, 'w) reactor" where
  "Async_writable EP a w st r = wait_for_event_ready EP Interest_Write (as_source a) w st r"

definition Async_readable ::
  "('p, 'k) event_poller \<Rightarrow> 't async \<Rightarrow> 'w \<Rightarrow> wait_event \<Rightarrow> ('p, 'w) reactor \<Rightarrow>
     unit res poll \<times> wait_event \<times> ('p, 'w) reactor" where
  "Async_readable EP a w st r = wait_for_event_ready EP Interest_Read (as_source a) w st r"

text \<open>
  An \<open>async fn\<close> whose body is \<open>poll_fn(|cx| ..).await\<close>: the flag tells whether it has
  returned.
\<close>

definition poll_fn_await ::
  "(('p, 'w) reactor \<Rightarrow> 'k \<Rightarrow> 'a res poll \<times> ('p, 'w) reactor \<times> 'k) \<Rightarrow> bool \<Rightarrow>
     ('p, 'w) reactor \<Rightarrow> 'k \<Rightarrow> 'a res poll \<times> bool \<times> ('p, 'w) reactor \<times> 'k" where
  "poll_fn_await g finished r k =
     (if finished then (Ready (Panic ''async fn resumed after completion''), True, r, k)
      else (case g r k of
              (Pending, r1, k1) \<Rightarrow> (Pending, False, r1, k1)
            | (Ready x, r1, k1) \<Rightarrow> (Ready x, True, r1, k1)))"

section \<open>The traits of \<open>futures_io\<close>\<close>

definition AsyncRead_poll_read ::
  "('p, 'k) event_poller \<Rightarrow> ('t, 'k) read_impl \<Rightarrow> 'w \<Rightarrow> nat \<Rightarrow> 't async \<Rightarrow> ('p, 'w) reactor \<Rightarrow> 'k \<Rightarrow>
     bytes res poll \<times> 't async \<times> ('p, 'w) reactor \<times> 'k" where
  "AsyncRead_poll_read EP R w len a r k =
     poll_event_mut EP Interest_Read w (kernel_fn_mut (rd_read R len)) a r k"

definition AsyncRead_ref_poll_read ::
  "('p, 'k) event_poller \<Rightarrow> ('t, 'k) read_impl \<Rightarrow> 'w \<Rightarrow> nat \<Rightarrow> 't async \<Rightarrow> ('p, 'w) reactor \<Rightarrow> 'k \<Rightarrow>
     bytes res poll \<times> ('p, 'w) reactor \<times> 'k" where
  "AsyncRead_ref_poll_read EP R w len a r k =
     poll_event EP Interest_Read w (kernel_fn_ref (rd_read R len)) a r k"

definition AsyncWrite_poll_write ::
  "('p, 'k) event_poller \<Rightarrow> ('t, 'k) write_impl \<Rightarrow> 'w \<Rightarrow> bytes \<Rightarrow> 't async \<Rightarrow> ('p, 'w) reactor \<Rightarrow> 'k \<Rightarrow>
     nat res poll \<times> 't async \<times> ('p, 'w) reactor \<times> 'k" where
  "AsyncWrite_poll_write EP W w buf a r k =
     poll_event_mut EP Interest_Write w (kernel_fn_mut (wr_write W buf)) a r k"

definition AsyncWrite_poll_flush ::
  "('p, 'k) event_poller \<Rightarrow> ('t, 'k) write_impl \<Rightarrow> 'w \<Rightarrow> 't async \<Rightarrow> ('p, 'w) reactor \<Rightarrow> 'k \<Rightarrow>
     unit res poll \<times> 't async \<times> ('p, 'w) reactor \<times> 'k" where
  "AsyncWrite_poll_flush EP W w a r k =
     poll_event_mut EP Interest_Write w (kernel_fn_mut (wr_flush W)) a r k"

definition AsyncWrite_poll_close ::
  "('p, 'k) event_poller \<Rightarrow> ('t, 'k) write_impl \<Rightarrow> 'w \<Rightarrow> 't async \<Rightarrow> ('p, 'w) reactor \<Rightarrow> 'k \<Rightarrow>
     unit res poll \<times> 't async \<times> ('p, 'w) reactor \<times> 'k" where
  "AsyncWrite_poll_close EP W w a r k = AsyncWrite_poll_flush EP W w a r k"

definition AsyncWrite_ref_poll_write ::
  "('p, 'k) event_poller \<Rightarrow> ('t, 'k) write_impl \<Rightarrow> 'w \<Rightarrow> bytes \<Rightarrow> 't async \<Rightarrow> ('p, 'w) reactor \<Rightarrow> 'k \<Rightarrow>
     nat res poll \<times> ('p, 'w) reactor \<times> 'k" where
  "AsyncWrite_ref_poll_write EP W w buf a r k =
     poll_event EP Interest_Write w (kernel_fn_ref (wr_write W buf)) a r k"

definition AsyncWrite_ref_poll_flush ::
  "('p, 'k) event_poller \<Rightarrow> ('t, 'k) write_impl \<Rightarrow> 'w \<Rightarrow> 't async \<Rightarrow> ('p, 'w) reactor \<Rightarrow> 'k \<Rightarrow>
     unit res poll \<times> ('p, 'w) reactor \<times> 'k" where
  "AsyncWrite_ref_poll_flush EP W w a r k =
     poll_event EP Interest_Write w (kernel_fn_ref (wr_flush W)) a r k"

definition AsyncWrite_ref_poll_close ::
  "('p, 'k) event_poller \<Rightarrow> ('t, 'k) write_impl \<Rightarrow> 'w \<Rightarrow> 't async \<Rightarrow> ('p, 'w) reactor \<Rightarrow> 'k \<Rightarrow>
     unit res poll \<times> ('p, 'w) reactor \<times> 'k" where
  "AsyncWrite_ref_poll_close EP W w a r k = AsyncWrite_ref_poll_flush EP W w a r k"

definition AsyncBufRead_poll_fill_buf ::
  "('p, 'k) event_poller \<Rightarrow> ('t, 'k) bufread_impl \<Rightarrow> 'w \<Rightarrow> 't async \<Rightarrow> ('p, 'w) reactor \<Rightarrow> 'k \<Rightarrow>
     bytes res poll \<times> 't async \<times> ('p, 'w) reactor \<times> 'k" where
  "AsyncBufRead_poll_fill_buf EP B w a r k =
     poll_event_mut EP Interest_Read w (kernel_fn_mut (br_fill_buf B)) a r k"

definition AsyncBufRead_consume ::
  "('t, 'k) bufread_impl \<Rightarrow> nat \<Rightarrow> 't async \<Rightarrow> 'k \<Rightarrow> 't async \<times> 'k" where
  "AsyncBufRead_consume B amt a k =
     (let (t, k1) = br_consume B amt (as_inner a) k in (a\<lparr>as_inner := t\<rparr>, k1))"

section \<open>One operation\<close>

definition dir_reported :: "Interest \<Rightarrow> Filter \<Rightarrow> bool" where
  "dir_reported i f = (case i of Interest_Read \<Rightarrow> fl_read f | Interest_Write \<Rightarrow> fl_write f)"

text \<open>The reactor after a direction of a source has been enabled, and without a source.\<close>

definition with_event ::
  "Source \<Rightarrow> 'w event_data \<Rightarrow> ('p, 'w) reactor \<Rightarrow> ('p, 'w) reactor" where
  "with_event s d r = r\<lparr>event_sources := bt_put s d (event_sources r)\<rparr>"

definition without_event :: "Source \<Rightarrow> ('p, 'w) reactor \<Rightarrow> ('p, 'w) reactor" where
  "without_event s r = r\<lparr>event_sources := bt_del s (event_sources r)\<rparr>"

lemma with_event_simps [simp]:
  "poller (with_event s d r) = poller r" "timer_queue (with_event s d r) = timer_queue r"
  "source_data (with_event s d r) = (source_data r)(s \<mapsto> d)"
  by (simp_all add: with_event_def)

lemma without_event_simps [simp]:
  "poller (without_event s r) = poller r" "timer_queue (without_event s r) = timer_queue r"
  "source_data (without_event s r) = (source_data r)(s := None)"
  by (simp_all add: without_event_def)

lemma reactor_ok_with_event: "reactor_ok r \<Longrightarrow> event_data_ok d \<Longrightarrow> reactor_ok (with_event s d r)"
  by (simp add: reactor_ok_def with_event_def sources_ok_put)

lemma reactor_ok_without_event: "reactor_ok r \<Longrightarrow> reactor_ok (without_event s r)"
  by (simp add: reactor_ok_def without_event_def sources_ok_del)

lemma reactor_ok_data: "reactor_ok r \<Longrightarrow> source_data r s = Some d \<Longrightarrow> event_data_ok d"
  using sources_ok_lookup by (auto simp: reactor_ok_def)

lemma without_with_event:
  assumes "reactor_ok r" and "source_data r s = None"
  shows "without_event s (with_event s d r) = r"
proof -
  have "bt_ok (event_sources r)" using assms(1) by (simp add: reactor_ok_def sources_ok_def)
  then have "bt_del s (bt_put s d (event_sources r)) = event_sources r"
    using bt.insert_remove [of "event_sources r" s d] assms(2) by (simp add: bt_insert_def bt_remove_def)
  then show ?thesis by (simp add: with_event_def without_event_def)
qed

context passive_poller
begin

lemma enable_pending_registered:
  "source_data r s = Some d \<Longrightarrow> enable_pending EP s i w r = (Pending, with_event s (dir_enable i w d) r)"
  by (simp add: enable_pending_def enable_registered with_event_def)

lemma without_nonblocking_eq:
  "reactor_ok r \<Longrightarrow> Async_without_nonblocking EP H t r k =
     (if source_data r (h_as_fd H t) = None
      then (Ok \<lparr>as_source = h_as_fd H t, as_inner = t\<rparr>, with_event (h_as_fd H t) EventData_default r, k)
      else (Err (Other ''event source already registered in reactor''), r, h_drop H t k))"
  by (simp add: Async_without_nonblocking_def register_fresh register_again with_event_def Let_def)

lemma guard_drop_registered:
  "source_data r s \<noteq> None \<Longrightarrow> GuardedSource_drop EP s r = (Ok (), without_event s r)"
  by (simp add: GuardedSource_drop_def deregister_registered without_event_def)

lemma drop_registered:
  "source_data r (as_source a) \<noteq> None \<Longrightarrow>
   Async_drop EP H a r k = (Ok (), without_event (as_source a) r, h_drop H (as_inner a) k)"
  by (simp add: Async_drop_def guard_drop_registered)

lemma into_inner_registered:
  "source_data r (as_source a) \<noteq> None \<Longrightarrow>
   Async_into_inner EP H a r k = (Ok (as_inner a), without_event (as_source a) r, k)"
  by (simp add: Async_into_inner_def guard_drop_registered)

text \<open>The two outcomes of \<open>Async::new\<close>.\<close>

lemma new_cases:
  assumes "reactor_ok r" and "Async_new target os EP H t r k = (res, r1, k1)"
  shows "(\<exists>e. res = Err e) \<and> r1 = r \<or>
    res = Ok \<lparr>as_source = h_as_fd H t, as_inner = t\<rparr> \<and> source_data r (h_as_fd H t) = None
    \<and> r1 = with_event (h_as_fd H t) EventData_default r"
proof -
  obtain nb k2 where nb: "set_nonblocking target os (h_as_fd H t) k = (nb, k2)" by fastforce
  have "\<not> is_panic nb" using set_nonblocking_no_panic [of target os "h_as_fd H t" k] nb by simp
  then show ?thesis
    using assms nb by (cases nb) (auto simp: Async_new_def without_nonblocking_eq split: if_splits)
qed

lemma wait_ready_first:
  "source_data r s = Some d \<Longrightarrow>
   wait_for_event_ready EP i s w First_Call r = (Pending, Later_Call, with_event s (dir_enable i w d) r)"
  by (simp add: wait_for_event_ready_def enable_pending_registered)

lemma wait_ready_later:
  "source_data r s = Some d \<Longrightarrow>
   wait_for_event_ready EP i s w Later_Call r =
     (if enabled (dir_of i d) then (Pending, Later_Call, with_event s (dir_enable i w d) r)
      else (Ready (Ok ()), Wait_Done, r))"
  by (simp add: wait_for_event_ready_def enable_pending_registered Reactor_is_event_ready_def)

lemmas wait_ready = wait_ready_first wait_ready_later

end

text \<open>
  What \<open>poll_event\<close> needs of the closure it is given: it keeps the reactor well formed,
  leaves the registered sources and the timers as they are, and does not panic.
\<close>

locale io_closure =
  fixes f :: "('t, 'p, 'w, 'k, 'a) io_fn"
  assumes keeps_ok: "reactor_ok r \<Longrightarrow> f t r k = (res, r1, k1) \<Longrightarrow> reactor_ok r1"
    and keeps_source: "reactor_ok r \<Longrightarrow> f t r k = (res, r1, k1) \<Longrightarrow> source_data r s = Some d \<Longrightarrow>
          source_data r1 s = Some d"
    and keeps_timers: "reactor_ok r \<Longrightarrow> f t r k = (res, r1, k1) \<Longrightarrow> timer_queue r1 = timer_queue r"
    and no_panic: "reactor_ok r \<Longrightarrow> f t r k = (res, r1, k1) \<Longrightarrow> \<not> is_panic res"

locale io_polling = passive_poller EP + io_closure f
  for EP :: "('p, 'k) event_poller" and f :: "('t, 'p, 'w, 'k, 'a) io_fn"
begin

lemma poll_event_eq:
  assumes "reactor_ok r" and "source_data r (as_source a) = Some d"
    and "f (as_inner a) r k = (res, r1, k1)"
  shows "poll_event EP i w f a r k =
    (if res = Err WouldBlock then (Pending, with_event (as_source a) (dir_enable i w d) r1, k1)
     else (Ready res, r1, k1))"
  using keeps_source [OF assms(1,3,2)] assms(3)
  by (cases res) (auto simp: poll_event_def enable_pending_registered)

lemma poll_event_ok:
  assumes "reactor_ok r" and "source_data r (as_source a) = Some d"
  shows "reactor_ok (fst (snd (poll_event EP i w f a r k)))"
proof -
  obtain res r1 k1 where f: "f (as_inner a) r k = (res, r1, k1)" using prod_cases3 by blast
  have "reactor_ok r1" using keeps_ok [OF assms(1) f] .
  then show ?thesis
    using reactor_ok_data [OF assms] by (simp add: poll_event_eq [OF assms f] reactor_ok_with_event)
qed

lemma poll_event_pending:
  assumes "reactor_ok r" and "source_data r (as_source a) = Some d"
    and "poll_event EP i w f a r k = (Pending, r', k')"
  shows "\<exists>r1. f (as_inner a) r k = (Err WouldBlock, r1, k') \<and>
    r' = with_event (as_source a) (dir_enable i w d) r1"
proof -
  obtain res r1 k1 where "f (as_inner a) r k = (res, r1, k1)" using prod_cases3 by blast
  then show ?thesis using poll_event_eq [OF assms(1,2), of k res r1 k1 i w] assms(3)
    by (auto split: if_splits)
qed

lemma poll_event_no_panic:
  assumes "reactor_ok r" and "source_data r (as_source a) = Some d"
  shows "fst (poll_event EP i w f a r k) \<noteq> Ready (Panic m)"
proof -
  obtain res r1 k1 where f: "f (as_inner a) r k = (res, r1, k1)" using prod_cases3 by blast
  then show ?thesis using no_panic [OF assms(1) f] by (auto simp: poll_event_eq [OF assms f])
qed

end

lemma io_res_no_panic [simp]: "io_res x \<noteq> Panic m" "\<not> is_panic (io_res x)"
  by (cases x; simp)+

interpretation kfn: io_closure "kernel_fn g"
  for g :: "'t \<Rightarrow> 'k \<Rightarrow> (io_error + 'a) \<times> 'k"
  by unfold_locales (auto simp: kernel_fn_def split: prod.splits)

interpretation kref: io_closure "kernel_fn_ref g"
  for g :: "'t \<Rightarrow> 'k \<Rightarrow> (io_error + 'a) \<times> 't \<times> 'k"
  by unfold_locales (auto simp: kernel_fn_ref_def split: prod.splits)

interpretation kpoll: io_polling "PollPoller os N T" "kernel_fn g"
  for os :: "'k os" and N T and g :: "'t \<Rightarrow> 'k \<Rightarrow> (io_error + 'a) \<times> 'k"
  by unfold_locales

interpretation krefpoll: io_polling "PollPoller os N T" "kernel_fn_ref g"
  for os :: "'k os" and N T and g :: "'t \<Rightarrow> 'k \<Rightarrow> (io_error + 'a) \<times> 't \<times> 'k"
  by unfold_locales

section \<open>Properties\<close>



lemma fired_dir:
  assumes "dir_reported i f" and "enabled (dir_of i d)" and "waker (dir_of i d) = Some w"
  shows "w \<in> set (fired_wakers f d)" "\<not> enabled (dir_of i (fired_data f d))"
  using assms
  by (auto simp: dir_reported_def dir_of_def fired_wakers_def fired_data_def split: Interest.splits)

lemma dir_enable_dir [simp]:
  "enabled (dir_of i (dir_enable i w d))" "waker (dir_of i (dir_enable i w d)) = Some w"
  by (auto simp: dir_of_def dir_enable_def Wakeup_enable_def split: Interest.splits)

text \<open>
  C17: A task whose I/O operation is pending is woken by the next report of the event: when
  \<open>wait\<close> then reports that direction of the source, among events of registered sources, it
  calls the waker of the pending poll, and the source counts as ready, so that a
  \<open>readable\<close> or \<open>writable\<close> future that waits for it completes at its next poll.
\<close>

theorem pending_io_woken:
  assumes ok: "reactor_ok r" and reg: "source_data r (as_source a) = Some d"
    and pend: "poll_event (PollPoller os N T) i w (kernel_fn g) a r k0 = (Pending, r1, k')"
    and now: "sys_now os (kernel n) = (now, k)"
    and idle: "TimerQueue_next_timeout now (timer_queue r1) \<noteq> Some 0" "\<not> is_notified n"
    and poll: "PollPoller_poll os N T (TimerQueue_next_timeout now (timer_queue r1))
        (Reactor_interests r1) (poller r1) k = (Ok (Some evs), p, k1)"
    and evs: "distinct (map fst evs)" "\<forall>e \<in> set evs. source_data r1 (fst e) \<noteq> None"
    and ev: "(as_source a, f) \<in> set evs" "dir_reported i f"
  shows "\<exists>ws ws' r2 k2. w \<in> set ws
    \<and> Reactor_wait (PollPoller os N T) os N wake r1 n = (Ok (), r2, Reactor_clear_notifications N
        (fold wake ws' ((fold wake ws \<lparr>kernel = k1, is_notified = True\<rparr>)\<lparr>kernel := k2\<rparr>)))
    \<and> Reactor_is_event_ready (as_source a) i r2 = Ok True
    \<and> wait_for_event_ready (PollPoller os N T) i (as_source a) w' Later_Call r2 =
        (Ready (Ok ()), Wait_Done, r2)"
proof -
  let ?s = "as_source a" and ?d = "dir_enable i w d"
  obtain r0 where "kernel_fn g (as_inner a) r k0 = (Err WouldBlock, r0, k')"
    and r1: "r1 = with_event ?s ?d r0"
    using kpoll.poll_event_pending [OF ok reg pend] by blast
  then have "r0 = r" by (auto simp: kernel_fn_def split: prod.splits)
  then have ok1: "reactor_ok r1" and sd: "source_data r1 ?s = Some ?d"
    using r1 ok reactor_ok_data [OF ok reg] by (simp_all add: reactor_ok_with_event)
  have mo: "map_of evs ?s = Some f" using evs(1) ev(1) by simp
  let ?ws = "concat (map (\<lambda>(s, f). fired_wakers f (the (source_data r1 s))) evs)"
  have "ep_poll (PollPoller os N T) (TimerQueue_next_timeout now (timer_queue r1))
      (Reactor_interests r1) (poller r1) k = (Ok (Some evs), p, k1)"
    using poll by (simp add: PollPoller_def)
  from wait_dispatch_ex [OF ok1 now idle this evs, of N wake]
  obtain r2 ws' k2 where wait: "Reactor_wait (PollPoller os N T) os N wake r1 n =
      (Ok (), r2, Reactor_clear_notifications N
        (fold wake ws' ((fold wake ?ws \<lparr>kernel = k1, is_notified = True\<rparr>)\<lparr>kernel := k2\<rparr>)))"
    and lk: "\<And>s. source_data r2 s = (case map_of evs s of
           None \<Rightarrow> source_data r1 s | Some f \<Rightarrow> map_option (fired_data f) (source_data r1 s))"
    by blast
  have "w \<in> set (fired_wakers f ?d)" using ev(2) by (simp add: fired_dir)
  then have "w \<in> set ?ws" using ev(1) sd by force
  moreover have sd2: "source_data r2 ?s = Some (fired_data f ?d)" using lk mo sd by simp
  moreover have "\<not> enabled (dir_of i (fired_data f ?d))" using ev(2) by (simp add: fired_dir)
  ultimately show ?thesis
    using wait ppoll.wait_ready_later [OF sd2, of os N T i w']
    by (intro exI [of _ ?ws] exI [of _ ws'] exI [of _ r2] exI [of _ k2] conjI)
      (simp_all add: Reactor_is_event_ready_def)
qed

text \<open>
  A system for the concrete instance: descriptor 7 becomes readable, and the wakers that
  are called are recorded in place of the kernel.
\<close>

definition reading_os :: "nat list os" where
  "reading_os = \<lparr>
     sys_read = (\<lambda>_ n k. (Inr n, k)),
     sys_write = (\<lambda>_ bs k. (Inr (length bs), k)),
     sys_poll = (\<lambda>fds _ k. (Inr (1, map (\<lambda>e. if fst e = 7 then {P_IN} else {}) fds), k)),
     sys_timerfd_settime = (\<lambda>_ _ k. (Inr (), k)),
     sys_now = (\<lambda>k. (0, k)),
     sys_eventfd = (\<lambda>_ _ k. (Inr 3, k)),
     sys_pipe = (\<lambda>k. (Inr (3, 4), k)),
     sys_timerfd_create = (\<lambda>_ k. (Inr 4, k)),
     sys_ioctl_fionbio = (\<lambda>_ _ k. (Inr (), k)),
     sys_fcntl_getfl = (\<lambda>_ k. (Inr {}, k)),
     sys_fcntl_setfl = (\<lambda>_ _ k. (Inr (), k))\<rparr>"

definition recording :: "nat \<Rightarrow> nat list nworld \<Rightarrow> nat list nworld" where
  "recording w n = n\<lparr>kernel := w # kernel n\<rparr>"

abbreviation reading_poller :: "(poll_poller, nat list) event_poller" where
  "reading_poller \<equiv> PollPoller reading_os (EventFd reading_os 3) PollTimeout"

definition file7 :: "unit async" where
  "file7 = \<lparr>as_source = 7, as_inner = ()\<rparr>"

definition woken_reader :: "(poll_poller, nat) reactor" where
  "woken_reader = with_event 7 (dir_enable Interest_Read 5 (dir_enable Interest_Read 42 EventData_default))
     one_reader"

lemma reading_polls:
  "PollPoller_poll reading_os (EventFd reading_os 3) PollTimeout None
     (Reactor_interests woken_reader) (poller woken_reader) k =
   (Ok (Some [(7, \<lparr>fl_read = True, fl_write = False\<rparr>)]),
    \<lparr>pollfds = [\<lparr>pf_fd = 7, pf_events = read_flags, pf_revents = {P_IN}\<rparr>,
                \<lparr>pf_fd = 3, pf_events = read_flags, pf_revents = {}\<rparr>]\<rparr>, k)"
  by (simp add: PollPoller_poll_def busy_defs woken_reader_def with_event_def bt_put_def reading_os_def
      PollTimeout_def PollTimeout_set_timeout_def
      source_pollfds_def internal_pollfds_def PollFd_from_def Filter_pollflags_def set_revents_def
      poll_outcome_def ready_fd_def pollfd_event_def Filter_of_revents_def read_flags_def write_flags_def)

lemma one_reader_facts:
  "reactor_ok one_reader"
  "source_data one_reader 7 = Some (dir_enable Interest_Read 42 EventData_default)"
  by (simp_all add: reactor_ok_def one_reader_def sources_ok_def bt_ok_Cons)

lemma woken_reader_facts:
  "poll_event reading_poller Interest_Read 5
     (kernel_fn (\<lambda>t k. (Inl WouldBlock :: io_error + nat, k))) file7 one_reader [] = (Pending, woken_reader, [])"
  "timer_queue woken_reader = TimerQueue_new"
  "source_data woken_reader 7 \<noteq> None"
  using kpoll.poll_event_eq [OF one_reader_facts(1), of file7 "dir_enable Interest_Read 42 EventData_default"
      "\<lambda>t k. (Inl WouldBlock :: io_error + nat, k)" "[]" "Err WouldBlock" one_reader "[]"
      reading_os "EventFd reading_os 3" PollTimeout Interest_Read 5] one_reader_facts(2)
  by (simp_all add: kernel_fn_def woken_reader_def file7_def) (simp add: one_reader_def)

theorem pending_io_woken_witness:
  "\<exists>ws ws' r2 k2. 5 \<in> set ws
    \<and> Reactor_wait reading_poller reading_os (EventFd reading_os 3) recording woken_reader
        \<lparr>kernel = [], is_notified = False\<rparr> =
      (Ok (), r2, Reactor_clear_notifications (EventFd reading_os 3)
        (fold recording ws' ((fold recording ws \<lparr>kernel = [], is_notified = True\<rparr>)\<lparr>kernel := k2\<rparr>)))
    \<and> Reactor_is_event_ready 7 Interest_Read r2 = Ok True"
proof -
  have t: "TimerQueue_next_timeout 0 (timer_queue woken_reader) = None"
    by (simp add: woken_reader_facts TimerQueue_next_timeout_def TimerQueue_new_def bt_first_def)
  have reg: "source_data one_reader (as_source file7) = Some (dir_enable Interest_Read 42 EventData_default)"
    using one_reader_facts(2) by (simp add: file7_def)
  show ?thesis
    using pending_io_woken [OF one_reader_facts(1) reg woken_reader_facts(1),
        of "\<lparr>kernel = [], is_notified = False\<rparr>" 0 "[]" "[(7, \<lparr>fl_read = True, fl_write = False\<rparr>)]"
          "\<lparr>pollfds = [\<lparr>pf_fd = 7, pf_events = read_flags, pf_revents = {P_IN}\<rparr>,
                \<lparr>pf_fd = 3, pf_events = read_flags, pf_revents = {}\<rparr>]\<rparr>" "[]"
          "\<lparr>fl_read = True, fl_write = False\<rparr>" recording undefined]
      reading_polls [of "[]"] woken_reader_facts(3) t
    by (auto simp: reading_os_def file7_def dir_reported_def)
qed

text \<open>A closure by mutable reference with the change of the object forgotten.\<close>

definition forget_inner :: "('t, 'p, 'w, 'k, 'a) io_fn_mut \<Rightarrow> ('t, 'p, 'w, 'k, 'a) io_fn" where
  "forget_inner f t r k = (let (res, _, r1, k1) = f t r k in (res, r1, k1))"

lemma poll_event_mut_eq:
  "poll_event_mut EP i w f a r k =
     (let (p, r1, k1) = poll_event EP i w (forget_inner f) a r k
      in (p, a\<lparr>as_inner := fst (snd (f (as_inner a) r k))\<rparr>, r1, k1))"
  by (simp add: poll_event_mut_def poll_event_def forget_inner_def split: prod.splits res.splits)

lemma forget_kernel_fn_mut: "forget_inner (kernel_fn_mut g) = kernel_fn_ref g"
  by (intro ext) (simp add: forget_inner_def kernel_fn_mut_def kernel_fn_ref_def split: prod.splits)

lemma inner_kernel_fn_mut: "fst (snd (kernel_fn_mut g t r k)) = fst (snd (g t k))"
  by (simp add: kernel_fn_mut_def split: prod.splits)

lemmas by_value = poll_event_mut_eq forget_kernel_fn_mut inner_kernel_fn_mut

text \<open>
  Reading, writing, flushing and closing an \<open>Async\<close> held by value and one held by
  reference are the same: with the same implementation of the object's methods both polls
  have the same outcome and the same effect on the reactor and the kernel, and the poll by
  value only puts back the object that the method has changed.
\<close>

theorem by_reference_equivalent:
  "AsyncRead_poll_read EP R w len a r k =
     (let (p, r1, k1) = AsyncRead_ref_poll_read EP R w len a r k
      in (p, a\<lparr>as_inner := fst (snd (rd_read R len (as_inner a) k))\<rparr>, r1, k1))
   \<and> AsyncWrite_poll_write EP W w buf a r k =
     (let (p, r1, k1) = AsyncWrite_ref_poll_write EP W w buf a r k
      in (p, a\<lparr>as_inner := fst (snd (wr_write W buf (as_inner a) k))\<rparr>, r1, k1))
   \<and> AsyncWrite_poll_close EP W w a r k =
     (let (p, r1, k1) = AsyncWrite_ref_poll_close EP W w a r k
      in (p, a\<lparr>as_inner := fst (snd (wr_flush W (as_inner a) k))\<rparr>, r1, k1))"
  by (simp add: by_value AsyncRead_poll_read_def AsyncRead_ref_poll_read_def
      AsyncWrite_poll_write_def AsyncWrite_ref_poll_write_def AsyncWrite_poll_close_def
      AsyncWrite_ref_poll_close_def AsyncWrite_poll_flush_def AsyncWrite_ref_poll_flush_def)

text \<open>
  C22: Registering an object and dropping it, or taking it out again, restores the
  reactor: between the two exactly its descriptor is registered, with no direction
  enabled; dropping also drops the object, and \<open>into_inner\<close> returns it instead.
\<close>

theorem register_roundtrip:
  assumes "reactor_ok r" and "source_data r (h_as_fd H t) = None"
    and "set_nonblocking target os (h_as_fd H t) k = (Ok (), k1)"
  shows "\<exists>a r1. Async_new target os (PollPoller os N T) H t r k = (Ok a, r1, k1)
    \<and> reactor_ok r1 \<and> Async_get_ref a = t
    \<and> source_data r1 = (source_data r)(h_as_fd H t \<mapsto> EventData_default)
    \<and> (\<forall>k2. Async_drop (PollPoller os N T) H a r1 k2 = (Ok (), r, h_drop H t k2))
    \<and> (\<forall>k2. Async_into_inner (PollPoller os N T) H a r1 k2 = (Ok t, r, k2))"
proof -
  let ?s = "h_as_fd H t"
  let ?r = "with_event ?s EventData_default r"
  have "Async_new target os (PollPoller os N T) H t r k = (Ok \<lparr>as_source = ?s, as_inner = t\<rparr>, ?r, k1)"
    using assms by (simp add: Async_new_def ppoll.without_nonblocking_eq)
  moreover have "without_event ?s ?r = r" using assms(1,2) by (rule without_with_event)
  ultimately show ?thesis
    using assms(1)
    by (auto simp: ppoll.drop_registered ppoll.into_inner_registered reactor_ok_with_event Async_get_ref_def)
qed

theorem register_roundtrip_witness:
  "\<exists>a r1. Async_new Other_Unix busy_os (PollPoller busy_os busy_notifier PollTimeout)
      \<lparr>h_as_fd = (\<lambda>t. 9), h_drop = (\<lambda>t k. k)\<rparr> () one_reader () = (Ok a, r1, ())
    \<and> source_data r1 9 = Some EventData_default
    \<and> Async_drop (PollPoller busy_os busy_notifier PollTimeout)
        \<lparr>h_as_fd = (\<lambda>t. 9), h_drop = (\<lambda>t k. k)\<rparr> a r1 () = (Ok (), one_reader, ())"
proof -
  have "set_nonblocking Other_Unix busy_os 9 () = (Ok (), ())"
    by (simp add: set_nonblocking_def set_nonblocking_fcntl_def busy_os_def)
  moreover have "source_data one_reader 9 = None" by (simp add: one_reader_def)
  ultimately show ?thesis
    using register_roundtrip [OF one_reader_facts(1), of "\<lparr>h_as_fd = (\<lambda>t. 9), h_drop = (\<lambda>t k. k)\<rparr>" "()"
        Other_Unix busy_os "()" "()" busy_notifier PollTimeout]
    by auto
qed

text \<open>
  Wrapping an object fails exactly when the descriptor cannot be made non-blocking or is
  registered already. A failure is an error and not a panic, it leaves the reactor, and so
  an earlier registration of the descriptor with its wakers, as it was, and the object is
  dropped.
\<close>

theorem Async_new_fails:
  assumes "reactor_ok r" and "set_nonblocking target os (h_as_fd H t) k = (nb, k1)"
  shows "(case nb of
      Ok _ \<Rightarrow> (if source_data r (h_as_fd H t) \<noteq> None
               then Async_new target os (PollPoller os N T) H t r k =
                 (Err (Other ''event source already registered in reactor''), r, h_drop H t k1)
               else \<exists>a r1. Async_new target os (PollPoller os N T) H t r k = (Ok a, r1, k1))
    | Err e \<Rightarrow> Async_new target os (PollPoller os N T) H t r k = (Err e, r, h_drop H t k1)
    | Panic m \<Rightarrow> False)"
  using assms set_nonblocking_no_panic [of target os "h_as_fd H t" k]
  by (auto simp: Async_new_def ppoll.without_nonblocking_eq split: res.splits)

theorem Async_new_fails_witness:
  "Async_new Linux_Android busy_os (PollPoller busy_os busy_notifier PollTimeout)
     \<lparr>h_as_fd = (\<lambda>t. 7), h_drop = (\<lambda>t k. k)\<rparr> () one_reader () =
   (Err (Other ''event source already registered in reactor''), one_reader, ())"
proof -
  have "set_nonblocking Linux_Android busy_os 7 () = (Ok (), ())"
    by (simp add: set_nonblocking_def busy_os_def)
  then show ?thesis
    using Async_new_fails [OF one_reader_facts(1), of Linux_Android busy_os
        "\<lparr>h_as_fd = (\<lambda>t. 7), h_drop = (\<lambda>t k. k)\<rparr>" "()" "()" "Ok ()" "()" busy_notifier PollTimeout]
      one_reader_facts(2) by simp
qed

end
