(* ===== verification/Async_Net.thy ===== *)
theory Async_Net
  imports Async_IO
begin

text \<open>
  The sockets of \<open>src/src/io.rs\<close>: \<open>Async<TcpListener>\<close>, \<open>Async<TcpStream>\<close> and
  \<open>Async<UdpSocket>\<close>. A socket is its descriptor; the calls of the standard library and of
  \<open>rustix\<close> on it are the fields of one record over the kernel.
\<close>

section \<open>Socket calls\<close>

datatype address_family = AF_INET | AF_INET6

datatype socket_type = SOCK_STREAM

text \<open>\<open>SocketAddr\<close> with the address and port of each variant.\<close>

datatype sock_addr = V4 "32 word" "16 word" | V6 "128 word" "16 word"

record 'k net =
  net_os :: "'k os"
  sys_socket :: "address_family \<Rightarrow> socket_type \<Rightarrow> oflag set \<Rightarrow> 'k \<Rightarrow> (io_error + fd) \<times> 'k"
  sys_connect :: "fd \<Rightarrow> sock_addr \<Rightarrow> 'k \<Rightarrow> (io_error + unit) \<times> 'k"
  sys_peer_addr :: "fd \<Rightarrow> 'k \<Rightarrow> (io_error + sock_addr) \<times> 'k"
  sys_close :: "fd \<Rightarrow> 'k \<Rightarrow> 'k"
  tcp_bind :: "sock_addr \<Rightarrow> 'k \<Rightarrow> (io_error + fd) \<times> 'k"
  tcp_accept :: "fd \<Rightarrow> 'k \<Rightarrow> (io_error + fd \<times> sock_addr) \<times> 'k"
  tcp_peek :: "nat \<Rightarrow> fd \<Rightarrow> 'k \<Rightarrow> (io_error + bytes) \<times> 'k"
  udp_bind :: "sock_addr \<Rightarrow> 'k \<Rightarrow> (io_error + fd) \<times> 'k"
  udp_connect :: "sock_addr \<Rightarrow> fd \<Rightarrow> 'k \<Rightarrow> (io_error + unit) \<times> 'k"
  udp_recv_from :: "nat \<Rightarrow> fd \<Rightarrow> 'k \<Rightarrow> (io_error + bytes \<times> sock_addr) \<times> 'k"
  udp_peek_from :: "nat \<Rightarrow> fd \<Rightarrow> 'k \<Rightarrow> (io_error + bytes \<times> sock_addr) \<times> 'k"
  udp_send_to :: "bytes \<Rightarrow> sock_addr \<Rightarrow> fd \<Rightarrow> 'k \<Rightarrow> (io_error + nat) \<times> 'k"
  udp_recv :: "nat \<Rightarrow> fd \<Rightarrow> 'k \<Rightarrow> (io_error + bytes) \<times> 'k"
  udp_peek :: "nat \<Rightarrow> fd \<Rightarrow> 'k \<Rightarrow> (io_error + bytes) \<times> 'k"
  udp_send :: "bytes \<Rightarrow> fd \<Rightarrow> 'k \<Rightarrow> (io_error + nat) \<times> 'k"

text \<open>\<open>TcpListener\<close>, \<open>TcpStream\<close> and \<open>UdpSocket\<close> own their descriptor: dropping one closes it.\<close>

definition socket_handle :: "'k net \<Rightarrow> (fd, 'k) io_handle" where
  "socket_handle nt = \<lparr>h_as_fd = (\<lambda>fd. fd), h_drop = sys_close nt\<rparr>"

text \<open>A socket just made by the standard library, wrapped by \<open>Async::new\<close>.\<close>

definition wrap_socket ::
  "target_os \<Rightarrow> 'k net \<Rightarrow> ('p, 'k) event_poller \<Rightarrow> (io_error + fd) \<times> 'k \<Rightarrow> ('p, 'w) reactor \<Rightarrow>
     fd async res \<times> ('p, 'w) reactor \<times> 'k" where
  "wrap_socket target nt EP made r =
     (case made of
        (Inl e, k1) \<Rightarrow> (Err e, r, k1)
      | (Inr fd, k1) \<Rightarrow> Async_new target (net_os nt) EP (socket_handle nt) fd r k1)"

section \<open>Listening\<close>

definition TcpListener_bind ::
  "target_os \<Rightarrow> 'k net \<Rightarrow> ('p, 'k) event_poller \<Rightarrow> sock_addr \<Rightarrow> ('p, 'w) reactor \<Rightarrow> 'k \<Rightarrow>
     fd async res \<times> ('p, 'w) reactor \<times> 'k" where
  "TcpListener_bind target nt EP addr r k = wrap_socket target nt EP (tcp_bind nt addr k) r"

text \<open>The closure of \<open>poll_accept\<close>: accept a connection and wrap its stream.\<close>

definition accept_fn ::
  "target_os \<Rightarrow> 'k net \<Rightarrow> ('p, 'k) event_poller \<Rightarrow> (fd, 'p, 'w, 'k, fd async \<times> sock_addr) io_fn" where
  "accept_fn target nt EP listener r k =
     (case tcp_accept nt listener k of
        (Inl e, k1) \<Rightarrow> (Err e, r, k1)
      | (Inr (st, addr), k1) \<Rightarrow>
          (case Async_new target (net_os nt) EP (socket_handle nt) st r k1 of
             (Ok a, r2, k2) \<Rightarrow> (Ok (a, addr), r2, k2)
           | (Err e, r2, k2) \<Rightarrow> (Err e, r2, k2)
           | (Panic m, r2, k2) \<Rightarrow> (Panic m, r2, k2)))"

definition poll_accept ::
  "target_os \<Rightarrow> 'k net \<Rightarrow> ('p, 'k) event_poller \<Rightarrow> 'w \<Rightarrow> fd async \<Rightarrow> ('p, 'w) reactor \<Rightarrow> 'k \<Rightarrow>
     (fd async \<times> sock_addr) res poll \<times> ('p, 'w) reactor \<times> 'k" where
  "poll_accept target nt EP w a r k =
     poll_event EP Interest_Read w (accept_fn target nt EP) a r k"

definition TcpListener_accept ::
  "target_os \<Rightarrow> 'k net \<Rightarrow> ('p, 'k) event_poller \<Rightarrow> 'w \<Rightarrow> fd async \<Rightarrow> bool \<Rightarrow> ('p, 'w) reactor \<Rightarrow> 'k \<Rightarrow>
     (fd async \<times> sock_addr) res poll \<times> bool \<times> ('p, 'w) reactor \<times> 'k" where
  "TcpListener_accept target nt EP w a finished r k =
     poll_fn_await (poll_accept target nt EP w a) finished r k"

text \<open>\<open>IncomingTcp\<close> borrows the listener; its items are the results of \<open>poll_accept\<close>.\<close>

record incoming_tcp =
  in_listener :: "fd async"

definition TcpListener_incoming :: "fd async \<Rightarrow> incoming_tcp" where
  "TcpListener_incoming a = \<lparr>in_listener = a\<rparr>"

fun drop_addr :: "('a \<times> 'b) res \<Rightarrow> 'a res" where
  "drop_addr (Ok p) = Ok (fst p)"
| "drop_addr (Err e) = Err e"
| "drop_addr (Panic m) = Panic m"

definition IncomingTcp_poll_next ::
  "target_os \<Rightarrow> 'k net \<Rightarrow> ('p, 'k) event_poller \<Rightarrow> 'w \<Rightarrow> incoming_tcp \<Rightarrow> ('p, 'w) reactor \<Rightarrow> 'k \<Rightarrow>
     fd async res option poll \<times> ('p, 'w) reactor \<times> 'k" where
  "IncomingTcp_poll_next target nt EP w s r k =
     (case poll_accept target nt EP w (in_listener s) r k of
        (Ready res, r1, k1) \<Rightarrow> (Ready (Some (drop_addr res)), r1, k1)
      | (Pending, r1, k1) \<Rightarrow> (Pending, r1, k1))"

section \<open>Connecting\<close>

text \<open>
  \<open>tcp_socket\<close>. Outside Linux and Android the flags are set after the socket is made, and
  the socket is closed when that fails.
\<close>

definition addr_family :: "sock_addr \<Rightarrow> address_family" where
  "addr_family addr = (case addr of V4 _ _ \<Rightarrow> AF_INET | V6 _ _ \<Rightarrow> AF_INET6)"

definition socket_flags_fcntl :: "'k net \<Rightarrow> fd \<Rightarrow> 'k \<Rightarrow> fd res \<times> 'k" where
  "socket_flags_fcntl nt fd k =
     (case sys_fcntl_getfl (net_os nt) fd k of
        (Inl e, k1) \<Rightarrow> (Err e, sys_close nt fd k1)
      | (Inr previous, k1) \<Rightarrow>
          (let new = previous \<union> {O_NONBLOCK} \<union> {O_CLOEXEC}
           in if new \<noteq> previous
              then (case sys_fcntl_setfl (net_os nt) fd new k1 of
                      (Inl e, k2) \<Rightarrow> (Err e, sys_close nt fd k2)
                    | (Inr _, k2) \<Rightarrow> (Ok fd, k2))
              else (Ok fd, k1)))"

definition tcp_socket :: "target_os \<Rightarrow> 'k net \<Rightarrow> sock_addr \<Rightarrow> 'k \<Rightarrow> fd res \<times> 'k" where
  "tcp_socket target nt addr k =
     (case target of
        Linux_Android \<Rightarrow>
          (let (s, k1) = sys_socket nt (addr_family addr) SOCK_STREAM {O_NONBLOCK, O_CLOEXEC} k
           in (io_res s, k1))
      | Other_Unix \<Rightarrow>
          (case sys_socket nt (addr_family addr) SOCK_STREAM {} k of
             (Inl e, k1) \<Rightarrow> (Err e, k1)
           | (Inr fd, k1) \<Rightarrow> socket_flags_fcntl nt fd k1))"

definition connect :: "'k net \<Rightarrow> fd \<Rightarrow> sock_addr \<Rightarrow> 'k \<Rightarrow> unit res \<times> 'k" where
  "connect nt tcp addr k =
     (case sys_connect nt tcp addr k of
        (Inr _, k1) \<Rightarrow> (Ok (), k1)
      | (Inl e, k1) \<Rightarrow>
          (if e = InProgress \<or> e = WouldBlock then (Ok (), k1) else (Err e, k1)))"

text \<open>
  The future of \<open>Async::<TcpStream>::connect\<close>: not started, waiting for the socket to become
  writable, and done. An error, or a panic, drops the stream on its way out.
\<close>

datatype connect_future =
    Conn_Start sock_addr
  | Conn_Waiting "fd async" wait_event
  | Conn_Done

definition connect_fail ::
  "'k net \<Rightarrow> ('p, 'k) event_poller \<Rightarrow> fd async \<Rightarrow> fd async res \<Rightarrow> ('p, 'w) reactor \<Rightarrow> 'k \<Rightarrow>
     fd async res poll \<times> connect_future \<times> ('p, 'w) reactor \<times> 'k" where
  "connect_fail nt EP stream res r k =
     (case Async_drop EP (socket_handle nt) stream r k of
        (Panic m, r1, k1) \<Rightarrow> (Ready (Panic m), Conn_Done, r1, k1)
      | (_, r1, k1) \<Rightarrow> (Ready res, Conn_Done, r1, k1))"

text \<open>The body from \<open>wait_for_event_ready\<close> on.\<close>

definition connect_wait ::
  "'k net \<Rightarrow> ('p, 'k) event_poller \<Rightarrow> 'w \<Rightarrow> fd async \<Rightarrow> wait_event \<Rightarrow> ('p, 'w) reactor \<Rightarrow> 'k \<Rightarrow>
     fd async res poll \<times> connect_future \<times> ('p, 'w) reactor \<times> 'k" where
  "connect_wait nt EP w stream st r k =
     (case wait_for_event_ready EP Interest_Write (as_source stream) w st r of
        (Pending, st1, r1) \<Rightarrow> (Pending, Conn_Waiting stream st1, r1, k)
      | (Ready (Err e), _, r1) \<Rightarrow> connect_fail nt EP stream (Err e) r1 k
      | (Ready (Panic m), _, r1) \<Rightarrow> connect_fail nt EP stream (Panic m) r1 k
      | (Ready (Ok _), _, r1) \<Rightarrow>
          (case sys_peer_addr nt (as_inner stream) k of
             (Inl e, k1) \<Rightarrow> connect_fail nt EP stream (Err e) r1 k1
           | (Inr _, k1) \<Rightarrow> (Ready (Ok stream), Conn_Done, r1, k1)))"

definition TcpStream_connect ::
  "target_os \<Rightarrow> 'k net \<Rightarrow> ('p, 'k) event_poller \<Rightarrow> 'w \<Rightarrow> connect_future \<Rightarrow> ('p, 'w) reactor \<Rightarrow> 'k \<Rightarrow>
     fd async res poll \<times> connect_future \<times> ('p, 'w) reactor \<times> 'k" where
  "TcpStream_connect target nt EP w fut r k =
     (case fut of
        Conn_Start addr \<Rightarrow>
          (case tcp_socket target nt addr k of
             (Err e, k1) \<Rightarrow> (Ready (Err e), Conn_Done, r, k1)
           | (Panic m, k1) \<Rightarrow> (Ready (Panic m), Conn_Done, r, k1)
           | (Ok fd, k1) \<Rightarrow>
               (case Async_without_nonblocking EP (socket_handle nt) fd r k1 of
                  (Err e, r2, k2) \<Rightarrow> (Ready (Err e), Conn_Done, r2, k2)
                | (Panic m, r2, k2) \<Rightarrow> (Ready (Panic m), Conn_Done, r2, k2)
                | (Ok stream, r2, k2) \<Rightarrow>
                    (case connect nt (as_inner stream) addr k2 of
                       (Err e, k3) \<Rightarrow> connect_fail nt EP stream (Err e) r2 k3
                     | (Panic m, k3) \<Rightarrow> connect_fail nt EP stream (Panic m) r2 k3
                     | (Ok _, k3) \<Rightarrow> connect_wait nt EP w stream First_Call r2 k3)))
      | Conn_Waiting stream st \<Rightarrow> connect_wait nt EP w stream st r k
      | Conn_Done \<Rightarrow> (Ready (Panic ''async fn resumed after completion''), Conn_Done, r, k))"

text \<open>Dropping the future drops the stream it holds.\<close>

definition connect_future_drop ::
  "'k net \<Rightarrow> ('p, 'k) event_poller \<Rightarrow> connect_future \<Rightarrow> ('p, 'w) reactor \<Rightarrow> 'k \<Rightarrow>
     unit res \<times> ('p, 'w) reactor \<times> 'k" where
  "connect_future_drop nt EP fut r k =
     (case fut of
        Conn_Waiting stream _ \<Rightarrow> Async_drop EP (socket_handle nt) stream r k
      | _ \<Rightarrow> (Ok (), r, k))"

definition TcpStream_peek ::
  "'k net \<Rightarrow> ('p, 'k) event_poller \<Rightarrow> 'w \<Rightarrow> nat \<Rightarrow> fd async \<Rightarrow> bool \<Rightarrow> ('p, 'w) reactor \<Rightarrow> 'k \<Rightarrow>
     bytes res poll \<times> bool \<times> ('p, 'w) reactor \<times> 'k" where
  "TcpStream_peek nt EP w len a finished r k =
     poll_fn_await (poll_event EP Interest_Read w (kernel_fn (tcp_peek nt len)) a) finished r k"

section \<open>Datagrams\<close>

definition UdpSocket_bind ::
  "target_os \<Rightarrow> 'k net \<Rightarrow> ('p, 'k) event_poller \<Rightarrow> sock_addr \<Rightarrow> ('p, 'w) reactor \<Rightarrow> 'k \<Rightarrow>
     fd async res \<times> ('p, 'w) reactor \<times> 'k" where
  "UdpSocket_bind target nt EP addr r k = wrap_socket target nt EP (udp_bind nt addr k) r"

definition UdpSocket_recv_from ::
  "'k net \<Rightarrow> ('p, 'k) event_poller \<Rightarrow> 'w \<Rightarrow> nat \<Rightarrow> fd async \<Rightarrow> bool \<Rightarrow> ('p, 'w) reactor \<Rightarrow> 'k \<Rightarrow>
     (bytes \<times> sock_addr) res poll \<times> bool \<times> ('p, 'w) reactor \<times> 'k" where
  "UdpSocket_recv_from nt EP w len a finished r k =
     poll_fn_await (poll_read_with EP w (kernel_fn (udp_recv_from nt len)) a) finished r k"

definition UdpSocket_peek_from ::
  "'k net \<Rightarrow> ('p, 'k) event_poller \<Rightarrow> 'w \<Rightarrow> nat \<Rightarrow> fd async \<Rightarrow> bool \<Rightarrow> ('p, 'w) reactor \<Rightarrow> 'k \<Rightarrow>
     (bytes \<times> sock_addr) res poll \<times> bool \<times> ('p, 'w) reactor \<times> 'k" where
  "UdpSocket_peek_from nt EP w len a finished r k =
     poll_fn_await (poll_read_with EP w (kernel_fn (udp_peek_from nt len)) a) finished r k"

definition UdpSocket_send_to ::
  "'k net \<Rightarrow> ('p, 'k) event_poller \<Rightarrow> 'w \<Rightarrow> bytes \<Rightarrow> sock_addr \<Rightarrow> fd async \<Rightarrow> bool \<Rightarrow>
     ('p, 'w) reactor \<Rightarrow> 'k \<Rightarrow> nat res poll \<times> bool \<times> ('p, 'w) reactor \<times> 'k" where
  "UdpSocket_send_to nt EP w buf addr a finished r k =
     poll_fn_await (poll_write_with EP w (kernel_fn (udp_send_to nt buf addr)) a) finished r k"

definition UdpSocket_connect ::
  "'k net \<Rightarrow> sock_addr \<Rightarrow> fd async \<Rightarrow> 'k \<Rightarrow> unit res \<times> 'k" where
  "UdpSocket_connect nt addr a k =
     (let (res, k1) = udp_connect nt addr (Async_get_ref a) k in (io_res res, k1))"

definition UdpSocket_recv ::
  "'k net \<Rightarrow> ('p, 'k) event_poller \<Rightarrow> 'w \<Rightarrow> nat \<Rightarrow> fd async \<Rightarrow> bool \<Rightarrow> ('p, 'w) reactor \<Rightarrow> 'k \<Rightarrow>
     bytes res poll \<times> bool \<times> ('p, 'w) reactor \<times> 'k" where
  "UdpSocket_recv nt EP w len a finished r k =
     poll_fn_await (poll_read_with EP w (kernel_fn (udp_recv nt len)) a) finished r k"

definition UdpSocket_peek ::
  "'k net \<Rightarrow> ('p, 'k) event_poller \<Rightarrow> 'w \<Rightarrow> nat \<Rightarrow> fd async \<Rightarrow> bool \<Rightarrow> ('p, 'w) reactor \<Rightarrow> 'k \<Rightarrow>
     bytes res poll \<times> bool \<times> ('p, 'w) reactor \<times> 'k" where
  "UdpSocket_peek nt EP w len a finished r k =
     poll_fn_await (poll_read_with EP w (kernel_fn (udp_peek nt len)) a) finished r k"

definition UdpSocket_send ::
  "'k net \<Rightarrow> ('p, 'k) event_poller \<Rightarrow> 'w \<Rightarrow> bytes \<Rightarrow> fd async \<Rightarrow> bool \<Rightarrow> ('p, 'w) reactor \<Rightarrow> 'k \<Rightarrow>
     nat res poll \<times> bool \<times> ('p, 'w) reactor \<times> 'k" where
  "UdpSocket_send nt EP w buf a finished r k =
     poll_fn_await (poll_write_with EP w (kernel_fn (udp_send nt buf)) a) finished r k"

section \<open>One operation\<close>

lemma socket_handle_simps [simp]:
  "h_as_fd (socket_handle nt) fd = fd" "h_drop (socket_handle nt) = sys_close nt"
  by (simp_all add: socket_handle_def)

abbreviation socket :: "fd \<Rightarrow> fd async" where
  "socket fd \<equiv> \<lparr>as_source = fd, as_inner = fd\<rparr>"

context passive_poller
begin

lemma accept_cases:
  assumes ok: "reactor_ok r" and acc: "accept_fn target nt EP l r k = (res, r1, k1)"
  shows "(\<exists>e. res = Err e) \<and> r1 = r \<or>
    (\<exists>fd addr. res = Ok (socket fd, addr) \<and> source_data r fd = None
       \<and> r1 = with_event fd EventData_default r)"
proof (cases "tcp_accept nt l k")
  case (Pair made k2)
  show ?thesis
  proof (cases made)
    case (Inr b)
    obtain fd addr where b: "b = (fd, addr)" by fastforce
    obtain x r2 k3 where new: "Async_new target (net_os nt) EP (socket_handle nt) fd r k2 = (x, r2, k3)"
      using prod_cases3 by blast
    then show ?thesis using new_cases [OF ok new] acc Pair Inr b by (auto simp: accept_fn_def)
  qed (use acc Pair in \<open>auto simp: accept_fn_def\<close>)
qed

lemma wrap_cases:
  assumes ok: "reactor_ok r" and wrap: "wrap_socket target nt EP made r = (res, r1, k1)"
  shows "(\<exists>e. res = Err e) \<and> r1 = r \<or>
    (\<exists>fd. res = Ok (socket fd) \<and> source_data r fd = None \<and> r1 = with_event fd EventData_default r)"
proof (cases made)
  case (Pair m k2)
  show ?thesis
  proof (cases m)
    case (Inr fd)
    then show ?thesis
      using new_cases [OF ok, of target "net_os nt" "socket_handle nt" fd k2 res r1 k1] wrap Pair
      by (auto simp: wrap_socket_def)
  qed (use wrap Pair in \<open>auto simp: wrap_socket_def\<close>)
qed

lemma connect_fail_registered:
  "source_data r (as_source a) \<noteq> None \<Longrightarrow>
   connect_fail nt EP a res r k =
     (Ready res, Conn_Done, without_event (as_source a) r, sys_close nt (as_inner a) k)"
  by (simp add: connect_fail_def drop_registered)

lemma connect_wait_first:
  "source_data r (as_source a) = Some d \<Longrightarrow>
   connect_wait nt EP w a First_Call r k =
     (Pending, Conn_Waiting a Later_Call, with_event (as_source a) (dir_enable Interest_Write w d) r, k)"
  by (simp add: connect_wait_def wait_ready)

lemma connect_wait_later:
  "source_data r (as_source a) = Some d \<Longrightarrow>
   connect_wait nt EP w a Later_Call r k =
     (if enabled (ed_write d)
      then (Pending, Conn_Waiting a Later_Call, with_event (as_source a) (dir_enable Interest_Write w d) r, k)
      else (case sys_peer_addr nt (as_inner a) k of
              (Inl e, k1) \<Rightarrow> (Ready (Err e), Conn_Done, without_event (as_source a) r,
                               sys_close nt (as_inner a) k1)
            | (Inr _, k1) \<Rightarrow> (Ready (Ok a), Conn_Done, r, k1)))"
  by (simp add: connect_wait_def wait_ready connect_fail_registered dir_of_def
      split: prod.splits sum.splits)

end

lemma tcp_socket_no_panic: "\<not> is_panic (fst (tcp_socket target nt addr k))"
  by (auto simp: tcp_socket_def socket_flags_fcntl_def Let_def
      split: target_os.splits prod.splits sum.splits)

lemma connect_no_panic: "\<not> is_panic (fst (connect nt fd addr k))"
  by (auto simp: connect_def split: prod.splits sum.splits)

interpretation acceptor: io_polling "PollPoller os N T" "accept_fn target nt (PollPoller os N T)"
  for os :: "'k os" and N T target nt
proof (unfold_locales, goal_cases)
  case (1 r t k res r1 k1)
  then show ?case using ppoll.accept_cases [OF 1] by (auto simp: reactor_ok_with_event)
next
  case (2 r t k res r1 k1 s d)
  then show ?case using ppoll.accept_cases [OF 2(1,2)] by auto
next
  case (3 r t k res r1 k1)
  then show ?case using ppoll.accept_cases [OF 3] by auto
next
  case (4 r t k res r1 k1)
  then show ?case using ppoll.accept_cases [OF 4] by auto
qed

lemma connect_first_facts:
  assumes "reactor_ok r" and "tcp_socket target nt addr k = (made, k1)"
  shows "case made of
      Err e \<Rightarrow> TcpStream_connect target nt (PollPoller os N T) w (Conn_Start addr) r k =
        (Ready (Err e), Conn_Done, r, k1)
    | Panic m \<Rightarrow> False
    | Ok fd \<Rightarrow>
        (if source_data r fd \<noteq> None
         then TcpStream_connect target nt (PollPoller os N T) w (Conn_Start addr) r k =
           (Ready (Err (Other ''event source already registered in reactor'')), Conn_Done, r,
            sys_close nt fd k1)
         else case sys_connect nt fd addr k1 of
             (Inr _, k2) \<Rightarrow> TcpStream_connect target nt (PollPoller os N T) w (Conn_Start addr) r k =
               (Pending, Conn_Waiting (socket fd) Later_Call,
                with_event fd (dir_enable Interest_Write w EventData_default)
                  (with_event fd EventData_default r), k2)
           | (Inl e, k2) \<Rightarrow> TcpStream_connect target nt (PollPoller os N T) w (Conn_Start addr) r k =
               (if e = InProgress \<or> e = WouldBlock
                then (Pending, Conn_Waiting (socket fd) Later_Call,
                  with_event fd (dir_enable Interest_Write w EventData_default)
                    (with_event fd EventData_default r), k2)
                else (Ready (Err e), Conn_Done, r, sys_close nt fd k2)))"
proof (cases made)
  case (Ok fd)
  show ?thesis
  proof (cases "source_data r fd")
    case None
    note restore = without_with_event [OF assms(1) None]
    obtain c k2 where c: "sys_connect nt fd addr k1 = (c, k2)" by fastforce
    let ?r = "with_event fd EventData_default r"
    have "TcpStream_connect target nt (PollPoller os N T) w (Conn_Start addr) r k =
        (case connect nt fd addr k1 of
           (Err e, k3) \<Rightarrow> connect_fail nt (PollPoller os N T) (socket fd) (Err e) ?r k3
         | (Panic m, k3) \<Rightarrow> connect_fail nt (PollPoller os N T) (socket fd) (Panic m) ?r k3
         | (Ok _, k3) \<Rightarrow> connect_wait nt (PollPoller os N T) w (socket fd) First_Call ?r k3)"
      using assms Ok None by (simp add: TcpStream_connect_def ppoll.without_nonblocking_eq)
    then show ?thesis
      using c None Ok restore
      by (cases c) (simp_all add: connect_def ppoll.connect_fail_registered ppoll.connect_wait_first)
  next
    case (Some d)
    then show ?thesis
      using assms Ok by (simp add: TcpStream_connect_def ppoll.without_nonblocking_eq)
  qed
next
  case (Err e)
  then show ?thesis using assms by (simp add: TcpStream_connect_def)
next
  case (Panic m)
  then show ?thesis using tcp_socket_no_panic [of target nt addr k] assms by simp
qed

text \<open>The two outcomes of the first poll.\<close>

lemma connect_first_cases:
  assumes ok: "reactor_ok r"
    and poll: "TcpStream_connect target nt (PollPoller os N T) w (Conn_Start addr) r k = (p, c, r', k')"
  shows "(\<exists>e. p = Ready (Err e)) \<and> c = Conn_Done \<and> r' = r \<or>
    (\<exists>fd. p = Pending \<and> c = Conn_Waiting (socket fd) Later_Call \<and> source_data r fd = None
       \<and> r' = with_event fd (dir_enable Interest_Write w EventData_default)
                (with_event fd EventData_default r))"
proof -
  obtain made k1 where made: "tcp_socket target nt addr k = (made, k1)" by fastforce
  note facts = connect_first_facts [OF ok made, of os N T w]
  show ?thesis
  proof (cases made)
    case (Ok fd)
    obtain x k2 where x: "sys_connect nt fd addr k1 = (x, k2)" by fastforce
    show ?thesis using facts poll Ok x by (cases x) (auto split: if_splits)
  qed (use facts poll in auto)
qed

section \<open>Properties\<close>

text \<open>
  C20: The first poll of \<open>connect\<close>. When the socket cannot be made, cannot be registered, or the
  connection fails at once, it returns the error with the reactor as it was, and a socket
  that was made is closed. When the connection is made or under way it is pending, with
  exactly the new socket registered and waiting to be writable with the task's waker.
\<close>

theorem connect_first_poll:
  assumes "reactor_ok r" and "tcp_socket target nt addr k = (made, k1)"
  shows "case made of
      Err e \<Rightarrow> TcpStream_connect target nt (PollPoller os N T) w (Conn_Start addr) r k =
        (Ready (Err e), Conn_Done, r, k1)
    | Panic m \<Rightarrow> False
    | Ok fd \<Rightarrow>
        (if source_data r fd \<noteq> None
         then TcpStream_connect target nt (PollPoller os N T) w (Conn_Start addr) r k =
           (Ready (Err (Other ''event source already registered in reactor'')), Conn_Done, r,
            sys_close nt fd k1)
         else case sys_connect nt fd addr k1 of
             (Inr _, k2) \<Rightarrow> TcpStream_connect target nt (PollPoller os N T) w (Conn_Start addr) r k =
               (Pending, Conn_Waiting (socket fd) Later_Call,
                with_event fd (dir_enable Interest_Write w EventData_default)
                  (with_event fd EventData_default r), k2)
           | (Inl e, k2) \<Rightarrow> TcpStream_connect target nt (PollPoller os N T) w (Conn_Start addr) r k =
               (if e = InProgress \<or> e = WouldBlock
                then (Pending, Conn_Waiting (socket fd) Later_Call,
                  with_event fd (dir_enable Interest_Write w EventData_default)
                    (with_event fd EventData_default r), k2)
                else (Ready (Err e), Conn_Done, r, sys_close nt fd k2)))"
  using assms by (rule connect_first_facts)

text \<open>A network for the concrete instances: connections are under way at once, and then made.\<close>

definition calm_net :: "nat list net" where
  "calm_net = \<lparr>
     net_os = reading_os,
     sys_socket = (\<lambda>_ _ _ k. (Inr 9, k)),
     sys_connect = (\<lambda>_ _ k. (Inl InProgress, k)),
     sys_peer_addr = (\<lambda>_ k. (Inr (V4 1 80), k)),
     sys_close = (\<lambda>_ k. k),
     tcp_bind = (\<lambda>_ k. (Inr 9, k)),
     tcp_accept = (\<lambda>_ k. (Inr (9, V4 1 80), k)),
     tcp_peek = (\<lambda>_ _ k. (Inl WouldBlock, k)),
     udp_bind = (\<lambda>_ k. (Inr 9, k)),
     udp_connect = (\<lambda>_ _ k. (Inr (), k)),
     udp_recv_from = (\<lambda>_ _ k. (Inl WouldBlock, k)),
     udp_peek_from = (\<lambda>_ _ k. (Inl WouldBlock, k)),
     udp_send_to = (\<lambda>bs _ _ k. (Inr (length bs), k)),
     udp_recv = (\<lambda>_ _ k. (Inl WouldBlock, k)),
     udp_peek = (\<lambda>_ _ k. (Inl WouldBlock, k)),
     udp_send = (\<lambda>bs _ k. (Inr (length bs), k))\<rparr>"

theorem connect_first_poll_witness:
  "TcpStream_connect Linux_Android calm_net reading_poller 5 (Conn_Start (V4 1 80)) one_reader [] =
     (Pending, Conn_Waiting (socket 9) Later_Call,
      with_event 9 (dir_enable Interest_Write 5 EventData_default)
        (with_event 9 EventData_default one_reader), [])"
proof -
  have "tcp_socket Linux_Android calm_net (V4 1 80) [] = (Ok 9, [])"
    by (simp add: tcp_socket_def calm_net_def)
  moreover have "source_data one_reader 9 = None" "sys_connect calm_net 9 (V4 1 80) [] = (Inl InProgress, [])"
    by (simp_all add: one_reader_def calm_net_def)
  ultimately show ?thesis
    using connect_first_poll [OF one_reader_facts(1), of Linux_Android calm_net "V4 1 80" "[]" "Ok 9" "[]"
        reading_os "EventFd reading_os 3" PollTimeout 5] by simp
qed

text \<open>
  C21: The later polls of \<open>connect\<close>, while its socket is registered. Until the socket has been
  reported writable it stays pending and the new waker replaces the old one; then it asks for
  the peer address, returning the registered stream or, with the socket deregistered and
  closed, the error. Dropping the future while it waits deregisters and closes the socket.
\<close>

theorem connect_later_poll:
  assumes "reactor_ok r" and "source_data r (as_source a) = Some d"
  shows "TcpStream_connect target nt (PollPoller os N T) w (Conn_Waiting a Later_Call) r k =
      (if enabled (ed_write d)
       then (Pending, Conn_Waiting a Later_Call,
             with_event (as_source a) (dir_enable Interest_Write w d) r, k)
       else case sys_peer_addr nt (as_inner a) k of
           (Inr _, k1) \<Rightarrow> (Ready (Ok a), Conn_Done, r, k1)
         | (Inl e, k1) \<Rightarrow> (Ready (Err e), Conn_Done, without_event (as_source a) r,
                             sys_close nt (as_inner a) k1))
    \<and> connect_future_drop nt (PollPoller os N T) (Conn_Waiting a Later_Call) r k =
        (Ok (), without_event (as_source a) r, sys_close nt (as_inner a) k)
    \<and> source_data (without_event (as_source a) r) = (source_data r)(as_source a := None)
    \<and> reactor_ok (without_event (as_source a) r)"
proof -
  have "TcpStream_connect target nt (PollPoller os N T) w (Conn_Waiting a Later_Call) r k =
      connect_wait nt (PollPoller os N T) w a Later_Call r k"
    by (simp add: TcpStream_connect_def)
  then show ?thesis
    using assms
    by (simp add: ppoll.connect_wait_later ppoll.drop_registered connect_future_drop_def
        reactor_ok_without_event split: prod.splits sum.splits)
qed

theorem connect_later_poll_witness:
  "TcpStream_connect Other_Unix calm_net reading_poller 6 (Conn_Waiting (socket 7) Later_Call) one_reader [] =
     (Ready (Ok (socket 7)), Conn_Done, one_reader, [])"
proof -
  have "\<not> enabled (ed_write (dir_enable Interest_Read 42 EventData_default))"
    "sys_peer_addr calm_net 7 [] = (Inr (V4 1 80), [])"
    by (simp_all add: busy_defs calm_net_def)
  then show ?thesis
    using connect_later_poll [OF one_reader_facts(1), of "socket 7" "dir_enable Interest_Read 42 EventData_default"
        Other_Unix calm_net reading_os "EventFd reading_os 3" PollTimeout 6 "[]"] one_reader_facts(2)
    by simp
qed

end
