(* ===== verification/IO_System.thy ===== *)
theory IO_System
  imports Async_Net "HOL-Library.Multiset"
begin

text \<open>
  All the I/O objects of a thread together: the values of type \<open>Async\<close> that are alive and the
  pending \<open>connect\<close> futures, over the thread's reactor, as a step relation whose steps are the
  operations of \<open>src/src/io.rs\<close> and the reactor's \<open>wait\<close>. The kernel may change between two
  steps in any way, so it is not part of the state. The invariant: the registered sources are
  exactly the descriptors of the live objects.
\<close>

section \<open>Steps\<close>

record ('p, 'w) io_sys =
  live :: "fd async list"
  conns :: "connect_future list"
  io_reactor :: "('p, 'w) reactor"

fun made_async :: "'a async res poll \<Rightarrow> 'a async list" where
  "made_async (Ready (Ok a)) = [a]"
| "made_async p = []"

text \<open>
  The operations on one live object that neither make nor drop one: the object may be
  replaced (by value) and the reactor changes.
\<close>

inductive async_op ::
  "'k net \<Rightarrow> ('p, 'k) event_poller \<Rightarrow> fd async \<Rightarrow> ('p, 'w) reactor \<Rightarrow> fd async \<Rightarrow> ('p, 'w) reactor \<Rightarrow> bool"
  for nt :: "'k net" and EP :: "('p, 'k) event_poller" where
  op_read: "AsyncRead_poll_read EP R w len a r k = (p, a', r', k') \<Longrightarrow> async_op nt EP a r a' r'"
| op_ref_read: "AsyncRead_ref_poll_read EP R w len a r k = (p, r', k') \<Longrightarrow> async_op nt EP a r a r'"
| op_write: "AsyncWrite_poll_write EP W w buf a r k = (p, a', r', k') \<Longrightarrow> async_op nt EP a r a' r'"
| op_flush: "AsyncWrite_poll_flush EP W w a r k = (p, a', r', k') \<Longrightarrow> async_op nt EP a r a' r'"
| op_close: "AsyncWrite_poll_close EP W w a r k = (p, a', r', k') \<Longrightarrow> async_op nt EP a r a' r'"
| op_ref_write: "AsyncWrite_ref_poll_write EP W w buf a r k = (p, r', k') \<Longrightarrow> async_op nt EP a r a r'"
| op_ref_flush: "AsyncWrite_ref_poll_flush EP W w a r k = (p, r', k') \<Longrightarrow> async_op nt EP a r a r'"
| op_ref_close: "AsyncWrite_ref_poll_close EP W w a r k = (p, r', k') \<Longrightarrow> async_op nt EP a r a r'"
| op_fill_buf: "AsyncBufRead_poll_fill_buf EP B w a r k = (p, a', r', k') \<Longrightarrow> async_op nt EP a r a' r'"
| op_consume: "AsyncBufRead_consume B amt a (k :: 'k) = (a', k') \<Longrightarrow> async_op nt EP a r a' r"
| op_peek: "TcpStream_peek nt EP w len a fin r k = (p1, fin', r', k') \<Longrightarrow> async_op nt EP a r a r'"
| op_recv_from: "UdpSocket_recv_from nt EP w len a fin r k = (p2, fin', r', k') \<Longrightarrow> async_op nt EP a r a r'"
| op_peek_from: "UdpSocket_peek_from nt EP w len a fin r k = (p2, fin', r', k') \<Longrightarrow> async_op nt EP a r a r'"
| op_send_to: "UdpSocket_send_to nt EP w buf addr a fin r k = (p3, fin', r', k') \<Longrightarrow> async_op nt EP a r a r'"
| op_recv: "UdpSocket_recv nt EP w len a fin r k = (p1, fin', r', k') \<Longrightarrow> async_op nt EP a r a r'"
| op_udp_peek: "UdpSocket_peek nt EP w len a fin r k = (p1, fin', r', k') \<Longrightarrow> async_op nt EP a r a r'"
| op_send: "UdpSocket_send nt EP w buf a fin r k = (p3, fin', r', k') \<Longrightarrow> async_op nt EP a r a r'"
| op_readable: "Async_readable EP a w st r = (p4, st', r') \<Longrightarrow> async_op nt EP a r a r'"
| op_writable: "Async_writable EP a w st r = (p4, st', r') \<Longrightarrow> async_op nt EP a r a r'"

text \<open>
  The steps of the thread. The constructors and \<open>poll_accept\<close> add the objects they return;
  \<open>connect\<close> moves its socket from the future to the live objects; the timers change under the
  reactor's other operations.
\<close>

inductive io_step ::
  "target_os \<Rightarrow> 'k net \<Rightarrow> 'k notifier_fd \<Rightarrow> 'k timeout \<Rightarrow> (poll_poller, 'w) io_sys \<Rightarrow>
     (poll_poller, 'w) io_sys \<Rightarrow> bool"
  for target nt N T where
  step_new: "Async_new target (net_os nt) (PollPoller (net_os nt) N T) H t (io_reactor st) k = (res, r', k') \<Longrightarrow>
     io_step target nt N T st (st\<lparr>live := made_async (Ready res) @ live st, io_reactor := r'\<rparr>)"
| step_without_nonblocking:
    "Async_without_nonblocking (PollPoller (net_os nt) N T) H t (io_reactor st) k = (res, r', k') \<Longrightarrow>
     io_step target nt N T st (st\<lparr>live := made_async (Ready res) @ live st, io_reactor := r'\<rparr>)"
| step_tcp_bind: "TcpListener_bind target nt (PollPoller (net_os nt) N T) addr (io_reactor st) k = (res, r', k') \<Longrightarrow>
     io_step target nt N T st (st\<lparr>live := made_async (Ready res) @ live st, io_reactor := r'\<rparr>)"
| step_udp_bind: "UdpSocket_bind target nt (PollPoller (net_os nt) N T) addr (io_reactor st) k = (res, r', k') \<Longrightarrow>
     io_step target nt N T st (st\<lparr>live := made_async (Ready res) @ live st, io_reactor := r'\<rparr>)"
| step_drop: "a \<in> set (live st) \<Longrightarrow>
     Async_drop (PollPoller (net_os nt) N T) H a (io_reactor st) k = (u, r', k') \<Longrightarrow>
     io_step target nt N T st (st\<lparr>live := remove1 a (live st), io_reactor := r'\<rparr>)"
| step_into_inner: "a \<in> set (live st) \<Longrightarrow>
     Async_into_inner (PollPoller (net_os nt) N T) H a (io_reactor st) k = (t, r', k') \<Longrightarrow>
     io_step target nt N T st (st\<lparr>live := remove1 a (live st), io_reactor := r'\<rparr>)"
| step_op: "a \<in> set (live st) \<Longrightarrow>
     async_op nt (PollPoller (net_os nt) N T) a (io_reactor st) a' r' \<Longrightarrow>
     io_step target nt N T st (st\<lparr>live := a' # remove1 a (live st), io_reactor := r'\<rparr>)"
| step_accept: "a \<in> set (live st) \<Longrightarrow>
     IncomingTcp_poll_next target nt (PollPoller (net_os nt) N T) w (TcpListener_incoming a) (io_reactor st) k =
       (p, r', k') \<Longrightarrow>
     io_step target nt N T st (st\<lparr>live := (case p of Ready (Some res) \<Rightarrow> made_async (Ready res) | _ \<Rightarrow> []) @ live st,
       io_reactor := r'\<rparr>)"
| step_connect: "io_step target nt N T st (st\<lparr>conns := Conn_Start addr # conns st\<rparr>)"
| step_connect_poll: "c \<in> set (conns st) \<Longrightarrow>
     TcpStream_connect target nt (PollPoller (net_os nt) N T) w c (io_reactor st) k = (res', c', r', k') \<Longrightarrow>
     io_step target nt N T st (st\<lparr>live := made_async res' @ live st, conns := c' # remove1 c (conns st),
       io_reactor := r'\<rparr>)"
| step_connect_drop: "c \<in> set (conns st) \<Longrightarrow>
     connect_future_drop nt (PollPoller (net_os nt) N T) c (io_reactor st) k = (u, r', k') \<Longrightarrow>
     io_step target nt N T st (st\<lparr>conns := remove1 c (conns st), io_reactor := r'\<rparr>)"
| step_timers: "tq_ok q \<Longrightarrow>
     io_step target nt N T st (st\<lparr>io_reactor := (io_reactor st)\<lparr>timer_queue := q\<rparr>\<rparr>)"
| step_wait: "Reactor_wait (PollPoller (net_os nt) N T) (net_os nt) N wake (io_reactor st) n = (u, r', n') \<Longrightarrow>
     io_step target nt N T st (st\<lparr>io_reactor := r'\<rparr>)"

section \<open>What a step does to the table of sources\<close>

abbreviation registered :: "('p, 'w) reactor \<Rightarrow> Source multiset" where
  "registered r \<equiv> mset_set (dom (source_data r))"

lemma registered_with_fresh:
  "source_data r s = None \<Longrightarrow> registered (with_event s d r) = add_mset s (registered r)"
  by (simp add: finite_dom_map_of domIff)

lemma registered_with [simp]:
  assumes "source_data r s \<noteq> None"
  shows "registered (with_event s d r) = registered r"
proof -
  have "dom (source_data (with_event s d r)) = dom (source_data r)" using assms by auto
  then show ?thesis by (simp only:)
qed

lemma registered_without:
  assumes "source_data r s \<noteq> None"
  shows "registered r = add_mset s (registered (without_event s r))"
proof -
  let ?A = "dom (source_data r) - {s}"
  have dom: "dom (source_data r) = insert s ?A" "dom (source_data (without_event s r)) = ?A"
    using assms by auto
  have "mset_set (insert s ?A) = add_mset s (mset_set ?A)"
    by (rule mset_set.insert) (simp_all add: finite_dom_map_of)
  then show ?thesis unfolding dom(2) by (simp only: flip: dom(1))
qed

lemma wait_finish_sources: "event_sources (fst (snd (wait_finish os N wake r n))) = event_sources r"
  by (simp add: wait_finish_def Let_def split: prod.splits)

lemma Reactor_wait_dom:
  "dom (source_data (fst (snd (Reactor_wait EP os N wake r n)))) = dom (source_data r)"
proof -
  have "dom (map_of m) = dom (source_data r)"
    if "dispatch_events wake evs (event_sources r) n' = (res, m, n'')" for evs n' res m n''
    using dispatch_events_dom [of wake evs "event_sources r" n'] that by simp
  then show ?thesis
    by (auto simp: Reactor_wait_def Let_def wait_finish_sources split: prod.splits res.splits)
qed

text \<open>An operation on a registered object keeps the invariant of the reactor and its sources.\<close>

definition same_sources :: "('p, 'w) reactor \<Rightarrow> ('p, 'w) reactor \<Rightarrow> bool" where
  "same_sources r r' \<longleftrightarrow> reactor_ok r' \<and> dom (source_data r') = dom (source_data r)"

lemma same_sources_refl: "reactor_ok r \<Longrightarrow> same_sources r r"
  by (simp add: same_sources_def)

lemma same_sources_enable:
  "reactor_ok r \<Longrightarrow> source_data r s = Some d \<Longrightarrow> same_sources r (with_event s (dir_enable i w d) r)"
  by (auto simp: same_sources_def reactor_ok_with_event reactor_ok_data)

lemma same_sources_registered: "same_sources r r' \<Longrightarrow> registered r' = registered r"
  by (simp add: same_sources_def)

context passive_poller
begin

lemma poll_event_same:
  assumes "reactor_ok r" and "source_data r (as_source a) = Some d"
    and "fst (snd (f (as_inner a) r k)) = r"
  shows "same_sources r (fst (snd (poll_event EP i w f a r k)))"
proof -
  obtain res k1 where f: "f (as_inner a) r k = (res, r, k1)" using assms(3) by (metis prod.collapse)
  show ?thesis
    using same_sources_refl [OF assms(1)] same_sources_enable [OF assms(1,2), of i w]
    by (cases res) (simp_all add: poll_event_def f enable_pending_registered [OF assms(2)])
qed

lemma wait_ready_same:
  assumes "reactor_ok r" and "source_data r s = Some d"
  shows "same_sources r (snd (snd (wait_for_event_ready EP i s w st r)))"
  using same_sources_refl [OF assms(1)] same_sources_enable [OF assms, of i w]
  by (cases st) (simp_all add: wait_ready [OF assms(2)], simp add: wait_for_event_ready_def)

end

lemma kernel_fn_reactor [simp]:
  "fst (snd (kernel_fn g t r k)) = r" "fst (snd (kernel_fn_ref g' t r k)) = r"
  by (simp_all add: kernel_fn_def kernel_fn_ref_def split: prod.splits)

lemma poll_event_mut_parts:
  "as_source (fst (snd (poll_event_mut EP i w f a r k))) = as_source a"
  "fst (snd (snd (poll_event_mut EP i w f a r k))) = fst (snd (poll_event EP i w (forget_inner f) a r k))"
  by (simp_all add: poll_event_mut_eq split: prod.splits)

lemma poll_fn_await_reactor:
  "fst (snd (snd (poll_fn_await g fin r k))) = (if fin then r else fst (snd (g r k)))"
  by (simp add: poll_fn_await_def split: prod.splits poll.splits)

lemmas io_op_defs = AsyncRead_poll_read_def AsyncRead_ref_poll_read_def AsyncWrite_poll_write_def
  AsyncWrite_poll_flush_def AsyncWrite_poll_close_def AsyncWrite_ref_poll_write_def
  AsyncWrite_ref_poll_flush_def AsyncWrite_ref_poll_close_def AsyncBufRead_poll_fill_buf_def
  AsyncBufRead_consume_def TcpStream_peek_def UdpSocket_recv_from_def UdpSocket_peek_from_def
  UdpSocket_send_to_def UdpSocket_recv_def UdpSocket_peek_def UdpSocket_send_def
  Async_readable_def Async_writable_def

lemma mut_same:
  assumes "poll_event_mut (PollPoller os N T) i w (kernel_fn_mut g) a r k = (p, a', r', k')"
    and "reactor_ok r" and "source_data r (as_source a) = Some d"
  shows "as_source a' = as_source a \<and> same_sources r r'"
  using poll_event_mut_parts [of "PollPoller os N T" i w "kernel_fn_mut g" a r k] assms(1)
    ppoll.poll_event_same [OF assms(2,3), of "kernel_fn_ref g" k os N T i w]
  by (simp add: forget_kernel_fn_mut)

lemma ref_same:
  assumes "poll_event (PollPoller os N T) i w (kernel_fn_ref g) a r k = (p, r', k')"
    and "reactor_ok r" and "source_data r (as_source a) = Some d"
  shows "same_sources r r'"
  using ppoll.poll_event_same [OF assms(2,3), of "kernel_fn_ref g" k os N T i w] assms(1) by simp

lemma await_same:
  assumes "poll_fn_await (poll_event (PollPoller os N T) i w (kernel_fn g) a) fin r k = (p, fin', r', k')"
    and "reactor_ok r" and "source_data r (as_source a) = Some d"
  shows "same_sources r r'"
  using poll_fn_await_reactor [of "poll_event (PollPoller os N T) i w (kernel_fn g) a" fin r k] assms(1)
    ppoll.poll_event_same [OF assms(2,3), of "kernel_fn g" k os N T i w] same_sources_refl [OF assms(2)]
  by (simp split: if_splits)

lemma ready_same:
  assumes "wait_for_event_ready (PollPoller os N T) i (as_source a) w st r = (p, st', r')"
    and "reactor_ok r" and "source_data r (as_source a) = Some d"
  shows "same_sources r r'"
  using ppoll.wait_ready_same [OF assms(2,3), of os N T i w st] assms(1) by simp

lemma poll_with_eta:
  "poll_read_with EP w f a = poll_event EP Interest_Read w f a"
  "poll_write_with EP w f a = poll_event EP Interest_Write w f a"
  by (intro ext; simp add: poll_read_with_def poll_write_with_def)+

lemma async_op_same:
  assumes "async_op nt (PollPoller os N T) a r a' r'"
    and "reactor_ok r" and "source_data r (as_source a) = Some d"
  shows "as_source a' = as_source a \<and> same_sources r r'"
  using assms
  by (induction rule: async_op.induct)
    (auto simp: io_op_defs poll_with_eta same_sources_refl split: prod.splits
      dest: mut_same ref_same await_same ready_same)

section \<open>Invariant\<close>

fun conn_asyncs :: "connect_future \<Rightarrow> fd async list" where
  "conn_asyncs (Conn_Waiting a st) = [a]"
| "conn_asyncs c = []"

fun conn_ok :: "connect_future \<Rightarrow> bool" where
  "conn_ok (Conn_Waiting a st) \<longleftrightarrow> st = Later_Call \<and> as_inner a = as_source a"
| "conn_ok c \<longleftrightarrow> True"

text \<open>The descriptors of the live objects, those of the pending connections included.\<close>

definition sources :: "('p, 'w) io_sys \<Rightarrow> Source multiset" where
  "sources st = image_mset as_source (mset (live st) + mset (concat (map conn_asyncs (conns st))))"

definition io_inv :: "('p, 'w) io_sys \<Rightarrow> bool" where
  "io_inv st \<longleftrightarrow> reactor_ok (io_reactor st) \<and> sources st = registered (io_reactor st)
     \<and> (\<forall>c \<in> set (conns st). conn_ok c)"

lemma io_invD:
  assumes "io_inv st"
  shows "reactor_ok (io_reactor st)" "sources st = registered (io_reactor st)"
    "c \<in> set (conns st) \<Longrightarrow> conn_ok c"
  using assms by (simp_all add: io_inv_def)

lemma image_remove1: "a \<in> set xs \<Longrightarrow>
  image_mset f (mset xs) = add_mset (f a) (image_mset f (mset (remove1 a xs)))"
  by (induction xs) (auto simp del: mset_remove1)

lemma sources_live:
  "sources (st\<lparr>live := xs @ live st\<rparr>) = mset (map as_source xs) + sources st"
  "a \<in> set (live st) \<Longrightarrow> sources st = add_mset (as_source a) (sources (st\<lparr>live := remove1 a (live st)\<rparr>))"
  "sources (st\<lparr>live := a # ys\<rparr>) = add_mset (as_source a) (sources (st\<lparr>live := ys\<rparr>))"
  "sources (st\<lparr>io_reactor := r\<rparr>) = sources st"
  by (simp_all add: sources_def image_remove1 [where f = as_source] del: mset_remove1)

lemma concat_remove1_mset:
  "c \<in> set cs \<Longrightarrow> mset (concat (map f cs)) = mset (f c) + mset (concat (map f (remove1 c cs)))"
  by (induction cs) (auto simp: ac_simps)

lemma sources_conns:
  "c \<in> set (conns st) \<Longrightarrow> sources st =
     mset (map as_source (conn_asyncs c)) + sources (st\<lparr>conns := remove1 c (conns st)\<rparr>)"
  "sources (st\<lparr>conns := c # cs\<rparr>) = mset (map as_source (conn_asyncs c)) + sources (st\<lparr>conns := cs\<rparr>)"
  by (simp_all add: sources_def concat_remove1_mset [where f = conn_asyncs])

lemma live_registered:
  assumes "io_inv st" and "a \<in> set (live st)"
  shows "source_data (io_reactor st) (as_source a) \<noteq> None"
proof -
  have "as_source a \<in># registered (io_reactor st)"
    using sources_live(2) [OF assms(2)] io_invD(2) [OF assms(1)] by (metis union_single_eq_member)
  then show ?thesis by (simp add: finite_dom_map_of domIff)
qed

lemma conn_registered:
  assumes "io_inv st" and "Conn_Waiting a s \<in> set (conns st)"
  shows "source_data (io_reactor st) (as_source a) \<noteq> None"
proof -
  have "as_source a \<in># registered (io_reactor st)"
    using sources_conns(1) [OF assms(2)] io_invD(2) [OF assms(1)] by (simp flip: io_invD(2))
  then show ?thesis by (simp add: finite_dom_map_of domIff)
qed

section \<open>Every step keeps the invariant\<close>

lemma inv_made:
  assumes inv: "io_inv st"
    and res: "xs = [] \<and> same_sources (io_reactor st) r' \<or>
      (\<exists>a. xs = [a] \<and> source_data (io_reactor st) (as_source a) = None
         \<and> r' = with_event (as_source a) EventData_default (io_reactor st))"
  shows "io_inv (st\<lparr>live := xs @ live st, io_reactor := r'\<rparr>)"
proof -
  have "sources (st\<lparr>live := xs @ live st, io_reactor := r'\<rparr>) = mset (map as_source xs) + sources st"
    by (simp only: sources_live)
  then show ?thesis
    using res io_invD [OF inv]
    by (auto simp: io_inv_def same_sources_def reactor_ok_with_event registered_with_fresh
        simp del: with_event_simps(3))
qed

lemma inv_dropped:
  assumes inv: "io_inv st" and a: "a \<in> set (live st)"
  shows "io_inv (st\<lparr>live := remove1 a (live st), io_reactor := without_event (as_source a) (io_reactor st)\<rparr>)"
proof -
  have "sources st = add_mset (as_source a) (sources (st\<lparr>live := remove1 a (live st)\<rparr>))"
    using a by (rule sources_live)
  moreover have "registered (io_reactor st) =
      add_mset (as_source a) (registered (without_event (as_source a) (io_reactor st)))"
    using live_registered [OF inv a] by (rule registered_without)
  ultimately show ?thesis
    using io_invD [OF inv]
    by (auto simp: io_inv_def sources_live(4) reactor_ok_without_event simp del: without_event_simps(3))
qed

lemma inv_op:
  assumes inv: "io_inv st" and a: "a \<in> set (live st)"
    and op: "as_source a' = as_source a" "same_sources (io_reactor st) r'"
  shows "io_inv (st\<lparr>live := a' # remove1 a (live st), io_reactor := r'\<rparr>)"
proof -
  have "sources (st\<lparr>live := a' # remove1 a (live st), io_reactor := r'\<rparr>) = sources st"
    unfolding sources_live(4) sources_live(3) using sources_live(2) [OF a] op(1) by simp
  then show ?thesis
    using op(2) io_invD [OF inv] by (simp add: io_inv_def same_sources_def)
qed

lemma inv_reactor:
  assumes "io_inv st" and "same_sources (io_reactor st) r'"
  shows "io_inv (st\<lparr>io_reactor := r'\<rparr>)"
  using assms by (simp add: io_inv_def same_sources_def sources_live(4))

lemma inv_accept:
  assumes inv: "io_inv st" and a: "a \<in> set (live st)"
    and acc: "IncomingTcp_poll_next target nt (PollPoller os N T) w (TcpListener_incoming a) (io_reactor st) k =
       (p, r', k')"
  shows "io_inv (st\<lparr>live := (case p of Ready (Some res) \<Rightarrow> made_async (Ready res) | _ \<Rightarrow> []) @ live st,
       io_reactor := r'\<rparr>)"
proof -
  let ?r = "io_reactor st"
  have ok: "reactor_ok ?r" using io_invD(1) [OF inv] .
  obtain d where d: "source_data ?r (as_source a) = Some d" using live_registered [OF inv a] by blast
  obtain res r1 k1 where f: "accept_fn target nt (PollPoller os N T) (as_inner a) ?r k = (res, r1, k1)"
    using prod_cases3 by blast
  have poll: "poll_accept target nt (PollPoller os N T) w a ?r k =
      (if res = Err WouldBlock then (Pending, with_event (as_source a) (dir_enable Interest_Read w d) r1, k1)
       else (Ready res, r1, k1))"
    using acceptor.poll_event_eq [OF ok d f] by (simp add: poll_accept_def)
  from ppoll.accept_cases [OF ok f] consider
      (failed) e where "res = Err e" "r1 = ?r"
    | (made) fd addr where "res = Ok (socket fd, addr)" "source_data ?r fd = None"
        "r1 = with_event fd EventData_default ?r"
    by auto
  then show ?thesis
  proof cases
    case failed
    then show ?thesis
      using acc poll same_sources_refl [OF ok] same_sources_enable [OF ok d, of Interest_Read w]
      by (intro inv_made [OF inv])
        (auto simp: IncomingTcp_poll_next_def TcpListener_incoming_def split: if_splits)
  next
    case made
    then show ?thesis
      using acc poll by (intro inv_made [OF inv])
        (auto simp: IncomingTcp_poll_next_def TcpListener_incoming_def)
  qed
qed

lemma inv_conns:
  assumes inv: "io_inv st" and c: "c \<in> set (conns st)" and c': "conn_ok c'"
    and ok: "reactor_ok r'"
    and eq: "mset (map as_source (conn_asyncs c)) + registered r' =
      mset (map as_source (xs @ conn_asyncs c')) + registered (io_reactor st)"
  shows "io_inv (st\<lparr>live := xs @ live st, conns := c' # remove1 c (conns st), io_reactor := r'\<rparr>)"
proof -
  let ?rest = "sources (st\<lparr>conns := remove1 c (conns st)\<rparr>)"
  have "sources (st\<lparr>live := xs @ live st, conns := c' # remove1 c (conns st), io_reactor := r'\<rparr>) =
      mset (map as_source (xs @ conn_asyncs c')) + ?rest"
    by (simp add: sources_def)
  moreover have "mset (map as_source (conn_asyncs c)) + ?rest = registered (io_reactor st)"
    using sources_conns(1) [OF c] io_invD(2) [OF inv] by simp
  ultimately have "mset (map as_source (conn_asyncs c)) +
      sources (st\<lparr>live := xs @ live st, conns := c' # remove1 c (conns st), io_reactor := r'\<rparr>) =
      mset (map as_source (conn_asyncs c)) + registered r'"
    using eq by (simp add: ac_simps)
  moreover have "\<forall>x \<in> set (remove1 c (conns st)). conn_ok x"
    using io_invD(3) [OF inv] set_remove1_subset by fast
  ultimately show ?thesis using ok c' by (simp add: io_inv_def)
qed

lemma inv_connect_poll:
  assumes inv: "io_inv st" and c: "c \<in> set (conns st)"
    and poll: "TcpStream_connect target nt (PollPoller os N T) w c (io_reactor st) k = (p, c', r', k')"
  shows "io_inv (st\<lparr>live := made_async p @ live st, conns := c' # remove1 c (conns st), io_reactor := r'\<rparr>)"
proof (cases c)
  case (Conn_Start addr)
  note ok = io_invD(1) [OF inv]
  from connect_first_cases [OF ok poll [unfolded Conn_Start]] show ?thesis
    using ok Conn_Start
    by (intro inv_conns [OF inv c])
      (auto simp: reactor_ok_with_event finite_dom_map_of domIff)
next
  case (Conn_Waiting a s)
  note ok = io_invD(1) [OF inv]
  have s: "s = Later_Call" "as_inner a = as_source a" using io_invD(3) [OF inv c] Conn_Waiting by simp_all
  obtain d where d: "source_data (io_reactor st) (as_source a) = Some d"
    using conn_registered [OF inv] c Conn_Waiting by blast
  obtain x k1 where x: "sys_peer_addr nt (as_inner a) k = (x, k1)" by fastforce
  have poll': "(p, c', r', k') =
     (if enabled (ed_write d)
      then (Pending, Conn_Waiting a Later_Call,
        with_event (as_source a) (dir_enable Interest_Write w d) (io_reactor st), k)
      else (case x of Inl e \<Rightarrow> (Ready (Err e), Conn_Done, without_event (as_source a) (io_reactor st),
                               sys_close nt (as_inner a) k1)
            | Inr _ \<Rightarrow> (Ready (Ok a), Conn_Done, io_reactor st, k1)))"
    using poll x Conn_Waiting s(1) ppoll.connect_wait_later [OF d, of nt os N T w k]
    by (cases x) (auto simp: TcpStream_connect_def split: if_splits)
  have "registered (io_reactor st) =
      add_mset (as_source a) (registered (without_event (as_source a) (io_reactor st)))"
    using d by (intro registered_without) simp
  then show ?thesis
    using poll' ok d s Conn_Waiting reactor_ok_data [OF ok d]
    by (intro inv_conns [OF inv c])
      (auto simp: reactor_ok_with_event reactor_ok_without_event
        simp del: with_event_simps(3) without_event_simps(3) split: if_splits sum.splits)
next
  case Conn_Done
  then show ?thesis
    using poll io_invD(1) [OF inv]
    by (intro inv_conns [OF inv c]) (auto simp: TcpStream_connect_def)
qed

lemma inv_connect_drop:
  assumes inv: "io_inv st" and c: "c \<in> set (conns st)"
    and drop: "connect_future_drop nt (PollPoller os N T) c (io_reactor st) k = (u, r', k')"
  shows "io_inv (st\<lparr>conns := remove1 c (conns st), io_reactor := r'\<rparr>)"
proof -
  have reg: "source_data (io_reactor st) (as_source a) \<noteq> None" if "c = Conn_Waiting a s" for a s
    using conn_registered [OF inv] c that by blast
  have "reactor_ok r' \<and> mset (map as_source (conn_asyncs c)) + registered r' = registered (io_reactor st)"
  proof (cases c)
    case (Conn_Waiting a s)
    have "r' = without_event (as_source a) (io_reactor st)"
      using drop ppoll.drop_registered [OF reg [OF Conn_Waiting], of os N T "socket_handle nt" k] Conn_Waiting
      by (simp add: connect_future_drop_def)
    then show ?thesis
      using registered_without [OF reg [OF Conn_Waiting]] io_invD(1) [OF inv] Conn_Waiting
      by (simp add: reactor_ok_without_event del: without_event_simps(3))
  qed (use drop io_invD(1) [OF inv] in \<open>auto simp: connect_future_drop_def\<close>)
  moreover have "\<forall>x \<in> set (remove1 c (conns st)). conn_ok x"
    using io_invD(3) [OF inv] set_remove1_subset by fast
  moreover have "mset (map as_source (conn_asyncs c)) + sources (st\<lparr>conns := remove1 c (conns st)\<rparr>) =
      registered (io_reactor st)"
    using sources_conns(1) [OF c] io_invD(2) [OF inv] by simp
  ultimately have "reactor_ok r'" "\<forall>x \<in> set (remove1 c (conns st)). conn_ok x"
    and "mset (map as_source (conn_asyncs c)) + sources (st\<lparr>conns := remove1 c (conns st)\<rparr>) =
      mset (map as_source (conn_asyncs c)) + registered r'"
    by simp_all
  then show ?thesis
    unfolding io_inv_def sources_live(4) [of r' "st\<lparr>conns := remove1 c (conns st)\<rparr>"] by simp
qed

lemma io_inv_step:
  assumes "io_step target nt N T st st'" and inv: "io_inv st"
  shows "io_inv st'"
  using assms(1)
proof cases
  case (step_new H t k res r' k')
  show ?thesis
    unfolding step_new(1) using ppoll.new_cases [OF io_invD(1) [OF inv] step_new(2)]
    by (intro inv_made [OF inv]) (auto simp: same_sources_refl io_invD(1) [OF inv])
next
  case (step_without_nonblocking H t k res r' k')
  then show ?thesis
    using io_invD(1) [OF inv]
    by (auto intro!: inv_made [OF inv] simp: ppoll.without_nonblocking_eq same_sources_refl split: if_splits)
next
  case (step_tcp_bind addr k res r' k')
  show ?thesis
    unfolding step_tcp_bind(1)
    using ppoll.wrap_cases [OF io_invD(1) [OF inv] step_tcp_bind(2) [unfolded TcpListener_bind_def]]
    by (intro inv_made [OF inv]) (auto simp: same_sources_refl io_invD(1) [OF inv])
next
  case (step_udp_bind addr k res r' k')
  show ?thesis
    unfolding step_udp_bind(1)
    using ppoll.wrap_cases [OF io_invD(1) [OF inv] step_udp_bind(2) [unfolded UdpSocket_bind_def]]
    by (intro inv_made [OF inv]) (auto simp: same_sources_refl io_invD(1) [OF inv])
next
  case (step_drop a H k u r' k')
  have "r' = without_event (as_source a) (io_reactor st)"
    using step_drop(3) ppoll.drop_registered [OF live_registered [OF inv step_drop(2)], of "net_os nt" N T H k]
    by simp
  then show ?thesis using inv_dropped [OF inv step_drop(2)] step_drop(1) by simp
next
  case (step_into_inner a H k t r' k')
  have "r' = without_event (as_source a) (io_reactor st)"
    using step_into_inner(3)
      ppoll.into_inner_registered [OF live_registered [OF inv step_into_inner(2)], of "net_os nt" N T H k]
    by simp
  then show ?thesis using inv_dropped [OF inv step_into_inner(2)] step_into_inner(1) by simp
next
  case (step_op a a' r')
  obtain d where "source_data (io_reactor st) (as_source a) = Some d"
    using live_registered [OF inv step_op(2)] by blast
  from async_op_same [OF step_op(3) io_invD(1) [OF inv] this] show ?thesis
    unfolding step_op(1) by (intro inv_op [OF inv step_op(2)]) simp_all
next
  case (step_accept a w k p r' k')
  then show ?thesis using inv_accept [OF inv step_accept(2,3)] by simp
next
  case (step_connect addr)
  then show ?thesis using inv by (simp add: io_inv_def sources_def)
next
  case (step_connect_poll c w k res' c' r' k')
  then show ?thesis using inv_connect_poll [OF inv step_connect_poll(2,3)] by simp
next
  case (step_connect_drop c k u r' k')
  then show ?thesis using inv_connect_drop [OF inv step_connect_drop(2,3)] by simp
next
  case (step_timers q)
  then show ?thesis
    using io_invD(1) [OF inv] by (auto intro!: inv_reactor [OF inv] simp: same_sources_def reactor_ok_def)
next
  case (step_wait wake n u r' n')
  have "same_sources (io_reactor st) r'"
    using step_wait(2) reactor_ok_wait [OF io_invD(1) [OF inv], of "PollPoller (net_os nt) N T" "net_os nt" N wake n]
      Reactor_wait_dom [of "PollPoller (net_os nt) N T" "net_os nt" N wake "io_reactor st" n]
    by (simp add: same_sources_def)
  then show ?thesis using inv_reactor [OF inv] step_wait(1) by simp
qed

text \<open>A thread starts with a new reactor and no I/O object.\<close>

definition io_init :: "'p \<Rightarrow> ('p, 'w) io_sys" where
  "io_init p = \<lparr>live = [], conns = [], io_reactor = Reactor_new p\<rparr>"

abbreviation io_reachable ::
  "target_os \<Rightarrow> 'k net \<Rightarrow> 'k notifier_fd \<Rightarrow> 'k timeout \<Rightarrow> (poll_poller, 'w) io_sys \<Rightarrow> bool" where
  "io_reachable target nt N T st \<equiv> (\<exists>p. (io_step target nt N T)\<^sup>*\<^sup>* (io_init p) st)"

lemma io_inv_reachable: "io_reachable target nt N T st \<Longrightarrow> io_inv st"
proof (elim exE)
  fix p
  assume "(io_step target nt N T)\<^sup>*\<^sup>* (io_init p) st"
  then show "io_inv st"
  proof induction
    case base
    show ?case
      by (simp add: io_inv_def io_init_def sources_def Reactor_new_def reactor_ok_new [unfolded Reactor_new_def])
  next
    case (step st st')
    then show ?case using io_inv_step by blast
  qed
qed

section \<open>Properties\<close>

text \<open>
  C16: Whatever sequence of I/O operations, waits and timer changes a thread goes through, the
  reactor stays well formed, the sources registered with it are exactly the descriptors of
  the live \<open>Async\<close> values and of the pending \<open>connect\<close> futures, and no two of these share a
  descriptor. When none is left, no source is registered.
\<close>

theorem registered_iff_live:
  assumes "io_reachable target nt N T st"
  shows "reactor_ok (io_reactor st)
    \<and> (\<forall>s. count (sources st) s = (if source_data (io_reactor st) s = None then 0 else 1))
    \<and> (live st = [] \<and> conns st = [] \<longrightarrow> event_sources (io_reactor st) = [])"
proof -
  have inv: "io_inv st" using assms by (rule io_inv_reachable)
  have "count (sources st) s = (if source_data (io_reactor st) s = None then 0 else 1)" for s
    using io_invD(2) [OF inv] by (simp add: finite_dom_map_of domIff)
  moreover have "event_sources (io_reactor st) = []" if "live st = []" "conns st = []"
  proof -
    have "registered (io_reactor st) = {#}"
      using io_invD(2) [OF inv] that by (simp add: sources_def)
    then have "dom (source_data (io_reactor st)) = {}"
      by (simp add: mset_set_empty_iff finite_dom_map_of)
    then show ?thesis by simp
  qed
  ultimately show ?thesis using io_invD(1) [OF inv] by blast
qed

text \<open>A reachable state with a live object and a pending connection.\<close>

definition listening :: "(poll_poller, nat) reactor" where
  "listening = with_event 8 EventData_default (Reactor_new \<lparr>pollfds = []\<rparr>)"

definition connecting :: "(poll_poller, nat) io_sys" where
  "connecting = \<lparr>live = [socket 8], conns = [Conn_Waiting (socket 9) Later_Call],
     io_reactor = with_event 9 (dir_enable Interest_Write 5 EventData_default)
       (with_event 9 EventData_default listening)\<rparr>"

lemma connecting_reachable:
  "io_reachable Linux_Android calm_net (EventFd reading_os 3) PollTimeout connecting"
proof -
  let ?step = "io_step Linux_Android calm_net (EventFd reading_os 3) PollTimeout"
  let ?EP = "PollPoller (net_os calm_net) (EventFd reading_os 3) PollTimeout"
  let ?r = "Reactor_new \<lparr>pollfds = []\<rparr> :: (poll_poller, nat) reactor"
  let ?st = "\<lparr>live = [socket 8], conns = [Conn_Start (V4 1 80)], io_reactor = listening\<rparr>"
  have ok: "reactor_ok ?r" "reactor_ok listening"
    by (simp_all add: reactor_ok_new listening_def reactor_ok_with_event)
  have sd: "source_data ?r s = None" for s by (simp add: Reactor_new_def)
  have "set_nonblocking Linux_Android (net_os calm_net) 8 [] = (Ok (), [])"
    by (simp add: set_nonblocking_def reading_os_def calm_net_def)
  then have "Async_new Linux_Android (net_os calm_net) ?EP (socket_handle calm_net) 8 ?r [] =
      (Ok (socket 8), listening, [])"
    using ok(1) sd by (simp add: Async_new_def ppoll.without_nonblocking_eq listening_def)
  then have new: "?step (io_init \<lparr>pollfds = []\<rparr>) \<lparr>live = [socket 8], conns = [], io_reactor = listening\<rparr>"
    using step_new [of Linux_Android calm_net "EventFd reading_os 3" PollTimeout "socket_handle calm_net" 8
        "io_init \<lparr>pollfds = []\<rparr>" "[]" "Ok (socket 8)" listening "[]"] by (simp add: io_init_def)
  have start: "?step \<lparr>live = [socket 8], conns = [], io_reactor = listening\<rparr>
      \<lparr>live = [socket 8], conns = [Conn_Start (V4 1 80)], io_reactor = listening\<rparr>"
    using step_connect [of Linux_Android calm_net "EventFd reading_os 3" PollTimeout
        "\<lparr>live = [socket 8], conns = [], io_reactor = listening\<rparr>" "V4 1 80"] by simp
  have "tcp_socket Linux_Android calm_net (V4 1 80) [] = (Ok 9, [])"
    "sys_connect calm_net 9 (V4 1 80) [] = (Inl InProgress, [])"
    by (simp_all add: tcp_socket_def calm_net_def)
  then have "TcpStream_connect Linux_Android calm_net ?EP 5 (Conn_Start (V4 1 80)) listening [] =
      (Pending, Conn_Waiting (socket 9) Later_Call, io_reactor connecting, [])"
    using connect_first_facts [OF ok(2), of Linux_Android calm_net "V4 1 80" "[]" "Ok 9" "[]"
        "net_os calm_net" "EventFd reading_os 3" PollTimeout 5] sd
    by (simp add: connecting_def) (simp add: listening_def)
  then have poll: "?step ?st connecting"
    using step_connect_poll [of "Conn_Start (V4 1 80)" ?st Linux_Android calm_net "EventFd reading_os 3"
        PollTimeout 5 "[]"] by (fastforce simp: connecting_def)
  show ?thesis
    by (intro exI, rule converse_rtranclp_into_rtranclp, rule new,
        rule converse_rtranclp_into_rtranclp, rule start, rule r_into_rtranclp, rule poll)
qed

theorem registered_iff_live_witness:
  "reactor_ok (io_reactor connecting) \<and> count (sources connecting) 9 = 1"
  using registered_iff_live [OF connecting_reachable] by (simp add: connecting_def)

text \<open>
  C19: In every reachable state no operation on a live object panics: dropping it, taking the
  object out, polling an operation on it, waiting for it to become ready, and polling or
  dropping a pending connection. The lookups of the source in the reactor's table, on which
  all of them panic when the source is missing, always succeed.
\<close>

theorem live_objects_never_panic:
  assumes "io_reachable target nt N T st"
  shows "(\<forall>a \<in> set (live st).
      fst (Async_drop (PollPoller (net_os nt) N T) H a (io_reactor st) k) = Ok ()
    \<and> fst (Async_into_inner (PollPoller (net_os nt) N T) H a (io_reactor st) k) = Ok (as_inner a)
    \<and> fst (poll_event (PollPoller (net_os nt) N T) i w (kernel_fn g) a (io_reactor st) k) \<noteq> Ready (Panic m)
    \<and> fst (poll_event_mut (PollPoller (net_os nt) N T) i w (kernel_fn_mut g') a (io_reactor st) k) \<noteq> Ready (Panic m)
    \<and> fst (poll_accept target nt (PollPoller (net_os nt) N T) w a (io_reactor st) k) \<noteq> Ready (Panic m)
    \<and> (\<forall>ph \<in> {First_Call, Later_Call}.
         fst (wait_for_event_ready (PollPoller (net_os nt) N T) i (as_source a) w ph (io_reactor st))
           \<in> {Pending, Ready (Ok ())}))
   \<and> (\<forall>c \<in> set (conns st). c \<noteq> Conn_Done \<longrightarrow>
      fst (TcpStream_connect target nt (PollPoller (net_os nt) N T) w c (io_reactor st) k) \<noteq> Ready (Panic m)
    \<and> fst (connect_future_drop nt (PollPoller (net_os nt) N T) c (io_reactor st) k) = Ok ())"
proof -
  let ?EP = "PollPoller (net_os nt) N T" and ?r = "io_reactor st"
  have inv: "io_inv st" using assms by (rule io_inv_reachable)
  note ok = io_invD(1) [OF inv]
  have objects: "fst (Async_drop ?EP H a ?r k) = Ok () \<and> fst (Async_into_inner ?EP H a ?r k) = Ok (as_inner a)
    \<and> fst (poll_event ?EP i w (kernel_fn g) a ?r k) \<noteq> Ready (Panic m)
    \<and> fst (poll_event_mut ?EP i w (kernel_fn_mut g') a ?r k) \<noteq> Ready (Panic m)
    \<and> fst (poll_accept target nt ?EP w a ?r k) \<noteq> Ready (Panic m)
    \<and> (\<forall>ph \<in> {First_Call, Later_Call}.
         fst (wait_for_event_ready ?EP i (as_source a) w ph ?r) \<in> {Pending, Ready (Ok ())})"
    if a: "a \<in> set (live st)" for a
  proof -
    obtain d where d: "source_data ?r (as_source a) = Some d" using live_registered [OF inv a] by blast
    have "fst (poll_accept target nt ?EP w a ?r k) \<noteq> Ready (Panic m)"
      unfolding poll_accept_def by (rule acceptor.poll_event_no_panic [OF ok d])
    moreover have "fst (poll_event_mut ?EP i w (kernel_fn_mut g') a ?r k) \<noteq> Ready (Panic m)"
      using krefpoll.poll_event_no_panic [OF ok d, of "net_os nt" N T i w g' k m]
      by (cases "poll_event ?EP i w (kernel_fn_ref g') a ?r k") (simp add: by_value)
    ultimately show ?thesis
      using d kpoll.poll_event_no_panic [OF ok d]
      by (simp add: ppoll.drop_registered ppoll.into_inner_registered ppoll.wait_ready)
  qed
  have connections: "fst (TcpStream_connect target nt ?EP w c ?r k) \<noteq> Ready (Panic m)
      \<and> fst (connect_future_drop nt ?EP c ?r k) = Ok ()"
    if c: "c \<in> set (conns st)" "c \<noteq> Conn_Done" for c
  proof (cases c)
    case (Conn_Start addr)
    then show ?thesis
      using connect_first_cases [OF ok, of target nt "net_os nt" N T w addr k]
      by (cases "TcpStream_connect target nt ?EP w c ?r k") (auto simp: connect_future_drop_def)
  next
    case (Conn_Waiting b s)
    obtain d where d: "source_data ?r (as_source b) = Some d"
      using conn_registered [OF inv] c Conn_Waiting by blast
    have "s = Later_Call" using io_invD(3) [OF inv c(1)] Conn_Waiting by simp
    then show ?thesis
      using Conn_Waiting d
      by (simp add: TcpStream_connect_def connect_future_drop_def ppoll.drop_registered
          ppoll.connect_wait_later [OF d] split: prod.splits sum.splits)
  qed (use c in simp)
  show ?thesis using objects connections by blast
qed

theorem live_objects_never_panic_witness:
  "fst (Async_drop reading_poller (socket_handle calm_net) (socket 8) (io_reactor connecting) []) = Ok ()
   \<and> fst (connect_future_drop calm_net reading_poller (Conn_Waiting (socket 9) Later_Call)
        (io_reactor connecting) []) = Ok ()"
proof -
  have "net_os calm_net = reading_os" "socket 8 \<in> set (live connecting)"
    "Conn_Waiting (socket 9) Later_Call \<in> set (conns connecting)"
    by (simp_all add: calm_net_def connecting_def)
  then show ?thesis
    using live_objects_never_panic [OF connecting_reachable, of "socket_handle calm_net" "[]" Interest_Read 5
        "\<lambda>t k. (Inl WouldBlock :: io_error + nat, k)" "[]" "\<lambda>t k. (Inl WouldBlock :: io_error + nat, t, k)"]
    by auto
qed

end
