(* ===== verification/Reactor_Spec.thy ===== *)
theory Reactor_Spec
  imports Reactor
begin

text \<open>
  What the reactor of \<open>src/src/reactor.rs\<close> promises, apart from how it keeps its tables: a
  set of registered sources and one waker per armed slot, where a slot is a direction of a
  source or a timer. Every sequence of calls of the reactor over the Unix poller is a
  sequence of steps of this specification, with the same results and the same wakers
  called. The properties of the wakers are proved of the specification and hold of the
  reactor by the refinement.
\<close>

section \<open>The specification\<close>

datatype slot = Dir Source Interest | Tmr timer_key

record 'w rspec =
  registered :: "Source set"
  pending :: "slot \<Rightarrow> 'w option"

text \<open>The calls of the reactor and what they return; \<open>wait\<close> also shows the wakers it called.\<close>

datatype 'w rcall =
    Call_register_event Source
  | Call_deregister_event Source
  | Call_enable_event Source Interest 'w
  | Call_is_event_ready Source Interest
  | Call_register_timer instant 'w
  | Call_cancel_timer Id_rs instant
  | Call_modify_timer Id_rs instant 'w
  | Call_wait

datatype 'w rreply =
    Done "unit res"
  | Is_ready "bool res"
  | Timer_id Id_rs
  | Woken "unit res" "'w list"

text \<open>Calling the wakers of some slots in turn: an armed slot is disarmed and its waker called.\<close>

fun fire :: "slot list \<Rightarrow> (slot \<Rightarrow> 'w option) \<Rightarrow> 'w list \<times> (slot \<Rightarrow> 'w option)" where
  "fire [] p = ([], p)"
| "fire (x # xs) p =
     (case p x of
        None \<Rightarrow> fire xs p
      | Some w \<Rightarrow> (let (ws, p') = fire xs (p(x := None)) in (w # ws, p')))"

definition event_slots :: "Source \<times> Filter \<Rightarrow> slot list" where
  "event_slots e =
     (if fl_read (snd e) then [Dir (fst e) Interest_Read] else []) @
     (if fl_write (snd e) then [Dir (fst e) Interest_Write] else [])"

definition due_slots :: "instant \<Rightarrow> (slot \<Rightarrow> 'w option) \<Rightarrow> slot list" where
  "due_slots now p = map Tmr (sorted_list_of_set {k. fst k \<le> now \<and> p (Tmr k) \<noteq> None})"

fun slot_source :: "slot \<Rightarrow> Source option" where
  "slot_source (Dir s i) = Some s"
| "slot_source (Tmr k) = None"

text \<open>
  The steps. A \<open>wait\<close> fails and changes nothing, or handles the events \<open>evs\<close> that the system
  reports and the timers due at a time \<open>now\<close>; it stops at an event of a source that is not
  registered.
\<close>

inductive spec_step :: "'w rcall \<Rightarrow> 'w rreply \<Rightarrow> 'w rspec \<Rightarrow> 'w rspec \<Rightarrow> bool" where
  register_new: "s \<notin> registered a \<Longrightarrow>
     spec_step (Call_register_event s) (Done (Ok ())) a (a\<lparr>registered := insert s (registered a)\<rparr>)"
| register_again: "s \<in> registered a \<Longrightarrow>
     spec_step (Call_register_event s)
       (Done (Err (Other ''event source already registered in reactor''))) a a"
| deregister: "s \<in> registered a \<Longrightarrow>
     spec_step (Call_deregister_event s) (Done (Ok ())) a
       \<lparr>registered = registered a - {s},
        pending = (\<lambda>x. if slot_source x = Some s then None else pending a x)\<rparr>"
| deregister_missing: "s \<notin> registered a \<Longrightarrow>
     spec_step (Call_deregister_event s) (Done (Panic ''deregistering non-existent event source'')) a a"
| enable: "s \<in> registered a \<Longrightarrow>
     spec_step (Call_enable_event s i w) (Done (Ok ())) a (a\<lparr>pending := (pending a)(Dir s i \<mapsto> w)\<rparr>)"
| enable_missing: "s \<notin> registered a \<Longrightarrow>
     spec_step (Call_enable_event s i w) (Done (Panic ''enabling non-existent event source'')) a a"
| ready: "s \<in> registered a \<Longrightarrow>
     spec_step (Call_is_event_ready s i) (Is_ready (Ok (pending a (Dir s i) = None))) a a"
| ready_missing: "s \<notin> registered a \<Longrightarrow>
     spec_step (Call_is_event_ready s i) (Is_ready (Panic ''checking non-existent event source'')) a a"
| timer_new: "pending a (Tmr (e, i)) = None \<Longrightarrow>
     spec_step (Call_register_timer e w) (Timer_id i) a (a\<lparr>pending := (pending a)(Tmr (e, i) \<mapsto> w)\<rparr>)"
| timer_cancel:
    "spec_step (Call_cancel_timer i e) (Done (Ok ())) a (a\<lparr>pending := (pending a)(Tmr (e, i) := None)\<rparr>)"
| timer_modify: "pending a (Tmr (e, i)) \<noteq> None \<Longrightarrow>
     spec_step (Call_modify_timer i e w) (Done (Ok ())) a (a\<lparr>pending := (pending a)(Tmr (e, i) \<mapsto> w)\<rparr>)"
| timer_gone: "pending a (Tmr (e, i)) = None \<Longrightarrow>
     spec_step (Call_modify_timer i e w) (Done (Ok ())) a a"
| wait_ok: "fst ` set evs \<subseteq> registered a \<Longrightarrow> fire (concat (map event_slots evs)) (pending a) = (ws, p) \<Longrightarrow>
     fire (due_slots now p) p = (ws', p') \<Longrightarrow>
     spec_step Call_wait (Woken (Ok ()) (ws @ ws')) a (a\<lparr>pending := p'\<rparr>)"
| wait_stray: "fst ` set evs \<subseteq> registered a \<Longrightarrow> s \<notin> registered a \<Longrightarrow>
     fire (concat (map event_slots evs)) (pending a) = (ws, p) \<Longrightarrow>
     spec_step Call_wait (Woken (Panic ''called Option::unwrap() on a None value'') ws) a (a\<lparr>pending := p\<rparr>)"
| wait_fails: "spec_step Call_wait (Woken (Err e) []) a a"

inductive spec_run :: "'w rcall list \<Rightarrow> 'w rreply list \<Rightarrow> 'w rspec \<Rightarrow> 'w rspec \<Rightarrow> bool" where
  no_calls: "spec_run [] [] a a"
| next_call: "spec_step c rep a b \<Longrightarrow> spec_run cs reps b d \<Longrightarrow> spec_run (c # cs) (rep # reps) a d"

inductive_cases spec_run_ConsE: "spec_run (c # cs) reps a d"
inductive_cases spec_run_NilE: "spec_run [] reps a d"

section \<open>A kernel with a record beside it\<close>

text \<open>The system calls of a kernel next to a second state that they leave alone.\<close>

type_synonym ('k, 'e) rkernel = "'k \<times> 'e"

definition lift_call :: "('k \<Rightarrow> 'a \<times> 'k) \<Rightarrow> ('k, 'e) rkernel \<Rightarrow> 'a \<times> ('k, 'e) rkernel" where
  "lift_call f ke = (let (a, k1) = f (fst ke) in (a, k1, snd ke))"

definition lift_os :: "'k os \<Rightarrow> ('k, 'e) rkernel os" where
  "lift_os os = \<lparr>
     sys_read = (\<lambda>fd n. lift_call (sys_read os fd n)),
     sys_write = (\<lambda>fd bs. lift_call (sys_write os fd bs)),
     sys_poll = (\<lambda>fds t. lift_call (sys_poll os fds t)),
     sys_timerfd_settime = (\<lambda>fd it. lift_call (sys_timerfd_settime os fd it)),
     sys_now = lift_call (sys_now os),
     sys_eventfd = (\<lambda>n fl. lift_call (sys_eventfd os n fl)),
     sys_pipe = lift_call (sys_pipe os),
     sys_timerfd_create = (\<lambda>fl. lift_call (sys_timerfd_create os fl)),
     sys_ioctl_fionbio = (\<lambda>fd b. lift_call (sys_ioctl_fionbio os fd b)),
     sys_fcntl_getfl = (\<lambda>fd. lift_call (sys_fcntl_getfl os fd)),
     sys_fcntl_setfl = (\<lambda>fd fl. lift_call (sys_fcntl_setfl os fd fl))\<rparr>"

lemma lift_call_snd [simp]: "snd (snd (lift_call f k)) = snd k"
  by (simp add: lift_call_def split: prod.splits)

lemma lift_callD: "lift_call f k = (a, k', e) \<Longrightarrow> e = snd k"
  using lift_call_snd [of f k] by simp

lemma lift_now: "fst (sys_now (lift_os os) k) = fst (sys_now os (fst k))"
  by (simp add: lift_os_def lift_call_def split: prod.splits)

locale side_world =
  fixes os :: "('k, 'e) rkernel os"
    and N :: "('k, 'e) rkernel notifier_fd"
  assumes now_keeps: "snd (snd (sys_now os k)) = snd k"
    and clear_keeps: "snd (snd (nf_clear N k)) = snd k"
    and notify_keeps: "snd (snd (nf_notify N k)) = snd k"
begin

lemma wake_keeps: "snd (kernel (Notifier_wake N n)) = snd (kernel n)"
  using notify_keeps by (simp add: notifier_defs split: prod.splits) (metis snd_conv)

lemma wakes_keep: "snd (kernel ((Notifier_wake N ^^ m) n)) = snd (kernel n)"
  by (induction m) (simp_all add: wake_keeps)

lemma clear_notifications_keeps: "snd (kernel (Reactor_clear_notifications N n)) = snd (kernel n)"
  using clear_keeps by (simp add: Reactor_clear_notifications_def notifier_defs split: prod.splits) (metis snd_conv)

end

interpretation efd_side: side_world "lift_os os" "EventFd (lift_os os) fd"
  for os :: "'k os" and fd
proof (unfold_locales, goal_cases)
  case (1 k)
  show ?case by (simp add: lift_os_def)
next
  case (2 k)
  show ?case
    by (simp add: EventFd_def EventFd_clear_def lift_os_def split: prod.splits) (metis lift_call_snd snd_conv)
next
  case (3 k)
  show ?case
    by (simp add: EventFd_def EventFd_notify_def lift_os_def split: prod.splits sum.splits)
      (metis lift_call_snd snd_conv)
qed

interpretation pipe_side: side_world "lift_os os" "PipeFd (lift_os os) p"
  for os :: "'k os" and p
proof (unfold_locales, goal_cases)
  case (1 k)
  show ?case by (simp add: lift_os_def)
next
  case (2 k)
  show ?case
    by (simp add: PipeFd_def PipeFd_clear_def lift_os_def split: prod.splits) (metis lift_call_snd snd_conv)
next
  case (3 k)
  show ?case
    by (simp add: PipeFd_def PipeFd_notify_def lift_os_def split: prod.splits sum.splits)
      (metis lift_call_snd snd_conv)
qed

lemma lift_poll_keeps:
  assumes "PollPoller_poll (lift_os os) N T t evs p k = (x, p', k1)"
    and "\<And>t k. snd (snd (to_set_timeout T t k)) = snd k"
  shows "snd k1 = snd k"
proof -
  have calls: "snd k3 = snd k2"
    if "sys_poll (lift_os os) fds ms k2 = (y, k3)" for fds ms y and k2 k3 :: "('a, 'b) rkernel"
    using that lift_call_snd [of "sys_poll os fds ms" k2] by (simp add: lift_os_def)
  show ?thesis
    using assms(1) calls assms(2) [of t k]
    by (auto simp: PollPoller_poll_def Let_def split: prod.splits res.splits sum.splits dest!: calls)
qed

lemma timerfd_keeps: "snd (snd (to_set_timeout (TimerFd (lift_os os) tfd) t k)) = snd k"
  by (auto simp: TimerFd_def TimerFd_set_timeout_def lift_os_def split: prod.splits sum.splits
      dest: lift_callD)

lemma polltimeout_keeps: "snd (snd (to_set_timeout PollTimeout t k)) = snd k"
  by (simp add: PollTimeout_def PollTimeout_set_timeout_def)

section \<open>The reactor as a machine of calls\<close>

text \<open>Calling a waker writes it down beside the kernel.\<close>

definition log_wake :: "'w \<Rightarrow> ('k, 'w list) rkernel nworld \<Rightarrow> ('k, 'w list) rkernel nworld" where
  "log_wake w n = n\<lparr>kernel := (fst (kernel n), snd (kernel n) @ [w])\<rparr>"

definition reactor_call ::
  "('p, ('k, 'w list) rkernel) event_poller \<Rightarrow> ('k, 'w list) rkernel os \<Rightarrow> ('k, 'w list) rkernel notifier_fd \<Rightarrow>
     'w rcall \<Rightarrow> ('p, 'w) reactor \<Rightarrow> ('k, 'w list) rkernel nworld \<Rightarrow>
     ('w rreply \<times> ('p, 'w) reactor \<times> ('k, 'w list) rkernel nworld) option" where
  "reactor_call EP os N c r n =
     (case c of
        Call_register_event s \<Rightarrow>
          (let (res, r') = Reactor_register_event EP s r in Some (Done res, r', n))
      | Call_deregister_event s \<Rightarrow>
          (let (res, r') = Reactor_deregister_event EP s r in Some (Done res, r', n))
      | Call_enable_event s i w \<Rightarrow>
          (let (res, r') = Reactor_enable_event EP s i w r in Some (Done res, r', n))
      | Call_is_event_ready s i \<Rightarrow> Some (Is_ready (Reactor_is_event_ready s i r), r, n)
      | Call_register_timer e w \<Rightarrow>
          map_option (\<lambda>(i, r'). (Timer_id i, r', n)) (Reactor_register_timer e w r)
      | Call_cancel_timer i e \<Rightarrow> Some (Done (Ok ()), Reactor_cancel_timer i e r, n)
      | Call_modify_timer i e w \<Rightarrow> Some (Done (Ok ()), Reactor_modify_timer i e w r, n)
      | Call_wait \<Rightarrow>
          (let (res, r', n') = Reactor_wait EP os N log_wake r (n\<lparr>kernel := (fst (kernel n), [])\<rparr>)
           in Some (Woken res (snd (kernel n')), r', n')))"

fun reactor_run ::
  "('p, ('k, 'w list) rkernel) event_poller \<Rightarrow> ('k, 'w list) rkernel os \<Rightarrow> ('k, 'w list) rkernel notifier_fd \<Rightarrow>
     'w rcall list \<Rightarrow> ('p, 'w) reactor \<Rightarrow> ('k, 'w list) rkernel nworld \<Rightarrow>
     ('w rreply list \<times> ('p, 'w) reactor \<times> ('k, 'w list) rkernel nworld) option" where
  "reactor_run EP os N [] r n = Some ([], r, n)"
| "reactor_run EP os N (c # cs) r n =
     (case reactor_call EP os N c r n of
        None \<Rightarrow> None
      | Some (rep, r1, n1) \<Rightarrow>
          map_option (\<lambda>(reps, r2, n2). (rep # reps, r2, n2)) (reactor_run EP os N cs r1 n1))"

text \<open>The state of the specification that a reactor stands for.\<close>

definition slots :: "(Source \<Rightarrow> 'w event_data option) \<Rightarrow> (timer_key \<Rightarrow> 'w option) \<Rightarrow> slot \<Rightarrow> 'w option" where
  "slots m t x =
     (case x of
        Dir s i \<Rightarrow> (case m s of
            None \<Rightarrow> None
          | Some d \<Rightarrow> (if enabled (dir_of i d) then waker (dir_of i d) else None))
      | Tmr k \<Rightarrow> t k)"

definition reactor_abs :: "('p, 'w) reactor \<Rightarrow> 'w rspec" where
  "reactor_abs r = \<lparr>registered = dom (source_data r), pending = slots (source_data r) (armed (timer_queue r))\<rparr>"


section \<open>Firing slots\<close>

lemma fold_log [simp]: "kernel (fold log_wake ws n) = (fst (kernel n), snd (kernel n) @ ws)"
  by (induction ws arbitrary: n) (simp_all add: log_wake_def)

lemma fire_append:
  "fire (xs @ ys) p = (let (ws, p1) = fire xs p; (ws', p2) = fire ys p1 in (ws @ ws', p2))"
  by (induction xs arbitrary: p) (auto split: option.splits prod.splits)

lemma fire_pending: "snd (fire xs p) = (\<lambda>x. if x \<in> set xs then None else p x)"
  by (induction xs arbitrary: p) (auto simp: fun_eq_iff case_prod_unfold Let_def split: option.splits)

lemma map_filter_same: "\<forall>x \<in> set xs. f x = g x \<Longrightarrow> List.map_filter f xs = List.map_filter g xs"
  by (induction xs) (auto simp: map_filter_simps split: option.splits)

lemma map_filter_all: "\<forall>x \<in> set xs. f (g x) = Some (h x) \<Longrightarrow> List.map_filter f (map g xs) = map h xs"
  by (induction xs) (simp_all add: map_filter_simps)

lemma fire_wakers: "distinct xs \<Longrightarrow> fst (fire xs p) = List.map_filter p xs"
proof (induction xs arbitrary: p)
  case (Cons x xs)
  have "List.map_filter (p(x := None)) xs = List.map_filter p xs"
    using Cons.prems by (intro map_filter_same) auto
  with Cons show ?case
    by (cases "p x") (simp_all add: map_filter_simps case_prod_unfold Let_def)
qed (simp add: map_filter_simps)

lemma event_fires:
  assumes "event_data_ok d" and "m s = Some d"
  shows "fire (event_slots (s, f)) (slots m t) = (fired_wakers f d, slots (m(s \<mapsto> fired_data f d)) t)"
proof (rule prod_eqI)
  show "fst (fire (event_slots (s, f)) (slots m t)) = fst (fired_wakers f d, slots (m(s \<mapsto> fired_data f d)) t)"
    using assms by (subst fire_wakers)
      (auto simp: event_slots_def map_filter_simps slots_def dir_of_def fired_wakers_def event_data_ok_def wakeup_ok_def)
  show "snd (fire (event_slots (s, f)) (slots m t)) = snd (fired_wakers f d, slots (m(s \<mapsto> fired_data f d)) t)"
    using assms(2) by (auto simp: fire_pending event_slots_def fun_eq_iff slots_def dir_of_def fired_data_def
        split: slot.splits Interest.splits)
qed

lemma dispatch_fires:
  assumes "sources_ok m" and "dispatch_events log_wake evs m n = (res, m', n')"
  shows "\<exists>evs' ws. fst ` set evs' \<subseteq> dom (map_of m) \<and> dom (map_of m') = dom (map_of m)
    \<and> fire (concat (map event_slots evs')) (slots (map_of m) t) = (ws, slots (map_of m') t)
    \<and> kernel n' = (fst (kernel n), snd (kernel n) @ ws)
    \<and> (res = Ok () \<or> res = Panic ''called Option::unwrap() on a None value'' \<and> (\<exists>s. s \<notin> dom (map_of m)))"
  using assms
proof (induction evs arbitrary: m n)
  case Nil
  then show ?case by (intro exI [of _ "[]"]) auto
next
  case (Cons ev evs)
  obtain s f where ev: "ev = (s, f)" by fastforce
  show ?case
  proof (cases "map_of m s")
    case None
    with Cons.prems ev show ?thesis by (intro exI [of _ "[]"]) auto
  next
    case (Some d)
    then have dok: "event_data_ok d" using Cons.prems(1) sources_ok_lookup by blast
    let ?m = "bt_put s (fired_data f d) m"
    have "dispatch_events log_wake evs ?m (fold log_wake (fired_wakers f d) n) = (res, m', n')"
      using Cons.prems(2) ev Some by (simp add: event_fire_ok [OF dok])
    from Cons.IH [OF sources_ok_put [OF Cons.prems(1) fired_data_ok [OF dok]] this]
    obtain evs' ws where *: "fst ` set evs' \<subseteq> dom (map_of ?m)" "dom (map_of m') = dom (map_of ?m)"
        "fire (concat (map event_slots evs')) (slots (map_of ?m) t) = (ws, slots (map_of m') t)"
        "kernel n' = (fst (kernel (fold log_wake (fired_wakers f d) n)),
           snd (kernel (fold log_wake (fired_wakers f d) n)) @ ws)"
        "res = Ok () \<or> res = Panic ''called Option::unwrap() on a None value'' \<and> (\<exists>s'. s' \<notin> dom (map_of ?m))"
      by blast
    moreover have "dom (map_of ?m) = dom (map_of m)" using Some by auto
    ultimately show ?thesis
      using event_fires [of d "map_of m" s f t, OF dok Some] Some
      by (intro exI [of _ "(s, f) # evs'"] exI [of _ "fired_wakers f d @ ws"]) (simp add: fire_append domI, blast)
  qed
qed

lemma due_slots_eq:
  assumes "tq_ok q"
  shows "due_slots now (slots m (armed q)) = map Tmr (map fst (filter (\<lambda>e. fst (fst e) \<le> now) (timers q)))"
proof -
  let ?ks = "map fst (filter (\<lambda>e. fst (fst e) \<le> now) (timers q))"
  have ok: "bt_ok (filter (\<lambda>e. fst (fst e) \<le> now) (timers q))"
    using assms by (simp add: tq_ok_def bt_ok_filter)
  then have "sorted ?ks" "distinct ?ks" by (simp_all add: bt_ok_def strict_sorted_iff)
  moreover have "{k. fst k \<le> now \<and> slots m (armed q) (Tmr k) \<noteq> None} = set ?ks"
    by (auto simp: slots_def map_of_eq_None_iff image_iff)
  ultimately show ?thesis
    unfolding due_slots_def by (simp only: sorted_list_of_set.idem_if_sorted_distinct)
qed

lemma due_fires:
  assumes "tq_ok q"
  shows "fire (due_slots now (slots m (armed q))) (slots m (armed q)) =
    (fst (TimerQueue_clear_expired now q), slots m (armed (snd (TimerQueue_clear_expired now q))))"
proof -
  let ?l = "filter (\<lambda>e. fst (fst e) \<le> now) (timers q)"
  have dist: "distinct (map fst (timers q))" using assms by (simp add: tq_ok_def bt_ok_distinct)
  then have dl: "distinct (map Tmr (map fst ?l))"
    by (simp add: distinct_map inj_on_def distinct_filter) 
  have mem: "x \<in> set (map Tmr (map fst ?l)) \<longleftrightarrow> (\<exists>k. x = Tmr k \<and> fst k \<le> now \<and> armed q k \<noteq> None)" for x
    by (force simp: map_of_eq_None_iff)
  have "fst (fire (map (\<lambda>e. Tmr (fst e)) ?l) (slots m (armed q))) = map snd ?l"
    using dl dist by (subst fire_wakers) (auto simp: slots_def o_def intro!: map_filter_all)
  moreover have "(\<lambda>x. if x \<in> set (map Tmr (map fst ?l)) then None else slots m (armed q) x) =
      slots m (\<lambda>k. if fst k \<le> now then None else armed q k)"
    unfolding mem by (auto simp: fun_eq_iff slots_def simp del: map_of_eq_None_iff split: slot.splits)
  moreover have "map_of (filter (\<lambda>e. now < fst (fst e)) (timers q)) = (\<lambda>k. if fst k \<le> now then None else armed q k)"
    by (rule ext) (simp add: map_of_filter_later)
  ultimately show ?thesis
    using assms by (simp add: due_slots_eq TimerQueue_clear_expired_eq prod_eq_iff fire_pending o_def)
qed


section \<open>The refinement\<close>

lemma slots_timer: "slots m (t(k := v)) = (slots m t)(Tmr k := v)"
  by (auto simp: fun_eq_iff slots_def split: slot.splits)

lemma slots_register: "m s = None \<Longrightarrow> slots (m(s \<mapsto> EventData_default)) t = slots m t"
  by (auto simp: fun_eq_iff slots_def EventData_default_def Wakeup_default_def dir_of_def
      split: slot.splits Interest.splits)

lemma slots_deregister:
  "slots (m(s := None)) t = (\<lambda>x. if slot_source x = Some s then None else slots m t x)"
  by (auto simp: fun_eq_iff slots_def split: slot.splits)

lemma slots_enable: "m s = Some d \<Longrightarrow> slots (m(s \<mapsto> dir_enable i w d)) t = (slots m t)(Dir s i \<mapsto> w)"
  by (cases i) (auto simp: fun_eq_iff slots_def dir_enable_def dir_of_def Wakeup_enable_def
      split: slot.splits Interest.splits)

lemma slots_ready: "event_data_ok d \<Longrightarrow> m s = Some d \<Longrightarrow> slots m t (Dir s i) = None \<longleftrightarrow> \<not> enabled (dir_of i d)"
  by (cases i) (auto simp: slots_def event_data_ok_def wakeup_ok_def dir_of_def)

lemma slots_Tmr [simp]: "slots m t (Tmr k) = t k"
  by (simp add: slots_def)

lemma finish_fires:
  assumes "tq_ok (timer_queue r)" and "wait_finish os N log_wake r n = (res, r', n')"
    and "\<And>k. snd (snd (sys_now os k)) = snd k" and "\<And>n. snd (kernel (Reactor_clear_notifications N n)) = snd (kernel n)"
  shows "res = Ok () \<and> source_data r' = source_data r \<and>
    (\<exists>now ws. fire (due_slots now (pending (reactor_abs r))) (pending (reactor_abs r)) = (ws, pending (reactor_abs r'))
      \<and> snd (kernel n') = snd (kernel n) @ ws)"
proof -
  obtain now k where now: "sys_now os (kernel n) = (now, k)" by (metis surj_pair)
  moreover have "snd k = snd (kernel n)" using assms(3) [of "kernel n"] now by simp
  moreover obtain ws q where q: "TimerQueue_clear_expired now (timer_queue r) = (ws, q)" by fastforce
  moreover note due_fires [OF assms(1), of now "source_data r"]
  ultimately show ?thesis
    using assms(2,4) by (auto simp: wait_finish_def reactor_abs_def)
qed

text \<open>Every call keeps the reactor well formed, whatever the poller does.\<close>

lemma reactor_ok_call:
  assumes ok: "reactor_ok r" and call: "reactor_call EP os N c r n = Some (rep, r', n')"
  shows "reactor_ok r'"
proof (cases c)
  case (Call_register_timer e w)
  with call rtimers.register_ok [OF ok] show ?thesis by (auto simp: reactor_call_def)
next
  case Call_wait
  with call reactor_ok_wait [OF ok, of EP os N log_wake "n\<lparr>kernel := (fst (kernel n), [])\<rparr>"] show ?thesis
    by (auto simp: reactor_call_def split: prod.splits)
qed (use call reactor_ok_register_event [OF ok, of EP] reactor_ok_deregister_event [OF ok, of EP]
      reactor_ok_enable_event [OF ok, of EP] rtimers.cancel_ok [OF ok] rtimers.modify_ok [OF ok] ok
    in \<open>auto simp: reactor_call_def split: prod.splits; metis snd_conv\<close>)+

lemma reactor_ok_run:
  "reactor_run EP os N cs r n = Some (reps, r', n') \<Longrightarrow> reactor_ok r \<Longrightarrow> reactor_ok r'"
  by (induction cs arbitrary: r n reps) (auto split: option.splits dest: reactor_ok_call)

text \<open>A call arms at most one more timer, so that fewer than \<open>2 ^ 64 - 1\<close> calls all return.\<close>

abbreviation timer_count :: "('p, 'w) reactor \<Rightarrow> nat" where
  "timer_count r \<equiv> length (timers (timer_queue r))"

lemma length_bt_put: "length (bt_put k v m) \<le> Suc (length m)"
proof -
  have "length (filter (\<lambda>e. fst e < k) m) + length (filter (\<lambda>e. k < fst e) m) \<le> length m"
    by (induction m) auto
  then show ?thesis by (simp add: bt_put_def)
qed

lemma length_clear_expired: "length (snd (clear_expired_loop now m)) \<le> length m"
  by (induction now m rule: clear_expired_loop.induct) (auto simp: case_prod_unfold Let_def)

lemma finish_timers: "timer_count (fst (snd (wait_finish os N wake r n))) \<le> timer_count r"
  using length_clear_expired [of _ "timers (timer_queue r)"]
  by (simp add: wait_finish_def TimerQueue_clear_expired_def case_prod_unfold Let_def)

lemma wait_timers:
  fixes r :: "('p, 'w) reactor"
  shows "timer_count (fst (snd (Reactor_wait EP os N wake r n))) \<le> timer_count r"
proof -
  have "timer_count (fst (snd (wait_finish os N wake r' n'))) \<le> timer_count r"
    if "timer_queue r' = timer_queue r" for r' :: "('p, 'w) reactor" and n'
    using finish_timers [of os N wake r' n'] that by simp
  then show ?thesis
    by (simp add: Reactor_wait_def Let_def split: prod.split res.split)
qed

lemma call_timers:
  assumes ok: "reactor_ok r" and call: "reactor_call EP os N c r n = Some (rep, r', n')"
  shows "timer_count r' \<le> Suc (timer_count r)"
proof (cases c)
  case (Call_register_timer e w)
  then obtain i q where "TimerQueue_register e w (timer_queue r) = Some (i, q)" "r' = r\<lparr>timer_queue := q\<rparr>"
    using call by (auto simp: reactor_call_def Reactor_register_timer_def)
  with TimerQueue_register_result [of e w "timer_queue r" "(i, q)"] ok length_bt_put show ?thesis
    by (auto simp: register_result_def reactor_ok_def)
next
  case (Call_modify_timer i e w)
  with call length_bt_put show ?thesis
    by (auto simp: reactor_call_def Reactor_modify_timer_def TimerQueue_modify_def split: option.splits)
next
  case (Call_cancel_timer i e)
  with call show ?thesis
    by (auto simp: reactor_call_def Reactor_cancel_timer_def TimerQueue_cancel_def bt_remove_def bt_del_def le_SucI)
next
  case Call_wait
  with call wait_timers [of EP os N log_wake r "n\<lparr>kernel := (fst (kernel n), [])\<rparr>"] show ?thesis
    by (auto simp: reactor_call_def split: prod.splits)
qed (use call in \<open>auto simp: reactor_call_def Reactor_register_event_def Reactor_deregister_event_def
      Reactor_enable_event_def Let_def split: prod.splits res.splits option.splits\<close>)

lemma call_returns:
  assumes "reactor_ok r" and "timer_count r < 2 ^ 64 - 1"
  shows "\<exists>rep r' n'. reactor_call EP os N c r n = Some (rep, r', n')"
proof (cases c)
  case (Call_register_timer e w)
  have "tq_ok (timer_queue r)" using assms(1) by (simp add: reactor_ok_def)
  moreover obtain j where "Id_valid j" "armed (timer_queue r) (e, j) = None"
    using free_id_exists [OF assms(2)] by blast
  ultimately obtain i q where "TimerQueue_register e w (timer_queue r) = Some (i, q)"
    using TimerQueue_register_terminates [of "timer_queue r" j e w] by (auto simp: tq_ok_def)
  with Call_register_timer show ?thesis by (simp add: reactor_call_def Reactor_register_timer_def)
qed (auto simp: reactor_call_def split: prod.splits)

lemma run_returns:
  assumes "reactor_ok r" and "timer_count r + length cs < 2 ^ 64"
  shows "\<exists>reps r' n'. reactor_run EP os N cs r n = Some (reps, r', n')"
  using assms
proof (induction cs arbitrary: r n)
  case (Cons c cs)
  from Cons.prems obtain rep r1 n1 where call: "reactor_call EP os N c r n = Some (rep, r1, n1)"
    using call_returns [of r EP os N c n] by auto
  then have "reactor_ok r1" "timer_count r1 + length cs < 2 ^ 64"
    using Cons.prems reactor_ok_call call_timers [OF Cons.prems(1) call] by (blast, simp)
  from Cons.IH [OF this, of n1] call show ?case by auto
qed simp

locale logged_reactor = passive_poller EP + side_world os N
  for EP :: "('p, ('k, 'w list) rkernel) event_poller" and os :: "('k, 'w list) rkernel os"
    and N :: "('k, 'w list) rkernel notifier_fd" +
  assumes poll_keeps: "ep_poll EP t srcs p k = (x, p', k') \<Longrightarrow> snd k' = snd k"
    and poll_no_panic: "\<not> is_panic (fst (ep_poll EP t srcs p k))"
begin

lemma wait_refines:
  assumes ok: "reactor_ok r" and wait: "Reactor_wait EP os N log_wake r n = (res, r', n')"
    and log: "snd (kernel n) = []"
  shows "spec_step Call_wait (Woken res (snd (kernel n'))) (reactor_abs r) (reactor_abs r')"
proof -
  note fin = finish_fires [OF _ _ now_keeps clear_notifications_keeps]
  have tq: "tq_ok (timer_queue r)" and src: "sources_ok (event_sources r)" using ok by (simp_all add: reactor_ok_def)
  obtain now k where now: "sys_now os (kernel n) = (now, k)" by (metis surj_pair)
  have k: "snd k = []" using now_keeps [of "kernel n"] now log by simp
  let ?t = "TimerQueue_next_timeout now (timer_queue r)"
  show ?thesis
  proof (cases "?t = Some 0 \<or> is_notified n")
    case True
    then have "wait_finish os N log_wake r (n\<lparr>kernel := k\<rparr>) = (res, r', n')"
      using Reactor_wait_skip [OF now True, of EP N log_wake] wait by simp
    from fin [OF tq this] obtain now' ws where "res = Ok ()" "source_data r' = source_data r"
        "fire (due_slots now' (pending (reactor_abs r))) (pending (reactor_abs r)) = (ws, pending (reactor_abs r'))"
        "snd (kernel n') = ws"
      using k by auto
    then show ?thesis
      using spec_step.wait_ok [of "[]" "reactor_abs r" "[]" "pending (reactor_abs r)" now' ws "pending (reactor_abs r')"]
      by (simp add: reactor_abs_def)
  next
    case False
    then have idle: "?t \<noteq> Some 0" "\<not> is_notified n" by simp_all
    obtain pres p k1 where poll: "ep_poll EP ?t (Reactor_interests r) (poller r) k = (pres, p, k1)"
      by (metis prod_cases3)
    have k1: "snd k1 = []" using poll_keeps [OF poll] k by simp
    show ?thesis
    proof (cases pres)
      case (Ok revents)
      let ?evs = "case revents of None \<Rightarrow> [] | Some es \<Rightarrow> es" and ?n = "\<lparr>kernel = k1, is_notified = True\<rparr>"
      obtain dres m n1 where disp: "dispatch_events log_wake ?evs (event_sources r) ?n = (dres, m, n1)"
        by (metis prod_cases3)
      note wait' = wait [unfolded Reactor_wait_poll [OF now idle poll [unfolded Ok]] Let_def disp]
      from dispatch_fires [OF src disp, of "armed (timer_queue r)"]
      obtain evs' ws where *: "fst ` set evs' \<subseteq> dom (source_data r)" "dom (map_of m) = dom (source_data r)"
          "fire (concat (map event_slots evs')) (slots (source_data r) (armed (timer_queue r))) =
             (ws, slots (map_of m) (armed (timer_queue r)))"
          "kernel n1 = (fst k1, snd k1 @ ws)"
          "dres = Ok () \<or> dres = Panic ''called Option::unwrap() on a None value'' \<and> (\<exists>s. s \<notin> dom (source_data r))"
        unfolding nworld.select_convs by blast
      from *(5) show ?thesis
      proof
        assume d: "dres = Ok ()"
        let ?r = "r\<lparr>poller := p, event_sources := m\<rparr>"
        have "wait_finish os N log_wake ?r n1 = (res, r', n')" using wait' d by simp
        from fin [OF _ this] tq obtain now' ws' where "res = Ok ()" "source_data r' = map_of m"
            "fire (due_slots now' (pending (reactor_abs ?r))) (pending (reactor_abs ?r)) = (ws', pending (reactor_abs r'))"
            "snd (kernel n') = ws @ ws'"
          using *(4) k1 by auto
        then show ?thesis
          using spec_step.wait_ok [of evs' "reactor_abs r" ws "pending (reactor_abs ?r)" now' ws' "pending (reactor_abs r')"]
            * by (simp add: reactor_abs_def)
      next
        assume "dres = Panic ''called Option::unwrap() on a None value'' \<and> (\<exists>s. s \<notin> dom (source_data r))"
        then obtain s where "dres = Panic ''called Option::unwrap() on a None value''" "s \<notin> dom (source_data r)"
          by blast
        then show ?thesis
          using wait' * k1 spec_step.wait_stray [of evs' "reactor_abs r" s ws "pending (reactor_abs r')"]
          by (clarsimp simp: reactor_abs_def simp del: dom_def domIff)
      qed
    next
      case (Err e)
      then show ?thesis
        using wait now idle poll k1 by (auto simp: Reactor_wait_def reactor_abs_def intro: spec_step.wait_fails)
    next
      case (Panic msg)
      then show ?thesis using poll_no_panic [of ?t "Reactor_interests r" "poller r" k] poll by simp
    qed
  qed
qed


lemma register_refines:
  assumes "reactor_ok r" and "Reactor_register_event EP s r = (res, r')"
  shows "spec_step (Call_register_event s) (Done res) (reactor_abs r) (reactor_abs r')"
proof (cases "source_data r s")
  case None
  with assms spec_step.register_new [of s "reactor_abs r"] show ?thesis
    by (simp add: register_fresh reactor_abs_def domIff) (auto simp: slots_register)
next
  case (Some d)
  with assms spec_step.register_again [of s "reactor_abs r"] show ?thesis
    by (simp add: register_again reactor_abs_def domIff)
qed

lemma deregister_refines:
  assumes "Reactor_deregister_event EP s r = (res, r')"
  shows "spec_step (Call_deregister_event s) (Done res) (reactor_abs r) (reactor_abs r')"
proof (cases "source_data r s")
  case None
  with assms spec_step.deregister_missing [of s "reactor_abs r"] show ?thesis
    by (auto simp: Reactor_deregister_event_def bt_remove_def reactor_abs_def fun_upd_idem domIff)
next
  case (Some d)
  with assms spec_step.deregister [of s "reactor_abs r"] show ?thesis
    unfolding reactor_abs_def rspec.select_convs
    by (simp add: deregister_registered domIff) (auto simp: slots_deregister)
qed

lemma enable_refines:
  assumes "Reactor_enable_event EP s i w r = (res, r')"
  shows "spec_step (Call_enable_event s i w) (Done res) (reactor_abs r) (reactor_abs r')"
proof (cases "source_data r s")
  case None
  with assms spec_step.enable_missing [of s "reactor_abs r"] show ?thesis
    by (simp add: Reactor_enable_event_def reactor_abs_def domIff)
next
  case (Some d)
  then have "insert s (dom (source_data r)) = dom (source_data r)" by auto
  with Some assms spec_step.enable [of s "reactor_abs r" i w] show ?thesis
    by (auto simp: enable_registered reactor_abs_def domIff slots_enable)
qed

lemma ready_refines:
  assumes "reactor_ok r"
  shows "spec_step (Call_is_event_ready s i) (Is_ready (Reactor_is_event_ready s i r)) (reactor_abs r) (reactor_abs r)"
proof (cases "source_data r s")
  case None
  with spec_step.ready_missing [of s "reactor_abs r"] show ?thesis
    by (simp add: Reactor_is_event_ready_def reactor_abs_def domIff)
next
  case (Some d)
  then have "event_data_ok d" using assms by (auto simp: reactor_ok_def intro: sources_ok_lookup)
  with Some spec_step.ready [of s "reactor_abs r" i] show ?thesis
    by (simp add: Reactor_is_event_ready_def reactor_abs_def domIff slots_ready)
qed

lemma call_refines:
  assumes ok: "reactor_ok r" and call: "reactor_call EP os N c r n = Some (rep, r', n')"
  shows "spec_step c rep (reactor_abs r) (reactor_abs r')"
proof (cases c)
  case (Call_register_event s)
  with call register_refines [OF ok] show ?thesis by (auto simp: reactor_call_def split: prod.splits)
next
  case (Call_deregister_event s)
  with call deregister_refines show ?thesis by (auto simp: reactor_call_def split: prod.splits)
next
  case (Call_enable_event s i w)
  with call enable_refines show ?thesis by (auto simp: reactor_call_def split: prod.splits)
next
  case (Call_is_event_ready s i)
  with call ready_refines [OF ok] show ?thesis by (auto simp: reactor_call_def)
next
  case (Call_register_timer e w)
  then obtain i where reg: "Reactor_register_timer e w r = Some (i, r')" and rep: "rep = Timer_id i"
    using call by (auto simp: reactor_call_def)
  have "source_data r' = source_data r" using reg by (auto simp: Reactor_register_timer_def)
  with Call_register_timer rep rtimers.register_armed [OF ok reg] rtimers.register_fresh [OF ok reg]
      spec_step.timer_new [of "reactor_abs r" e i w] show ?thesis
    by (simp add: reactor_abs_def slots_timer)
next
  case (Call_cancel_timer i e)
  with call rtimers.cancel_armed [OF ok, of i e] spec_step.timer_cancel [of i e "reactor_abs r"] show ?thesis
    by (auto simp: reactor_call_def reactor_abs_def slots_timer Reactor_cancel_timer_def)
next
  case (Call_modify_timer i e w)
  with call rtimers.modify_armed [OF ok, of i e w] spec_step.timer_modify [of "reactor_abs r" e i w]
      spec_step.timer_gone [of "reactor_abs r" e i w] show ?thesis
    by (auto simp: reactor_call_def reactor_abs_def slots_timer Reactor_modify_timer_def split: if_splits)
next
  case Call_wait
  let ?n = "n\<lparr>kernel := (fst (kernel n), [])\<rparr>"
  obtain res where "Reactor_wait EP os N log_wake r ?n = (res, r', n')" "rep = Woken res (snd (kernel n'))"
    using call Call_wait by (auto simp: reactor_call_def split: prod.splits)
  with wait_refines [OF ok, of ?n res r' n'] show ?thesis by (simp add: Call_wait)
qed


lemma run_refines:
  "reactor_run EP os N cs r n = Some (reps, r', n') \<Longrightarrow> reactor_ok r \<Longrightarrow>
     spec_run cs reps (reactor_abs r) (reactor_abs r')"
proof (induction cs arbitrary: r n reps)
  case (Cons c cs)
  then obtain rep r1 n1 reps1 where call: "reactor_call EP os N c r n = Some (rep, r1, n1)"
      "reactor_run EP os N cs r1 n1 = Some (reps1, r', n')" "reps = rep # reps1"
    by (auto split: option.splits)
  with Cons reactor_ok_call call_refines show ?case by (blast intro: spec_run.next_call)
qed (auto intro: spec_run.no_calls)

end

text \<open>The two builds: event and timer descriptors on Linux, a pipe and \<open>poll\<close>'s timeout elsewhere.\<close>

interpretation linux_log: logged_reactor
  "PollPoller (lift_os os) (EventFd (lift_os os) fd) (TimerFd (lift_os os) tfd)" "lift_os os" "EventFd (lift_os os) fd"
  for os :: "'k os" and fd tfd
proof (unfold_locales, goal_cases)
  case (1 t srcs p k x p' k')
  then have "PollPoller_poll (lift_os os) (EventFd (lift_os os) fd) (TimerFd (lift_os os) tfd) t srcs p k = (x, p', k')"
    by (simp add: PollPoller_def)
  then show ?case by (rule lift_poll_keeps) (rule timerfd_keeps)
next
  case (2 t srcs p k)
  show ?case
    by (auto simp: PollPoller_def PollPoller_poll_def TimerFd_def TimerFd_set_timeout_def Let_def
        split: prod.splits sum.splits)
qed

interpretation portable_log: logged_reactor
  "PollPoller (lift_os os) (PipeFd (lift_os os) p) PollTimeout" "lift_os os" "PipeFd (lift_os os) p"
  for os :: "'k os" and p
proof (unfold_locales, goal_cases)
  case (1 t srcs pl k x pl' k')
  then have "PollPoller_poll (lift_os os) (PipeFd (lift_os os) p) PollTimeout t srcs pl k = (x, pl', k')"
    by (simp add: PollPoller_def)
  then show ?case by (rule lift_poll_keeps) (rule polltimeout_keeps)
next
  case (2 t srcs p k)
  show ?case
    by (auto simp: PollPoller_def PollPoller_poll_def PollTimeout_def PollTimeout_set_timeout_def Let_def
        split: prod.splits sum.splits)
qed

definition unix_build :: "'k os \<Rightarrow> 'k notifier_fd \<Rightarrow> 'k timeout \<Rightarrow> bool" where
  "unix_build os N T \<longleftrightarrow>
     (\<exists>fd tfd. N = EventFd os fd \<and> T = TimerFd os tfd) \<or> (\<exists>p. N = PipeFd os p \<and> T = PollTimeout)"

lemma unix_run_refines:
  assumes "unix_build (lift_os os) N T" and "reactor_ok r"
    and "reactor_run (PollPoller (lift_os os) N T) (lift_os os) N cs r n = Some (reps, r', n')"
  shows "spec_run cs reps (reactor_abs r) (reactor_abs r')"
  using assms linux_log.run_refines portable_log.run_refines by (fastforce simp: unix_build_def)

section \<open>Wakers in the specification\<close>

fun woken :: "'w rreply \<Rightarrow> 'w list" where
  "woken (Woken res ws) = ws"
| "woken _ = []"

definition all_woken :: "'w rreply list \<Rightarrow> 'w list" where
  "all_woken reps = concat (map woken reps)"

text \<open>A call that arms a slot with a waker, and one that changes a given slot otherwise than by waking.\<close>

fun arms :: "'w \<Rightarrow> 'w rcall \<Rightarrow> bool" where
  "arms w (Call_enable_event s i w') \<longleftrightarrow> w' = w"
| "arms w (Call_register_timer e w') \<longleftrightarrow> w' = w"
| "arms w (Call_modify_timer i e w') \<longleftrightarrow> w' = w"
| "arms w _ \<longleftrightarrow> False"

fun touches :: "slot \<Rightarrow> 'w rcall \<Rightarrow> bool" where
  "touches x (Call_deregister_event s) \<longleftrightarrow> slot_source x = Some s"
| "touches x (Call_enable_event s i w) \<longleftrightarrow> x = Dir s i"
| "touches x (Call_cancel_timer i e) \<longleftrightarrow> x = Tmr (e, i)"
| "touches x (Call_modify_timer i e w) \<longleftrightarrow> x = Tmr (e, i)"
| "touches x _ \<longleftrightarrow> False"

lemma fire_armed: "p x = Some w \<Longrightarrow> fire xs p = (ws, p') \<Longrightarrow> p' x = Some w \<or> w \<in> set ws"
proof (induction xs arbitrary: p ws)
  case (Cons y xs)
  show ?case
  proof (cases "y = x")
    case False
    then have "(p(y := None)) x = Some w" using Cons.prems(1) by simp
    from Cons.IH [of "p(y := None)", OF this] Cons.IH [of p, OF Cons.prems(1)] Cons.prems(2) show ?thesis
      by (auto split: option.splits prod.splits simp del: fun_upd_apply)
  qed (use Cons.prems in \<open>auto split: prod.splits\<close>)
qed simp

lemma step_armed:
  assumes "spec_step c rep a b" and "\<not> touches x c" and "pending a x = Some w"
  shows "pending b x = Some w \<or> w \<in> set (woken rep)"
  using assms
proof cases
  case (wait_ok evs ws p now ws' p')
  from fire_armed [OF assms(3) wait_ok(5)] fire_armed [OF _ wait_ok(6), of x w] wait_ok(2,3) show ?thesis
    by auto
next
  case (wait_stray evs s ws p)
  from fire_armed [OF assms(3) wait_stray(6)] wait_stray(2,3) show ?thesis by auto
qed auto

lemma run_armed:
  "spec_run cs reps a b \<Longrightarrow> \<forall>c \<in> set cs. \<not> touches x c \<Longrightarrow> pending a x = Some w \<Longrightarrow>
     pending b x = Some w \<or> w \<in> set (all_woken reps)"
proof (induction rule: spec_run.induct)
  case (next_call c rep a b cs reps d)
  then show ?case using step_armed [OF next_call.hyps(1)] by (auto simp: all_woken_def)
qed simp

abbreviation armed_with :: "'w rspec \<Rightarrow> 'w \<Rightarrow> slot set" where
  "armed_with a w \<equiv> {x. pending a x = Some w}"

lemma fire_counts:
  assumes "finite {x. p x \<noteq> None}"
  shows "count_list (fst (fire xs p)) w + card {x. snd (fire xs p) x = Some w} = card {x. p x = Some w}"
  using assms
proof (induction xs arbitrary: p)
  case (Cons y xs)
  show ?case
  proof (cases "p y")
    case (Some v)
    have "finite {x. (p(y := None)) x \<noteq> None}"
      by (rule finite_subset [OF _ Cons.prems]) auto
    from Cons.IH [OF this] have IH: "count_list (fst (fire xs (p(y := None)))) w
        + card {x. snd (fire xs (p(y := None))) x = Some w} = card {x. (p(y := None)) x = Some w}" .
    have fin: "finite {x. p x = Some w}" by (rule finite_subset [OF _ Cons.prems]) auto
    have "{x. (p(y := None)) x = Some w} = {x. p x = Some w} - {y}" by auto
    then have "card {x. (p(y := None)) x = Some w} + (if v = w then 1 else 0) = card {x. p x = Some w}"
      using Some fin card_Suc_Diff1 [OF fin, of y] by (auto simp: Diff_triv)
    with IH Some show ?thesis by (auto simp: case_prod_unfold Let_def simp del: fun_upd_apply)
  qed (use Cons in simp)
qed simp


lemma armed_update:
  assumes "finite {x. p x \<noteq> None}"
  shows "finite {x. (p(y := v)) x \<noteq> None}"
    "card {x. (p(y := v)) x = Some w} \<le> card {x. p x = Some w} + of_bool (v = Some w)"
proof -
  have "{x. (p(y := v)) x \<noteq> None} \<subseteq> insert y {x. p x \<noteq> None}" by auto
  then show "finite {x. (p(y := v)) x \<noteq> None}" using assms by (meson finite.insertI finite_subset)
  have fin: "finite {x. p x = Some w}" by (rule finite_subset [OF _ assms]) auto
  have "{x. (p(y := v)) x = Some w} \<subseteq> (if v = Some w then insert y {x. p x = Some w} else {x. p x = Some w})"
    by auto
  from card_mono [OF _ this] fin show "card {x. (p(y := v)) x = Some w} \<le> card {x. p x = Some w} + of_bool (v = Some w)"
    by (auto simp: card_insert_if simp del: fun_upd_apply split: if_splits)
qed

lemma armed_update_same:
  "finite {x. p x \<noteq> None} \<Longrightarrow> card {x. (p(y \<mapsto> w)) x = Some w} \<le> Suc (card {x. p x = Some w})"
  using armed_update(2) [of p y "Some w" w] by (simp del: fun_upd_apply)

lemma armed_update_other:
  "finite {x. p x \<noteq> None} \<Longrightarrow> v \<noteq> Some w \<Longrightarrow> card {x. (p(y := v)) x = Some w} \<le> card {x. p x = Some w}"
  using armed_update(2) [of p y v w] by (simp del: fun_upd_apply)

lemma fire_finite: "finite {x. p x \<noteq> None} \<Longrightarrow> finite {x. snd (fire xs p) x \<noteq> None}"
  by (rule finite_subset [rotated]) (auto simp: fire_pending)

lemma step_counts:
  assumes "spec_step c rep a b" and fin: "finite {x. pending a x \<noteq> None}"
  shows "finite {x. pending b x \<noteq> None} \<and>
    count_list (woken rep) w + card (armed_with b w) \<le> card (armed_with a w) + of_bool (arms w c)"
  using assms(1)
proof cases
  case (wait_ok evs ws p now ws' p')
  have p: "finite {x. p x \<noteq> None}" using fire_finite [OF fin] wait_ok(5) by (metis snd_conv)
  with fire_counts [OF fin, of "concat (map event_slots evs)" w] fire_counts [OF p, of "due_slots now p" w]
      fire_finite [OF p, of "due_slots now p"] wait_ok show ?thesis
    by simp
next
  case (wait_stray evs s ws p)
  with fire_counts [OF fin, of "concat (map event_slots evs)" w] fire_finite [OF fin, of "concat (map event_slots evs)"]
  show ?thesis by simp
next
  case (deregister s)
  have "finite (armed_with a w)" by (rule finite_subset [OF _ fin]) auto
  then have "card (armed_with b w) \<le> card (armed_with a w)" using deregister by (intro card_mono) auto
  moreover have "finite {x. pending b x \<noteq> None}" using deregister by (intro finite_subset [OF _ fin]) auto
  ultimately show ?thesis using deregister by simp
qed (use fin armed_update(1) [OF fin] armed_update_same [OF fin, where w = w]
      armed_update_other [OF fin, where w = w] in \<open>simp_all del: fun_upd_apply\<close>)

lemma run_counts:
  "spec_run cs reps a b \<Longrightarrow> finite {x. pending a x \<noteq> None} \<Longrightarrow>
     count_list (all_woken reps) w + card (armed_with b w) \<le> card (armed_with a w) + length (filter (arms w) cs)"
proof (induction rule: spec_run.induct)
  case (next_call c rep a b cs reps d)
  with step_counts [OF next_call.hyps(1) next_call.prems, of w] show ?case
    by (auto simp: all_woken_def split: if_splits)
qed (simp add: all_woken_def)


lemma new_timers [simp]: "timer_count (Reactor_new p) = 0"
  by (simp add: Reactor_new_def TimerQueue_new_def)

lemma new_pending [simp]: "pending (reactor_abs (Reactor_new p)) x = None"
  by (cases x) (simp_all add: reactor_abs_def slots_def Reactor_new_def TimerQueue_new_def)

section \<open>Properties\<close>

text \<open>
  C6: The reactor refines its specification. Over the Unix poller, in both builds, every sequence
  of calls on a well-formed reactor returns as long as the timers cannot reach \<open>2 ^ 64\<close>, and
  its results and the wakers called by each \<open>wait\<close>, in their order, are those of a sequence of
  steps of the specification: registering a source twice fails, using one that is not
  registered panics, \<open>is_event_ready\<close> tells whether the direction is disarmed, and \<open>wait\<close>
  disarms exactly the slots whose wakers it calls.
\<close>

theorem reactor_refines_spec:
  assumes "unix_build (lift_os os) N T" and "reactor_ok r" and "timer_count r + length cs < 2 ^ 64"
  shows "\<exists>reps r' n'. reactor_run (PollPoller (lift_os os) N T) (lift_os os) N cs r n = Some (reps, r', n')
    \<and> spec_run cs reps (reactor_abs r) (reactor_abs r')"
  using run_returns [OF assms(2,3), of "PollPoller (lift_os os) N T" "lift_os os" N n]
    unix_run_refines [OF assms(1,2)] by blast

text \<open>
  C10: Well-formedness: whatever the poller and the system do, after any sequence of fewer than
  \<open>2 ^ 64\<close> calls on a new reactor both of its maps are ordered without duplicates, every
  direction that is enabled has a waker and every timer identifier is non-zero.
\<close>

theorem reactor_calls_well_formed:
  assumes "length cs < 2 ^ 64"
  shows "\<exists>reps r' n'. reactor_run EP os N cs (Reactor_new p) n = Some (reps, r', n') \<and> reactor_ok r'"
  using run_returns [OF reactor_ok_new, of p cs EP os N n] reactor_ok_run [OF _ reactor_ok_new, of EP os N cs p n]
    assms by auto

text \<open>
  C8: No spurious wakeups: over any sequence of calls on a new reactor a waker is called at most
  as often as it was armed, by \<open>enable_event\<close>, \<open>register_timer\<close> or \<open>modify_timer\<close>, and the
  directions and timers still armed with it count among these.
\<close>

theorem waker_calls_bounded:
  assumes "unix_build (lift_os os) N T"
    and "reactor_run (PollPoller (lift_os os) N T) (lift_os os) N cs (Reactor_new p) n = Some (reps, r', n')"
  shows "count_list (all_woken reps) w + card (armed_with (reactor_abs r') w) \<le> length (filter (arms w) cs)"
  using run_counts [OF unix_run_refines [OF assms(1) reactor_ok_new assms(2)], of w] by simp

text \<open>
  C7: No lost wakeups: a direction or timer armed with a waker stays armed with it until a
  \<open>wait\<close> calls the waker, over any sequence of calls in which the same direction is not enabled
  again and its source not deregistered, or the timer not modified or cancelled.
\<close>

theorem armed_until_woken:
  assumes "unix_build (lift_os os) N T" and "reactor_ok r"
    and "reactor_run (PollPoller (lift_os os) N T) (lift_os os) N cs r n = Some (reps, r', n')"
    and "\<forall>c \<in> set cs. \<not> touches x c" and "pending (reactor_abs r) x = Some w"
  shows "pending (reactor_abs r') x = Some w \<or> w \<in> set (all_woken reps)"
  by (rule run_armed [OF unix_run_refines [OF assms(1-3)] assms(4,5)])

section \<open>Concrete instances\<close>

text \<open>A system that reports the first descriptor polled as readable, and nothing else.\<close>

definition first_os :: "unit os" where
  "first_os = busy_os\<lparr>sys_poll := \<lambda>fds _ k. (Inr (1, {P_IN} # map (\<lambda>_. {}) (tl fds)), k)\<rparr>"

abbreviation first_notifier :: "(unit, nat list) rkernel notifier_fd" where
  "first_notifier \<equiv> EventFd (lift_os first_os) 3"

abbreviation first_timeout :: "(unit, nat list) rkernel timeout" where
  "first_timeout \<equiv> TimerFd (lift_os first_os) 4"

abbreviation first_poller :: "(poll_poller, (unit, nat list) rkernel) event_poller" where
  "first_poller \<equiv> PollPoller (lift_os first_os) first_notifier first_timeout"

abbreviation first_world :: "(unit, nat list) rkernel nworld" where
  "first_world \<equiv> \<lparr>kernel = ((), []), is_notified = False\<rparr>"

abbreviation read_calls :: "nat rcall list" where
  "read_calls \<equiv> [Call_register_event 7, Call_enable_event 7 Interest_Read 42, Call_wait, Call_is_event_ready 7 Interest_Read]"

lemma first_build: "unix_build (lift_os first_os) first_notifier first_timeout"
  by (auto simp: unix_build_def)

lemmas first_eval = reactor_call_def Reactor_new_def Reactor_register_event_def PollPoller_def PollPoller_register_def
  bt_insert_def bt_put_def Reactor_enable_event_def PollPoller_modify_def Reactor_wait_def
  lift_os_def lift_call_def first_os_def PollPoller_poll_def busy_defs WithFlag_set_to_notified_def
  TimerFd_def TimerFd_set_timeout_def source_pollfds_def internal_pollfds_def PollFd_from_def
  Filter_pollflags_def set_revents_def poll_outcome_def ready_fd_def pollfd_event_def
  Filter_of_revents_def read_flags_def write_flags_def event_fire_def Wakeup_wake_def log_wake_def
  wait_finish_def TimerQueue_clear_expired_def Reactor_clear_notifications_def WithFlag_clear_def
  EventFd_clear_def Reactor_is_event_ready_def dir_of_def

lemma first_run:
  "\<exists>r' n'. reactor_run first_poller (lift_os first_os) first_notifier read_calls
       (Reactor_new \<lparr>pollfds = []\<rparr>) first_world =
     Some ([Done (Ok ()), Done (Ok ()), Woken (Ok ()) [42], Is_ready (Ok True)], r', n')"
  by (simp add: first_eval)

lemma one_reader_ok: "reactor_ok one_reader"
  by (simp add: reactor_ok_def one_reader_def sources_ok_def bt_ok_Cons)

lemma first_wait:
  "\<exists>r' n'. reactor_run first_poller (lift_os first_os) first_notifier [Call_wait] one_reader first_world =
       Some ([Woken (Ok ()) [42]], r', n') \<and> pending (reactor_abs r') (Dir 7 Interest_Read) = None"
  by (simp add: first_eval reactor_abs_def slots_def)

theorem reactor_refines_spec_witness:
  "\<exists>r' :: (poll_poller, nat) reactor. spec_run read_calls
     [Done (Ok ()), Done (Ok ()), Woken (Ok ()) [42], Is_ready (Ok True)]
     (reactor_abs (Reactor_new \<lparr>pollfds = []\<rparr>)) (reactor_abs r')"
  using reactor_refines_spec [OF first_build reactor_ok_new, of "\<lparr>pollfds = []\<rparr>" read_calls first_world] first_run
  by auto

theorem reactor_calls_well_formed_witness:
  "\<exists>r' n'. reactor_run first_poller (lift_os first_os) first_notifier read_calls (Reactor_new \<lparr>pollfds = []\<rparr>) first_world =
     Some ([Done (Ok ()), Done (Ok ()), Woken (Ok ()) [42], Is_ready (Ok True)], r', n') \<and> reactor_ok r'"
  using reactor_calls_well_formed [of read_calls first_poller "lift_os first_os" first_notifier
      "\<lparr>pollfds = []\<rparr>" first_world] first_run by auto

theorem waker_calls_bounded_witness:
  "count_list (all_woken [Done (Ok ()), Done (Ok ()), Woken (Ok ()) [42 :: nat], Is_ready (Ok True)]) 42
     \<le> length (filter (arms 42) read_calls)"
proof -
  obtain r' n' where "reactor_run first_poller (lift_os first_os) first_notifier read_calls
       (Reactor_new \<lparr>pollfds = []\<rparr>) first_world =
     Some ([Done (Ok ()), Done (Ok ()), Woken (Ok ()) [42], Is_ready (Ok True)], r', n')" using first_run by blast
  from waker_calls_bounded [OF first_build this, of 42] show ?thesis by linarith
qed

theorem armed_until_woken_witness: "(42 :: nat) \<in> set (all_woken [Woken (Ok ()) [42]])"
proof -
  obtain r' n' where run: "reactor_run first_poller (lift_os first_os) first_notifier [Call_wait] one_reader first_world =
       Some ([Woken (Ok ()) [42]], r', n')" and gone: "pending (reactor_abs r') (Dir 7 Interest_Read) = None"
    using first_wait by blast
  have "pending (reactor_abs one_reader) (Dir 7 Interest_Read) = Some 42"
    by (simp add: reactor_abs_def slots_def one_reader_def dir_of_def dir_enable_def Wakeup_enable_def)
  from armed_until_woken [OF first_build one_reader_ok run _ this] gone show ?thesis by simp
qed

end
