(* ===== verification/Runtime.thy ===== *)
theory Runtime
  imports Executor_Drain Wake_Protocol IO_System Reactor_Spec
begin

text \<open>
  The runtime put together: \<open>Executor::block_on\<close> of \<open>src/src/lib.rs\<close>, the loop of \<open>block_on\<close>
  around the future of \<open>run\<close>, over the thread's reactor, which the tasks use while they are
  polled. The program's executor is kept next to the kernel, so that a waker called in \<open>wait\<close>
  can change it. Every waker that is not a
  task waker of the executor is the waker of \<open>block_on\<close>, the thread's notifier.
\<close>

section \<open>Wakers and the run future\<close>

type_synonym ('f, 'v, 'a, 'c, 'p, 'k) rexec =
  "('f, 'v, 'a, unit, 'c, ('p, unit any_waker) reactor \<times> 'k) executor"

type_synonym ('f, 'v, 'a, 'c, 'p, 'k) renv =
  "('f, 'v, 'a, unit, 'c, ('p, unit any_waker) reactor \<times> 'k) env"

text \<open>The wakers outside the executor that were called between two of its states.\<close>

definition outer_calls ::
  "('f, 'v, 'a, 'o, 'c, 'x) executor \<Rightarrow> ('f, 'v, 'a, 'o, 'c, 'x) executor \<Rightarrow> 'o list" where
  "outer_calls ex ex' =
     drop (length (base_log (wq_base (ex_queue ex)))) (base_log (wq_base (ex_queue ex'))) @
     drop (length (ex_other ex)) (ex_other ex')"

text \<open>The new state of the executor takes effect, and each of these calls notifies.\<close>

definition set_executor ::
  "('k, ('f, 'v, 'a, 'c, 'p, 'k) rexec) rkernel notifier_fd \<Rightarrow> 'k \<Rightarrow> ('f, 'v, 'a, 'c, 'p, 'k) rexec \<Rightarrow>
     ('k, ('f, 'v, 'a, 'c, 'p, 'k) rexec) rkernel nworld \<Rightarrow>
     ('k, ('f, 'v, 'a, 'c, 'p, 'k) rexec) rkernel nworld" where
  "set_executor N k' ex' n =
     (Notifier_wake N ^^ length (outer_calls (snd (kernel n)) ex')) (n\<lparr>kernel := (k', ex')\<rparr>)"

definition runtime_wake ::
  "('f, 'v, 'a, 'c, 'p, 'k) renv \<Rightarrow> thread_id \<Rightarrow> ('k, ('f, 'v, 'a, 'c, 'p, 'k) rexec) rkernel notifier_fd \<Rightarrow>
     unit any_waker \<Rightarrow> ('k, ('f, 'v, 'a, 'c, 'p, 'k) rexec) rkernel nworld \<Rightarrow>
     ('k, ('f, 'v, 'a, 'c, 'p, 'k) rexec) rkernel nworld" where
  "runtime_wake E th N w n =
     (let (k, ex) = kernel n in set_executor N k (any_wake E th w ex) n)"

text \<open>
  The future of \<open>run\<close> as \<open>block_on\<close> polls it, with the notifier's waker. While it is polled its
  tasks use the thread's reactor and the kernel. A panic of a task or of the main future ends
  the poll.
\<close>

definition run_future ::
  "('f, 'v, 'a, 'c, 'p, 'k) renv \<Rightarrow> thread_id \<Rightarrow> ('k, ('f, 'v, 'a, 'c, 'p, 'k) rexec) rkernel notifier_fd \<Rightarrow>
     ('f run_state, 'p, unit any_waker, ('k, ('f, 'v, 'a, 'c, 'p, 'k) rexec) rkernel, 'v res) main_future" where
  "run_future E th N rs r n =
     (let (k, ex) = kernel n
      in map_option (\<lambda>(res, rs', ex').
           ((case res of
               Ok (Ready v) \<Rightarrow> Ready (Ok v)
             | Ok Pending \<Rightarrow> Pending
             | Err e \<Rightarrow> Ready (Err e)
             | Panic m \<Rightarrow> Ready (Panic m)),
            rs', fst (ex_world ex'), set_executor N (snd (ex_world ex')) ex' n))
          (Executor_run_poll E th () rs (ex\<lparr>ex_world := (r, k)\<rparr>)))"

definition Executor_block_on ::
  "('f, 'v, 'a, 'c, 'p, 'k) renv \<Rightarrow> thread_id \<Rightarrow> ('p, ('k, ('f, 'v, 'a, 'c, 'p, 'k) rexec) rkernel) event_poller \<Rightarrow>
     ('k, ('f, 'v, 'a, 'c, 'p, 'k) rexec) rkernel os \<Rightarrow>
     ('k, ('f, 'v, 'a, 'c, 'p, 'k) rexec) rkernel notifier_fd \<Rightarrow> 'f \<Rightarrow> ('p, unit any_waker) reactor \<Rightarrow>
     ('k, ('f, 'v, 'a, 'c, 'p, 'k) rexec) rkernel nworld \<Rightarrow>
     ('v res res \<times> ('p, unit any_waker) reactor \<times> ('k, ('f, 'v, 'a, 'c, 'p, 'k) rexec) rkernel nworld) option" where
  "Executor_block_on E th EP os N fut r n =
     block_on EP os N (runtime_wake E th N) (run_future E th N) (RunStart fut) r n"

section \<open>System calls leave the executor alone\<close>

text \<open>
  The second state beside the kernel is now the executor, and a notifier over lifted system
  calls leaves it alone.
\<close>

locale executor_world = side_world os N
  for os :: "('k, ('f, 'v, 'a, 'c, 'p, 'k) rexec) rkernel os"
    and N :: "('k, ('f, 'v, 'a, 'c, 'p, 'k) rexec) rkernel notifier_fd"

interpretation efd_world: executor_world "lift_os os" "EventFd (lift_os os) fd"
  for os :: "'k os" and fd
  by unfold_locales

interpretation pipe_world: executor_world "lift_os os" "PipeFd (lift_os os) p"
  for os :: "'k os" and p
  by unfold_locales

section \<open>The executor behind the wakers\<close>

lemma any_wake_wakers:
  "length (ex_wakers (any_wake E th w ex)) = length (ex_wakers ex)"
  "i < length (ex_wakers ex) \<Longrightarrow> tw_awoken (ex_wakers (any_wake E th w ex) ! i) \<longleftrightarrow>
     tw_awoken (ex_wakers ex ! i) \<or> w = TaskW i"
  by (cases w; auto simp: any_wake_def TaskWaker_wake_def Let_def nth_list_update)+

lemma fold_wake_wakers:
  "length (ex_wakers (fold (any_wake E th) ws ex)) = length (ex_wakers ex)"
  "i < length (ex_wakers ex) \<Longrightarrow> tw_awoken (ex_wakers (fold (any_wake E th) ws ex) ! i) \<longleftrightarrow>
     tw_awoken (ex_wakers ex ! i) \<or> TaskW i \<in> set ws"
  by (induction ws arbitrary: ex) (auto simp: any_wake_wakers)

lemma fold_wake_advanced: "env_ok E \<Longrightarrow> advanced E ex (fold (any_wake E th) ws ex)"
  by (induction ws arbitrary: ex) (auto intro: advanced_trans any_wake_advanced)

lemma fold_wake_queued:
  assumes "env_ok E" "tasks_ok E {} ex" "ex_tasks ex i = Some t" "TaskW (tk_waker t) \<in> set ws"
  shows "ex_tasks (fold (any_wake E th) ws ex) i = Some t"
    "i \<in> set (wq_items (en_cq E) (ex_queue (fold (any_wake E th) ws ex)))"
proof -
  let ?ex = "fold (any_wake E th) ws ex"
  have adv: "advanced E ex ?ex" using assms(1) by (rule fold_wake_advanced)
  then show t: "ex_tasks ?ex i = Some t" using assms(3) advanced_tasks by metis
  have "tk_waker t < length (ex_wakers ex)" using assms(2,3) by (auto simp: tasks_ok_def wk_ok_def)
  then have "tw_awoken (ex_wakers ?ex ! tk_waker t)" using assms(4) by (simp add: fold_wake_wakers)
  then show "i \<in> set (wq_items (en_cq E) (ex_queue ?ex))"
    using tasks_ok_advanced [OF adv assms(2)] t by (auto simp: tasks_ok_def wk_ok_def)
qed

lemma run_poll_pending:
  assumes "Executor_run_poll E th cx rs ex = Some (Ok Pending, rs', ex')"
  shows "\<exists>n fut. rs' = RunMain n fut"
proof -
  have main: "\<exists>n fut. rs' = RunMain n fut"
    if "(case run_main E th cx n fut ex1 of
               (Ok (Ready out), fut', ex2) \<Rightarrow> Some (Ok (Ready out), RunDone, run_finish ex2)
             | (Ok Pending, fut', ex2) \<Rightarrow> Some (Ok Pending, RunMain n fut', ex2)
             | (Err e, fut', ex2) \<Rightarrow> Some (Err e, RunDone, ex2)
             | (Panic m, fut', ex2) \<Rightarrow> Some (Panic m, RunDone, ex2)) = Some (Ok Pending, rs', ex')"
    for n fut ex1
    using that by (auto split: prod.splits res.splits poll.splits)
  show ?thesis
    using assms main by (cases rs) (auto simp: Executor_run_poll_def split: bind_splits)
qed

lemma xinv_world:
  assumes "xinv E th s"
  shows "xinv E th (s\<lparr>xs_ex := (xs_ex s)\<lparr>ex_world := x\<rparr>\<rparr>)"
proof -
  have "do_call E th (Ext (\<lambda>_. (0, x))) (xs_ex s) = (Ok (RExt 0), (xs_ex s)\<lparr>ex_world := x\<rparr>)"
    by (simp add: do_call_def)
  from xinv_step [OF xstep.outside [OF this] assms] show ?thesis .
qed

context executor_world
begin

lemma set_executor_keeps: "snd (kernel (set_executor N k' ex' n)) = ex'"
  by (simp add: set_executor_def wakes_keep)

lemma set_executor_notified:
  "is_notified (set_executor N k' ex' n) \<longleftrightarrow> is_notified n \<or> outer_calls (snd (kernel n)) ex' \<noteq> []"
  by (simp add: set_executor_def notif.flag_raise_repeat)

lemma fold_runtime_wake:
  "snd (kernel (fold (runtime_wake E th N) ws n)) = fold (any_wake E th) ws (snd (kernel n))"
  by (induction ws arbitrary: n) (simp_all add: runtime_wake_def set_executor_keeps split: prod.splits)

text \<open>A poll of \<open>run\<close> that is pending with wakes queued has notified.\<close>

lemma pending_notified:
  assumes inv: "xinv E th s" and n: "snd (kernel n) = xs_ex s"
    and run: "run_future E th N (xs_run s) r n = Some (Pending, rs', r1, n1)"
  shows "xinv E th \<lparr>xs_run = rs', xs_cx = Some ((), base_log (wq_base (ex_queue (xs_ex s)))),
      xs_ex = snd (kernel n1)\<rparr>"
    "wq_items (en_cq E) (ex_queue (snd (kernel n1))) \<noteq> [] \<Longrightarrow> is_notified n1"
proof -
  let ?lg = "base_log (wq_base (ex_queue (xs_ex s)))"
  let ?s = "s\<lparr>xs_ex := (xs_ex s)\<lparr>ex_world := (r, fst (kernel n))\<rparr>\<rparr>"
  have inv0: "xinv E th ?s" using inv by (rule xinv_world)
  obtain ex' k' where poll: "Executor_run_poll E th () (xs_run ?s) (xs_ex ?s) = Some (Ok Pending, rs', ex')"
    and n1: "n1 = set_executor N k' ex' n"
  proof -
    obtain res rs2 ex' where p: "Executor_run_poll E th () (xs_run ?s) (xs_ex ?s) = Some (res, rs2, ex')"
      using run n by (auto simp: run_future_def split: prod.splits)
    show thesis
    proof (cases res)
      case (Ok q)
      then show thesis
        using that [of ex' "snd (ex_world ex')"] run n p by (cases q) (auto simp: run_future_def split: prod.splits)
    qed (use run n p in \<open>auto simp: run_future_def split: prod.splits\<close>)
  qed
  have ex: "snd (kernel n1) = ex'" using n1 set_executor_keeps by simp
  show inv': "xinv E th \<lparr>xs_run = rs', xs_cx = Some ((), ?lg), xs_ex = snd (kernel n1)\<rparr>"
    using xinv_poll [OF inv0 poll] ex by simp
  obtain m fut where rs: "rs' = RunMain m fut"
    using run_poll_pending [OF poll] by blast
  assume "wq_items (en_cq E) (ex_queue (snd (kernel n1))) \<noteq> []"
  then have "base_log (wq_base (ex_queue ex')) = ?lg @ [()]"
    using inv' rs ex by (auto simp: xinv_def queue_heard_def dest: cx_called_log)
  then have "outer_calls (snd (kernel n)) ex' \<noteq> []" using n by (simp add: outer_calls_def)
  then show "is_notified n1" unfolding n1 set_executor_notified ..
qed

end

section \<open>Properties\<close>

text \<open>
  C13: While \<open>Executor::block_on\<close> drives an executor, it does not block with work to do: when a
  poll of \<open>run\<close> is pending and a task or the main future is queued because it was woken
  during the poll, the notifier has been notified, so \<open>wait\<close> does not call the poller and
  \<open>run\<close> is polled again, with the notification cleared.
\<close>

theorem executor_block_on_no_block:
  assumes "reachable (xinit E th) (xstep E th) s" and "snd (kernel n) = xs_ex s"
    and "run_future E th (EventFd (lift_os os) fd) (xs_run s) r n = Some (Pending, rs', r1, n1)"
    and "wq_items (en_cq E) (ex_queue (snd (kernel n1))) \<noteq> []"
  shows "is_notified n1 \<and> (\<exists>r2 n2. \<not> is_notified n2 \<and>
    (\<forall>EP. block_on EP (lift_os os) (EventFd (lift_os os) fd) (runtime_wake E th (EventFd (lift_os os) fd))
        (run_future E th (EventFd (lift_os os) fd)) (xs_run s) r n =
      block_on EP (lift_os os) (EventFd (lift_os os) fd) (runtime_wake E th (EventFd (lift_os os) fd))
        (run_future E th (EventFd (lift_os os) fd)) rs' r2 n2))"
proof -
  have inv: "xinv E th s" by (rule xsystem.reachable_inv [OF assms(1)])
  have not: "is_notified n1" by (rule efd_world.pending_notified(2) [OF inv assms(2-4)])
  obtain now k where now: "sys_now (lift_os os) (kernel n1) = (now, k)" by (metis surj_pair)
  have "\<exists>r2 n2. wait_finish (lift_os os) (EventFd (lift_os os) fd) (runtime_wake E th (EventFd (lift_os os) fd)) r1
      (n1\<lparr>kernel := k\<rparr>) = (Ok (), r2, n2) \<and> \<not> is_notified n2 \<and>
    (\<forall>EP. block_on EP (lift_os os) (EventFd (lift_os os) fd) (runtime_wake E th (EventFd (lift_os os) fd))
        (run_future E th (EventFd (lift_os os) fd)) (xs_run s) r n =
      block_on EP (lift_os os) (EventFd (lift_os os) fd) (runtime_wake E th (EventFd (lift_os os) fd))
        (run_future E th (EventFd (lift_os os) fd)) rs' r2 n2)"
    by (rule block_on_skip, rule assms(3), rule now, rule disjI1, rule not)
  then show ?thesis using not by blast
qed

text \<open>What a fold of wakers that has the task's among them does for the task.\<close>

lemma woken_task:
  assumes "env_ok E" "exec_ok E th m ex" "ex_tasks ex i = Some t" "TaskW (tk_waker t) \<in> set ws"
    "ex' = fold (any_wake E th) ws ex"
  shows "i \<in> set (wq_items (en_cq E) (ex_queue ex')) \<and> task_reached E th cx i t ex' \<and> exec_ok E th m ex'"
proof -
  have "tasks_ok E {} ex" using assms(2) by (simp add: exec_ok_def)
  note queued = fold_wake_queued [OF assms(1) this assms(3,4), of th]
  have ok: "exec_ok E th m ex'"
    using exec_ok_advanced [OF fold_wake_advanced [OF assms(1)] assms(2)] assms(5) by simp
  then show ?thesis using queued queued_task_reached [OF assms(1) ok] assms(5) by simp
qed

text \<open>
  C11: From an event to a task. A task of the executor waits for a direction of an event source
  with its task waker. When \<open>wait\<close> reports that direction among events of registered
  sources, it returns with the task's identifier in the executor's wake queue, whatever
  other wakers it has called, and with the executor's invariant kept; the next poll of \<open>run\<close>
  comes to the task, which is still alive then.
\<close>

theorem event_queues_task:
  assumes s: "reachable (xinit E th) (xstep E th) s" "xs_run s = RunMain m fut"
      "ex_tasks (xs_ex s) i = Some t" "kernel n = (k0, xs_ex s)"
    and r: "reactor_ok r" "source_data r src = Some d" "enabled (dir_of dir d)"
      "waker (dir_of dir d) = Some (TaskW (tk_waker t))"
    and now: "sys_now (lift_os os) (kernel n) = (now, k)"
    and idle: "TimerQueue_next_timeout now (timer_queue r) \<noteq> Some 0" "\<not> is_notified n"
    and poll: "PollPoller_poll (lift_os os) (EventFd (lift_os os) fd) (TimerFd (lift_os os) tfd)
        (TimerQueue_next_timeout now (timer_queue r)) (Reactor_interests r) (poller r) k =
        (Ok (Some evs), p, k1)"
    and evs: "distinct (map fst evs)" "\<forall>e \<in> set evs. source_data r (fst e) \<noteq> None"
      "(src, f) \<in> set evs" "dir_reported dir f"
  shows "\<exists>r2 n2. Reactor_wait (PollPoller (lift_os os) (EventFd (lift_os os) fd) (TimerFd (lift_os os) tfd)) (lift_os os)
        (EventFd (lift_os os) fd) (runtime_wake E th (EventFd (lift_os os) fd)) r n = (Ok (), r2, n2)
    \<and> i \<in> set (wq_items (en_cq E) (ex_queue (snd (kernel n2))))
    \<and> task_reached E th cx i t (snd (kernel n2))
    \<and> exec_ok E th m (snd (kernel n2))"
proof -
  let ?N = "EventFd (lift_os os) fd" and ?wake = "runtime_wake E th (EventFd (lift_os os) fd)"
  have inv: "xinv E th s" by (rule xsystem.reachable_inv [OF s(1)])
  then have ok: "env_ok E" "exec_ok E th m (xs_ex s)" using s(2) by (simp_all add: xinv_def)
  let ?ws = "concat (map (\<lambda>(s, f). fired_wakers f (the (source_data r s))) evs)"
  have "ep_poll (PollPoller (lift_os os) ?N (TimerFd (lift_os os) tfd)) (TimerQueue_next_timeout now (timer_queue r))
      (Reactor_interests r) (poller r) k = (Ok (Some evs), p, k1)"
    using poll by (simp add: PollPoller_def)
  from wait_dispatch_facts [OF r(1) now idle this evs(1,2), of ?wake ?N]
  obtain r2 now2 k2 ws' where
      wait: "Reactor_wait (PollPoller (lift_os os) ?N (TimerFd (lift_os os) tfd)) (lift_os os) ?N ?wake r n = (Ok (), r2,
        Reactor_clear_notifications ?N (fold ?wake ws'
          ((fold ?wake ?ws \<lparr>kernel = k1, is_notified = True\<rparr>)\<lparr>kernel := k2\<rparr>)))"
    and k2: "sys_now (lift_os os) (kernel (fold ?wake ?ws \<lparr>kernel = k1, is_notified = True\<rparr>)) = (now2, k2)"
    by blast
  define ex1 where "ex1 = fold (any_wake E th) ?ws (xs_ex s)"
  have "snd k1 = xs_ex s" using efd_side.now_keeps [of os "kernel n"] now lift_poll_keeps [OF poll timerfd_keeps] s(4) by simp
  then have "snd (kernel (fold ?wake ?ws \<lparr>kernel = k1, is_notified = True\<rparr>)) = ex1"
    unfolding ex1_def efd_world.fold_runtime_wake by simp
  then have k2': "snd k2 = ex1" using efd_side.now_keeps [of os] k2 by (metis snd_conv)
  have "TaskW (tk_waker t) \<in> set (fired_wakers f d)" using r(3,4) evs(4) by (simp add: fired_dir)
  then have ws: "TaskW (tk_waker t) \<in> set (?ws @ ws')" using evs(3) r(2) by force
  have "snd (kernel (Reactor_clear_notifications ?N (fold ?wake ws'
      ((fold ?wake ?ws \<lparr>kernel = k1, is_notified = True\<rparr>)\<lparr>kernel := k2\<rparr>)))) = fold (any_wake E th) (?ws @ ws') (xs_ex s)"
    using k2' by (simp add: efd_side.clear_notifications_keeps efd_world.fold_runtime_wake ex1_def)
  from wait woken_task [OF ok s(3) ws this] show ?thesis by blast
qed


section \<open>Concrete instances\<close>

text \<open>
  Main future 0 spawns a task that wakes itself whenever it is polled, main future 5 one that
  waits for descriptor 7 to become readable.
\<close>

type_synonym small_world = "(poll_poller, unit any_waker) reactor \<times> nat list"

definition wait_readable :: "nat \<Rightarrow> small_world \<Rightarrow> nat \<times> small_world" where
  "wait_readable n x =
     (let (r, k) = x in (0, snd (Reactor_enable_event reading_poller 7 Interest_Read (TaskW n) r), k))"

definition small_poll :: "nat \<Rightarrow> nat \<Rightarrow> (nat, nat, unit, small_world) prog" where
  "small_poll n f =
     (if f = 0 then Do (Spawn 1) (\<lambda>_. Yield 2 Pending)
      else if f = 1 then Do (Wake (TaskW n)) (\<lambda>_. Yield 1 Pending)
      else if f = 5 then Do (Spawn 3) (\<lambda>_. Yield 2 Pending)
      else if f = 3 then Do (Ext (wait_readable n)) (\<lambda>_. Yield 3 Pending)
      else Yield f Pending)"

definition small_env :: "(nat, nat, unit option, unit, usize list, small_world) env" where
  "small_env = \<lparr>en_aw = cell_waker, en_cq = list_queue, en_slab = lowest_vacant, en_poll = small_poll\<rparr>"

lemma small_env_ok: "env_ok small_env"
  by (simp add: env_ok_def small_env_def cell_waker_laws list_queue_laws lowest_vacant_laws)

text \<open>The reactor with the descriptor registered, and with the task waiting for it.\<close>

definition idle_reader :: "(poll_poller, unit any_waker) reactor" where
  "idle_reader = \<lparr>poller = \<lparr>pollfds = []\<rparr>, event_sources = [(7, EventData_default)],
     timer_queue = TimerQueue_new\<rparr>"

definition task_reader :: "(poll_poller, unit any_waker) reactor" where
  "task_reader = \<lparr>poller = \<lparr>pollfds = []\<rparr>,
     event_sources = [(7, dir_enable Interest_Read (TaskW 1) EventData_default)], timer_queue = TimerQueue_new\<rparr>"

text \<open>The executors after the first poll.\<close>

definition small_ex ::
  "nat \<Rightarrow> bool \<Rightarrow> small_world \<Rightarrow> (nat, nat, unit option, unit, usize list, small_world) executor" where
  "small_ex f awake x =
     \<lparr>ex_tasks = [0 \<mapsto> \<lparr>tk_fut = f, tk_ret = 0, tk_handle = 0, tk_waker = 1\<rparr>], ex_hist = 1,
      ex_spawned = [], ex_borrowed = False,
      ex_queue = \<lparr>wq_base = (if awake then \<lparr>base_cell = None, base_log = [()]\<rparr> else \<lparr>base_cell = Some (), base_log = []\<rparr>),
        wq_thread = 0, wq_local = (if awake then [0] else []), wq_con = []\<rparr>,
      ex_wakers = [\<lparr>tw_awoken = False, tw_task_id = MAIN_TASK_ID\<rparr>, \<lparr>tw_awoken = awake, tw_task_id = 0\<rparr>],
      ex_handles = [\<lparr>hd_cancelled = False, hd_waker = Some 1\<rparr>],
      ex_rets = [\<lparr>rd_value = None, rd_waker = None\<rparr>], ex_other = [], ex_world = x\<rparr>"

lemma wait_readable_1: "wait_readable (Suc 0) (idle_reader, k) = (0, task_reader, k)"
  by (simp add: wait_readable_def idle_reader_def task_reader_def ppoll.enable_registered bt_put_def)

lemma small_first_poll:
  "Executor_run_poll small_env 0 () (RunStart 0) (Executor_new small_env 0 x) =
     Some (Ok Pending, RunMain 0 2, small_ex 1 True x)"
  "Executor_run_poll small_env 0 () (RunStart 5) (Executor_new small_env 0 (idle_reader, k)) =
     Some (Ok Pending, RunMain 0 2, small_ex 3 False (task_reader, k))"
  by (simp_all add: small_env_def small_poll_def small_ex_def exec_eval MAIN_not_0 wait_readable_1)

abbreviation small_start :: "nat \<Rightarrow> (nat, nat, unit option, unit, usize list, small_world) xsys" where
  "small_start f \<equiv>
     \<lparr>xs_run = RunStart f, xs_cx = None, xs_ex = Executor_new small_env 0 (idle_reader, [])\<rparr>"

lemma small_reachable: "reachable (xinit small_env 0) (xstep small_env 0) (small_start f)"
  by (rule reach_init) (auto simp: xinit_def small_env_ok)

lemma small_world [simp]:
  "(Executor_new small_env 0 x)\<lparr>ex_world := y\<rparr> = Executor_new small_env 0 y" "ex_world (small_ex f b x) = x"
  by (simp_all add: Executor_new_def small_ex_def)

theorem executor_block_on_no_block_witness:
  "is_notified (set_executor (EventFd (lift_os reading_os) 3) [] (small_ex 1 True (idle_reader, []))
     \<lparr>kernel = ([], Executor_new small_env 0 (idle_reader, [])), is_notified = False\<rparr>)"
proof -
  let ?N = "EventFd (lift_os reading_os) 3" and ?ex = "small_ex 1 True (idle_reader, [])"
  let ?n = "\<lparr>kernel = ([], Executor_new small_env 0 (idle_reader, [])), is_notified = False\<rparr>"
  have 1: "snd (kernel ?n) = xs_ex (small_start 0)" by simp
  have 2: "run_future small_env 0 ?N (xs_run (small_start 0)) idle_reader ?n =
      Some (Pending, RunMain 0 2, idle_reader, set_executor ?N [] ?ex ?n)"
    by (simp add: run_future_def small_first_poll)
  have 3: "wq_items (en_cq small_env) (ex_queue (snd (kernel (set_executor ?N [] ?ex ?n)))) \<noteq> []"
    by (simp add: efd_world.set_executor_keeps small_ex_def wq_items_def list_queue_def small_env_def)
  show ?thesis by (rule conjunct1 [OF executor_block_on_no_block [OF small_reachable 1 2 3]])
qed

lemma task_reader_polls:
  "PollPoller_poll (lift_os reading_os) (EventFd (lift_os reading_os) 3) (TimerFd (lift_os reading_os) 4) None
     (Reactor_interests task_reader) (poller task_reader) k =
   (Ok (Some [(7, \<lparr>fl_read = True, fl_write = False\<rparr>)]),
    \<lparr>pollfds = [\<lparr>pf_fd = 7, pf_events = read_flags, pf_revents = {P_IN}\<rparr>,
                \<lparr>pf_fd = 3, pf_events = read_flags, pf_revents = {}\<rparr>,
                \<lparr>pf_fd = 4, pf_events = read_flags, pf_revents = {}\<rparr>]\<rparr>, k)"
  by (simp add: PollPoller_poll_def task_reader_def busy_defs reading_os_def lift_os_def lift_call_def
      TimerFd_def TimerFd_set_timeout_def source_pollfds_def internal_pollfds_def PollFd_from_def
      Filter_pollflags_def set_revents_def poll_outcome_def ready_fd_def pollfd_event_def
      Filter_of_revents_def read_flags_def write_flags_def)

abbreviation small_waiting :: "(nat, nat, unit option, unit, usize list, small_world) xsys" where
  "small_waiting \<equiv> \<lparr>xs_run = RunMain 0 2, xs_cx = Some ((), []), xs_ex = small_ex 3 False (task_reader, [])\<rparr>"

lemma small_waiting_reachable: "reachable (xinit small_env 0) (xstep small_env 0) small_waiting"
proof (rule reach_step [OF small_reachable])
  have "base_log (wq_base (ex_queue (Executor_new small_env 0 (idle_reader, [])))) = []"
    by (simp add: Executor_new_def WakeQueue_with_capacity_def)
  then show "xstep small_env 0 (small_start 5) small_waiting"
    using xstep.poll [where s = "small_start 5" and cx = "()"] small_first_poll(2) by fastforce
qed

theorem event_queues_task_witness:
  "\<exists>r2 n2. Reactor_wait (PollPoller (lift_os reading_os) (EventFd (lift_os reading_os) 3) (TimerFd (lift_os reading_os) 4))
       (lift_os reading_os) (EventFd (lift_os reading_os) 3) (runtime_wake small_env 0 (EventFd (lift_os reading_os) 3))
       task_reader \<lparr>kernel = ([], small_ex 3 False (task_reader, [])), is_notified = False\<rparr> = (Ok (), r2, n2)
     \<and> 0 \<in> set (wq_items (en_cq small_env) (ex_queue (snd (kernel n2))))"
proof -
  note reach = small_waiting_reachable
  have ok: "reactor_ok task_reader"
    by (simp add: reactor_ok_def task_reader_def sources_ok_def bt_ok_Cons)
  have sd: "source_data task_reader 7 = Some (dir_enable Interest_Read (TaskW 1) EventData_default)"
    and t: "TimerQueue_next_timeout 0 (timer_queue task_reader) = None"
    by (simp_all add: task_reader_def TimerQueue_next_timeout_def TimerQueue_new_def bt_first_def)
  have now: "sys_now (lift_os reading_os) ([], small_ex 3 False (task_reader, [])) = (0, [], small_ex 3 False (task_reader, []))"
    by (simp add: lift_os_def lift_call_def reading_os_def)
  have task: "ex_tasks (small_ex 3 False (task_reader, [])) 0 = Some \<lparr>tk_fut = 3, tk_ret = 0, tk_handle = 0, tk_waker = 1\<rparr>"
    by (simp add: small_ex_def)
  show ?thesis
    using event_queues_task [OF reach, of 0 2 0 "\<lparr>tk_fut = 3, tk_ret = 0, tk_handle = 0, tk_waker = 1\<rparr>"
        "\<lparr>kernel = ([], small_ex 3 False (task_reader, [])), is_notified = False\<rparr>" "[]" task_reader 7
        "dir_enable Interest_Read (TaskW 1) EventData_default" Interest_Read reading_os 0
        "([], small_ex 3 False (task_reader, []))" 3 4 "[(7, \<lparr>fl_read = True, fl_write = False\<rparr>)]" _ "([], small_ex 3 False (task_reader, []))"
        "\<lparr>fl_read = True, fl_write = False\<rparr>"]
      ok sd t now task task_reader_polls [of "([], small_ex 3 False (task_reader, []))"]
    by (auto simp: dir_reported_def)
qed

text \<open>The task's timer, armed with its waker for an expiry that has come.\<close>

definition task_timer :: "(poll_poller, unit any_waker) reactor" where
  "task_timer = \<lparr>poller = \<lparr>pollfds = []\<rparr>, event_sources = [],
     timer_queue = \<lparr>current_id = Id_rs 2, timers = [((0, Id_rs 1), TaskW 1)]\<rparr>\<rparr>"


end
