(* ===== verification/Reactor_Tests.thy ===== *)
theory Reactor_Tests
  imports Reactor
begin

text \<open>
  The unit tests of \<open>src/src/reactor.rs\<close> with their mock notifier, poller and waker
  (\<open>src/src/test.rs\<close>), run on the model. A test is the list of its statements, each a step on
  the test's state that has no result when an assertion or an \<open>unwrap\<close> fails.
\<close>

section \<open>Statements\<close>

type_synonym 's stmt = "'s \<Rightarrow> 's option"

definition assert_that :: "('s \<Rightarrow> bool) \<Rightarrow> 's stmt" where
  "assert_that P s = (if P s then Some s else None)"

primrec run_test :: "'s stmt list \<Rightarrow> 's \<Rightarrow> 's option" where
  "run_test [] s = Some s"
| "run_test (c # cs) s = Option.bind (c s) (run_test cs)"

definition passes :: "'s stmt list \<Rightarrow> 's \<Rightarrow> bool" where
  "passes cs s \<longleftrightarrow> run_test cs s \<noteq> None"

fun is_ok :: "'a res \<Rightarrow> bool" where
  "is_ok (Ok a) = True"
| "is_ok _ = False"

fun is_err :: "'a res \<Rightarrow> bool" where
  "is_err (Err e) = True"
| "is_err _ = False"

section \<open>The mocks\<close>

text \<open>
  What the mocks share with the test: the counter of the \<open>MockNotifier\<close> and the flags of the
  \<open>MockWaker\<close>s, by number.
\<close>

record mock_kernel =
  mk_notified :: nat
  mk_woken :: "nat list"

definition MockNotifier_clear :: "mock_kernel \<Rightarrow> unit res \<times> mock_kernel" where
  "MockNotifier_clear k = (Ok (), k\<lparr>mk_notified := 0\<rparr>)"

definition MockNotifier_notify :: "mock_kernel \<Rightarrow> unit res \<times> mock_kernel" where
  "MockNotifier_notify k = (Ok (), k\<lparr>mk_notified := mk_notified k + 1\<rparr>)"

text \<open>It implements only \<open>EventNotifier\<close>; the reactor never asks for its descriptor.\<close>

definition MockNotifier :: "mock_kernel notifier_fd" where
  "MockNotifier = \<lparr>nf_clear = MockNotifier_clear, nf_notify = MockNotifier_notify, nf_raw_fd = -1\<rparr>"

definition MockWaker_wake :: "nat \<Rightarrow> mock_kernel nworld \<Rightarrow> mock_kernel nworld" where
  "MockWaker_wake w n = n\<lparr>kernel := (kernel n)\<lparr>mk_woken := w # mk_woken (kernel n)\<rparr>\<rparr>"

definition MockWaker_get :: "nat \<Rightarrow> mock_kernel nworld \<Rightarrow> bool" where
  "MockWaker_get w n \<longleftrightarrow> w \<in> set (mk_woken (kernel n))"

definition MockWaker_set :: "nat \<Rightarrow> bool \<Rightarrow> mock_kernel nworld \<Rightarrow> mock_kernel nworld" where
  "MockWaker_set w b n =
     (if b then MockWaker_wake w n
      else n\<lparr>kernel := (kernel n)\<lparr>mk_woken := filter (\<lambda>v. v \<noteq> w) (mk_woken (kernel n))\<rparr>\<rparr>)"

lemma MockWaker_set_get: "MockWaker_get v (MockWaker_set w b n) \<longleftrightarrow> (if v = w then b else MockWaker_get v n)"
  by (auto simp: MockWaker_set_def MockWaker_get_def MockWaker_wake_def)

record mock_poller =
  registrations :: "(Source, Filter) btree"
  poll_input :: "(Source \<times> Filter) list"
  poll_output :: "(Source \<times> Filter) list"
  ret_error :: bool

definition Filter_default :: Filter where
  "Filter_default = \<lparr>fl_read = False, fl_write = False\<rparr>"

definition Filter_read :: Filter where
  "Filter_read = \<lparr>fl_read = True, fl_write = False\<rparr>"

definition Filter_write :: Filter where
  "Filter_write = \<lparr>fl_read = False, fl_write = True\<rparr>"

definition Filter_both :: Filter where
  "Filter_both = \<lparr>fl_read = True, fl_write = True\<rparr>"

definition MockPoller_default :: mock_poller where
  "MockPoller_default = \<lparr>registrations = [], poll_input = [], poll_output = [], ret_error = False\<rparr>"

definition MockPoller_ret :: "mock_poller \<Rightarrow> unit res" where
  "MockPoller_ret p = (if ret_error p then Err (Other ''test error'') else Ok ())"

definition MockPoller_register :: "Source \<Rightarrow> mock_poller \<Rightarrow> unit res \<times> mock_poller" where
  "MockPoller_register source p =
     (let p1 = p\<lparr>registrations := snd (bt_insert source Filter_default (registrations p))\<rparr>
      in (MockPoller_ret p1, p1))"

definition MockPoller_modify :: "Source \<Rightarrow> Filter \<Rightarrow> mock_poller \<Rightarrow> unit res \<times> mock_poller" where
  "MockPoller_modify source f p =
     (let p1 = (case map_of (registrations p) source of
                  Some _ \<Rightarrow> p\<lparr>registrations := bt_put source f (registrations p)\<rparr>
                | None \<Rightarrow> p)
      in (MockPoller_ret p1, p1))"

definition MockPoller_deregister :: "Source \<Rightarrow> mock_poller \<Rightarrow> unit res \<times> mock_poller" where
  "MockPoller_deregister source p =
     (let p1 = p\<lparr>registrations := snd (bt_remove source (registrations p))\<rparr>
      in (MockPoller_ret p1, p1))"

definition MockPoller_poll ::
  "duration option \<Rightarrow> (Source \<times> Filter) list \<Rightarrow> mock_poller \<Rightarrow> mock_kernel \<Rightarrow>
     (Source \<times> Filter) list option res \<times> mock_poller \<times> mock_kernel" where
  "MockPoller_poll timeout srcs p k =
     (let p1 = p\<lparr>poll_input := srcs\<rparr>; out = poll_output p1
      in (bind_res (MockPoller_ret p1) (\<lambda>_. Ok (Some out)), p1, k))"

definition MockPoller :: "(mock_poller, mock_kernel) event_poller" where
  "MockPoller = \<lparr>ep_register = MockPoller_register, ep_modify = MockPoller_modify,
     ep_deregister = MockPoller_deregister, ep_poll = MockPoller_poll\<rparr>"

text \<open>The tests of the reactor make no system call but reading the clock.\<close>

definition mock_os :: "mock_kernel os" where
  "mock_os = \<lparr>
     sys_read = (\<lambda>_ n k. (Inr n, k)),
     sys_write = (\<lambda>_ bs k. (Inr (length bs), k)),
     sys_poll = (\<lambda>fds _ k. (Inr (0, map (\<lambda>_. {}) fds), k)),
     sys_timerfd_settime = (\<lambda>_ _ k. (Inr (), k)),
     sys_now = (\<lambda>k. (0, k)),
     sys_eventfd = (\<lambda>_ _ k. (Inr 3, k)),
     sys_pipe = (\<lambda>k. (Inr (3, 4), k)),
     sys_timerfd_create = (\<lambda>_ k. (Inr 4, k)),
     sys_ioctl_fionbio = (\<lambda>_ _ k. (Inr (), k)),
     sys_fcntl_getfl = (\<lambda>_ k. (Inr {}, k)),
     sys_fcntl_setfl = (\<lambda>_ _ k. (Inr (), k))\<rparr>"

section \<open>Statements of the reactor tests\<close>

type_synonym rtest = "(mock_poller, nat) reactor \<times> mock_kernel nworld"

text \<open>\<open>Reactor::<MockPoller>::new()\<close> with wakers none of which has been called.\<close>

definition test_reactor :: rtest where
  "test_reactor = (Reactor_new MockPoller_default, WithFlag_new \<lparr>mk_notified = 0, mk_woken = []\<rparr>)"

definition try_register :: "(unit res \<Rightarrow> bool) \<Rightarrow> Source \<Rightarrow> rtest stmt" where
  "try_register P s = (\<lambda>(r, n). let (res, r') = Reactor_register_event MockPoller s r
     in if P res then Some (r', n) else None)"

definition try_enable :: "(unit res \<Rightarrow> bool) \<Rightarrow> Source \<Rightarrow> Interest \<Rightarrow> nat \<Rightarrow> rtest stmt" where
  "try_enable P s i w = (\<lambda>(r, n). let (res, r') = Reactor_enable_event MockPoller s i w r
     in if P res then Some (r', n) else None)"

definition try_deregister :: "(unit res \<Rightarrow> bool) \<Rightarrow> Source \<Rightarrow> rtest stmt" where
  "try_deregister P s = (\<lambda>(r, n). let (res, r') = Reactor_deregister_event MockPoller s r
     in if P res then Some (r', n) else None)"

definition try_wait :: "(unit res \<Rightarrow> bool) \<Rightarrow> rtest stmt" where
  "try_wait P = (\<lambda>(r, n). let (res, r', n') = Reactor_wait MockPoller mock_os MockNotifier MockWaker_wake r n
     in if P res then Some (r', n') else None)"

definition set_poller :: "(mock_poller \<Rightarrow> mock_poller) \<Rightarrow> rtest stmt" where
  "set_poller f = (\<lambda>(r, n). Some (r\<lparr>poller := f (poller r)\<rparr>, n))"

definition ready_is :: "bool \<Rightarrow> Source \<Rightarrow> Interest \<Rightarrow> rtest stmt" where
  "ready_is b s i = assert_that (\<lambda>(r, n). Reactor_is_event_ready s i r = Ok b)"

definition filter_is :: "Source \<Rightarrow> Filter \<Rightarrow> rtest stmt" where
  "filter_is s f = assert_that (\<lambda>(r, n). map_option EventData_filter (source_data r s) = Some f)"

definition registrations_are :: "(Source \<times> Filter) list \<Rightarrow> rtest stmt" where
  "registrations_are l = assert_that (\<lambda>(r, n). registrations (poller r) = l)"

definition sources_len_is :: "nat \<Rightarrow> rtest stmt" where
  "sources_len_is l = assert_that (\<lambda>(r, n). length (event_sources r) = l)"

definition woken_is :: "bool \<Rightarrow> nat \<Rightarrow> rtest stmt" where
  "woken_is b w = assert_that (\<lambda>(r, n). MockWaker_get w n = b)"

definition poll_input_is :: "(Source \<times> Filter) list \<Rightarrow> rtest stmt" where
  "poll_input_is l = assert_that (\<lambda>(r, n). poll_input (poller r) = l)"

section \<open>The tests\<close>

text \<open>The ten threads only call \<open>notify\<close>, one after the other in some order.\<close>

definition test_flag_notifier :: "mock_kernel nworld stmt list" where
  "test_flag_notifier =
     replicate 10 (\<lambda>n. Some (snd (WithFlag_notify MockNotifier n))) @
     [assert_that is_notified, assert_that (\<lambda>n. mk_notified (kernel n) = 1)]"

definition test_io_registration :: "rtest stmt list" where
  "test_io_registration =
     [sources_len_is 0,
      try_register is_ok 100, try_register is_ok 101,
      registrations_are [(100, Filter_default), (101, Filter_default)],
      filter_is 100 Filter_default, filter_is 101 Filter_default, sources_len_is 2,
      try_enable is_ok 100 Interest_Read 1, try_enable is_ok 101 Interest_Read 2, try_enable is_ok 101 Interest_Write 3,
      registrations_are [(100, Filter_read), (101, Filter_both)],
      filter_is 100 Filter_read, filter_is 101 Filter_both, sources_len_is 2,
      ready_is False 100 Interest_Read, ready_is False 101 Interest_Read, ready_is False 101 Interest_Write,
      set_poller (\<lambda>p. p\<lparr>poll_output := [(100, Filter_read), (101, Filter_write)]\<rparr>), try_wait is_ok,
      poll_input_is [(100, Filter_read), (101, Filter_both)],
      ready_is True 100 Interest_Read, ready_is False 101 Interest_Read, ready_is True 101 Interest_Write,
      woken_is True 1, woken_is False 2, woken_is True 3,
      filter_is 100 Filter_default, filter_is 101 Filter_read,
      try_deregister is_ok 101,
      assert_that (\<lambda>(r, n). map_of (registrations (poller r)) 100 \<noteq> None),
      assert_that (\<lambda>(r, n). length (registrations (poller r)) = 1),
      assert_that (\<lambda>(r, n). source_data r 100 \<noteq> None), sources_len_is 1]"

definition test_empty_wait :: "rtest stmt list" where
  "test_empty_wait = [try_wait is_ok, poll_input_is [], registrations_are [], sources_len_is 0]"

definition test_poll_no_output :: "rtest stmt list" where
  "test_poll_no_output =
     [try_register is_ok 100, try_register is_ok 101,
      try_enable is_ok 100 Interest_Read 1, try_enable is_ok 101 Interest_Read 1,
      try_wait is_ok, assert_that (\<lambda>(r, n). poll_input (poller r) \<noteq> []),
      ready_is False 100 Interest_Read, ready_is False 101 Interest_Read, woken_is False 1]"

definition test_multiple_wakes :: "rtest stmt list" where
  "test_multiple_wakes =
     concat (map (\<lambda>i. [try_register is_ok (int i), try_enable is_ok (int i) Interest_Read i]) [0, 1, 2, 3, 4]) @
     concat (map (\<lambda>i. [set_poller (\<lambda>p. p\<lparr>poll_output := [(int i, Filter_read)]\<rparr>), try_wait is_ok, woken_is True i])
       [0, 1, 4]) @
     [woken_is False 2, woken_is False 3]"

definition test_modify_registration :: "rtest stmt list" where
  "test_modify_registration =
     [try_register is_ok 100, set_poller (\<lambda>p. p\<lparr>poll_output := [(100, Filter_read)]\<rparr>)] @
     concat (map (\<lambda>i. [try_enable is_ok 100 Interest_Read i, try_wait is_ok, woken_is True i]) [0, 1, 2]) @
     [try_deregister is_ok 100, registrations_are [], sources_len_is 0]"

definition test_disable_event_after_poll :: "rtest stmt list" where
  "test_disable_event_after_poll =
     [try_register is_ok 100, try_enable is_ok 100 Interest_Read 1, try_enable is_ok 100 Interest_Write 1,
      set_poller (\<lambda>p. p\<lparr>poll_output := [(100, Filter_read)]\<rparr>),
      try_wait is_ok, poll_input_is [(100, Filter_both)],
      try_wait is_ok, poll_input_is [(100, Filter_write)],
      try_deregister is_ok 100, registrations_are [], sources_len_is 0]"

definition test_repeat_registers :: "rtest stmt list" where
  "test_repeat_registers =
     [try_register is_ok 100, try_enable is_ok 100 Interest_Read 1, try_register is_err 100,
      assert_that (\<lambda>(r, n). map_of (registrations (poller r)) 100 \<noteq> None), filter_is 100 Filter_read]"

definition test_deregister_unfound :: "rtest stmt list" where
  "test_deregister_unfound = [try_deregister is_panic 101]"

definition test_enable_unfound :: "rtest stmt list" where
  "test_enable_unfound = [try_enable is_panic 101 Interest_Write 1]"

definition test_check_ready_unfound :: "rtest stmt list" where
  "test_check_ready_unfound = [assert_that (\<lambda>(r, n). is_panic (Reactor_is_event_ready 101 Interest_Write r))]"

definition test_register_error :: "rtest stmt list" where
  "test_register_error =
     [set_poller (\<lambda>p. p\<lparr>ret_error := True\<rparr>), try_register is_err 100, sources_len_is 0]"

definition test_poller_error :: "rtest stmt list" where
  "test_poller_error =
     [try_register is_ok 100, set_poller (\<lambda>p. p\<lparr>ret_error := True\<rparr>),
      try_enable is_err 100 Interest_Write 1, filter_is 100 Filter_write,
      try_wait is_err, try_deregister is_err 100, sources_len_is 0]"

lemma flag_notifier_passes:
  "passes test_flag_notifier (WithFlag_new \<lparr>mk_notified = 0, mk_woken = []\<rparr>)"
  by code_simp

lemma io_registration_passes: "passes test_io_registration test_reactor"
  by code_simp

text \<open>
  The unit tests of the reactor hold of the model: the flag notifier's test, every test of
  registering, enabling and waiting with the mock poller, the three tests that expect a panic
  and the two that expect the poller's error.
\<close>

lemma reactor_tests_pass:
  "passes test_flag_notifier (WithFlag_new \<lparr>mk_notified = 0, mk_woken = []\<rparr>)
   \<and> list_all (\<lambda>t. passes t test_reactor) [test_io_registration, test_empty_wait, test_poll_no_output, test_multiple_wakes,
        test_modify_registration, test_disable_event_after_poll, test_repeat_registers,
        test_deregister_unfound, test_enable_unfound, test_check_ready_unfound, test_register_error,
        test_poller_error]"
proof -
  have "passes test_empty_wait test_reactor" "passes test_poll_no_output test_reactor"
    "passes test_multiple_wakes test_reactor" "passes test_modify_registration test_reactor"
    "passes test_disable_event_after_poll test_reactor" "passes test_repeat_registers test_reactor"
    "passes test_deregister_unfound test_reactor" "passes test_enable_unfound test_reactor"
    "passes test_check_ready_unfound test_reactor" "passes test_register_error test_reactor"
    "passes test_poller_error test_reactor"
    by code_simp+
  then show ?thesis using flag_notifier_passes io_registration_passes by simp
qed

end
