(* ===== verification/Timer_Tests.thy ===== *)
theory Timer_Tests
  imports Reactor_Tests Timers
begin

text \<open>
  The unit tests of \<open>src/src/time.rs\<close> on the model: those of the timer queue and those of the
  timer futures over the thread's reactor. The clock is the kernel state: it stands still
  between two statements and \<open>thread::sleep\<close> moves it on. It starts at ten seconds.
\<close>

section \<open>The clock\<close>

definition clock_os :: "instant os" where
  "clock_os = \<lparr>
     sys_read = (\<lambda>_ n k. (Inr n, k)),
     sys_write = (\<lambda>_ bs k. (Inr (length bs), k)),
     sys_poll = (\<lambda>fds _ k. (Inr (0, map (\<lambda>_. {}) fds), k)),
     sys_timerfd_settime = (\<lambda>_ _ k. (Inr (), k)),
     sys_now = (\<lambda>k. (k, k)),
     sys_eventfd = (\<lambda>_ _ k. (Inr 3, k)),
     sys_pipe = (\<lambda>k. (Inr (3, 4), k)),
     sys_timerfd_create = (\<lambda>_ k. (Inr 4, k)),
     sys_ioctl_fionbio = (\<lambda>_ _ k. (Inr (), k)),
     sys_fcntl_getfl = (\<lambda>_ k. (Inr {}, k)),
     sys_fcntl_setfl = (\<lambda>_ _ k. (Inr (), k))\<rparr>"

definition test_start :: instant where
  "test_start = 10 * int NANOS"

definition millis :: "nat \<Rightarrow> nat" where
  "millis n = n * MILLI"

section \<open>The timer queue\<close>

text \<open>The clock, the queue, the wakers called so far and the timer registered last.\<close>

record tq_test =
  tt_now :: instant
  tt_queue :: "nat timer_queue"
  tt_woken :: "nat list"
  tt_last :: "Id_rs \<times> instant"

definition tq_start :: tq_test where
  "tq_start = \<lparr>tt_now = test_start, tt_queue = TimerQueue_new, tt_woken = [], tt_last = (Id_rs 0, 0)\<rparr>"

definition tq_register :: "int \<Rightarrow> nat \<Rightarrow> tq_test stmt" where
  "tq_register delay w s =
     (let expiry = tt_now s + delay
      in map_option (\<lambda>(i, q). s\<lparr>tt_queue := q, tt_last := (i, expiry)\<rparr>)
           (TimerQueue_register expiry w (tt_queue s)))"

definition tq_modify :: "nat \<Rightarrow> tq_test stmt" where
  "tq_modify w s = Some (s\<lparr>tt_queue := TimerQueue_modify (fst (tt_last s)) (snd (tt_last s)) w (tt_queue s)\<rparr>)"

definition tq_cancel :: "tq_test stmt" where
  "tq_cancel s = Some (s\<lparr>tt_queue := TimerQueue_cancel (fst (tt_last s)) (snd (tt_last s)) (tt_queue s)\<rparr>)"

definition tq_clear :: "tq_test stmt" where
  "tq_clear s = (let (ws, q) = TimerQueue_clear_expired (tt_now s) (tt_queue s)
     in Some (s\<lparr>tt_queue := q, tt_woken := tt_woken s @ ws\<rparr>))"

definition tq_sleep :: "nat \<Rightarrow> tq_test stmt" where
  "tq_sleep d s = Some (s\<lparr>tt_now := tt_now s + int d\<rparr>)"

definition tq_timeout :: "(duration option \<Rightarrow> bool) \<Rightarrow> tq_test stmt" where
  "tq_timeout P = assert_that (\<lambda>s. P (TimerQueue_next_timeout (tt_now s) (tt_queue s)))"

definition tq_woken :: "bool \<Rightarrow> nat \<Rightarrow> tq_test stmt" where
  "tq_woken b w = assert_that (\<lambda>s. (w \<in> set (tt_woken s)) = b)"

definition tq_empty :: "tq_test stmt" where
  "tq_empty = assert_that (\<lambda>s. timers (tt_queue s) = [])"

definition test_next_timeout :: "tq_test stmt list" where
  "test_next_timeout =
     [tq_timeout (\<lambda>t. t = None),
      tq_register 0 0, tq_register (- int NANOS) 1, tq_register (int (millis 50)) 2,
      tq_timeout (\<lambda>t. t = Some 0),
      tq_clear, tq_timeout (\<lambda>t. case t of None \<Rightarrow> False | Some d \<Rightarrow> millis 40 < d),
      tq_woken True 0, tq_woken True 1, tq_woken False 2,
      tq_sleep (millis 50), tq_clear, tq_timeout (\<lambda>t. t = None), tq_woken True 2, tq_empty]"

definition test_modify :: "tq_test stmt list" where
  "test_modify =
     [tq_register (int (millis 10)) 0, tq_clear, tq_timeout (\<lambda>t. t \<noteq> None),
      tq_modify 1, tq_sleep (millis 10), tq_clear, tq_timeout (\<lambda>t. t = None),
      tq_woken False 0, tq_woken True 1, tq_empty]"

definition test_cancel :: "tq_test stmt list" where
  "test_cancel =
     [tq_register (10 * int NANOS) 0, tq_clear, tq_timeout (\<lambda>t. t \<noteq> None),
      tq_cancel, tq_clear, tq_timeout (\<lambda>t. t = None), tq_woken False 0, tq_empty]"

section \<open>The timer futures\<close>

text \<open>The clock, the thread's reactor and the future under test.\<close>

record 'f ft_test =
  ft_now :: instant
  ft_reactor :: "(unit, nat) reactor"
  ft_fut :: 'f

definition ft_start :: "'f \<Rightarrow> 'f ft_test" where
  "ft_start f = \<lparr>ft_now = test_start, ft_reactor = Reactor_new (), ft_fut = f\<rparr>"

definition ft_sleep :: "nat \<Rightarrow> 'f ft_test stmt" where
  "ft_sleep d s = Some (s\<lparr>ft_now := ft_now s + int d\<rparr>)"

definition reactor_empty :: "bool \<Rightarrow> 'f ft_test stmt" where
  "reactor_empty b = assert_that (\<lambda>s. Reactor_is_empty (ft_reactor s) = b)"

fun is_ready :: "'a poll \<Rightarrow> bool" where
  "is_ready (Ready a) = True"
| "is_ready Pending = False"

definition ft_poll_timer :: "bool \<Rightarrow> timer ft_test stmt" where
  "ft_poll_timer ready s =
     Option.bind (Timer_poll clock_os 0 (ft_fut s) (ft_reactor s) (ft_now s)) (\<lambda>(p, t, r, k).
       if is_ready p = ready then Some \<lparr>ft_now = k, ft_reactor = r, ft_fut = t\<rparr> else None)"

definition ft_poll_periodic :: "bool \<Rightarrow> periodic ft_test stmt" where
  "ft_poll_periodic ready s =
     Option.bind (Periodic_poll_next clock_os 0 (ft_fut s) (ft_reactor s) (ft_now s)) (\<lambda>(res, t, r, k).
       case res of
         Ok p \<Rightarrow> (if is_ready p = ready then Some \<lparr>ft_now = k, ft_reactor = r, ft_fut = t\<rparr> else None)
       | _ \<Rightarrow> None)"

definition ft_poll_timeout :: "((timed_out + instant) poll \<Rightarrow> bool) \<Rightarrow> timer timeout_future ft_test stmt" where
  "ft_poll_timeout P s =
     Option.bind (Timeout_poll clock_os (Timer_poll clock_os) 0 (ft_fut s) (ft_reactor s) (ft_now s))
       (\<lambda>(p, t, r, k). if P p then Some \<lparr>ft_now = k, ft_reactor = r, ft_fut = t\<rparr> else None)"

text \<open>A constructor that reads the clock at the start of the test.\<close>

definition made :: "'f res \<times> instant \<Rightarrow> 'f" where
  "made x = (case fst x of Ok f \<Rightarrow> f)"

definition test_timer_expired :: "timer ft_test stmt list" where
  "test_timer_expired =
     [ft_poll_timer True, assert_that (\<lambda>s. tm_id (ft_fut s) = None), reactor_empty True]"

definition test_timer :: "timer ft_test stmt list" where
  "test_timer =
     [ft_poll_timer False, assert_that (\<lambda>s. tm_id (ft_fut s) \<noteq> None), reactor_empty False,
      ft_sleep (millis 10),
      ft_poll_timer True, assert_that (\<lambda>s. tm_id (ft_fut s) = None), reactor_empty True]"

definition test_periodic :: "periodic ft_test stmt list" where
  "test_periodic =
     [ft_poll_periodic False, reactor_empty False,
      ft_sleep (millis 5), ft_poll_periodic True, reactor_empty True,
      ft_sleep (millis 5), ft_poll_periodic True, reactor_empty True]"

text \<open>The two futures of the test \<open>timeouts\<close>, on the same thread one after the other.\<close>

definition test_timeouts :: "timer timeout_future ft_test stmt list" where
  "test_timeouts =
     [ft_poll_timeout (\<lambda>p. case p of Ready (Inr _) \<Rightarrow> True | _ \<Rightarrow> False),
      (\<lambda>s. Some (s\<lparr>ft_fut := timeout_at (made (Timer_delay clock_os (10 * NANOS) (ft_now s))) (ft_now s)\<rparr>)),
      ft_poll_timeout (\<lambda>p. case p of Ready (Inl _) \<Rightarrow> True | _ \<Rightarrow> False)]"

lemma register_free:
  "map_of (timers q) (e, current_id q) = None \<Longrightarrow> TimerQueue_register e w q =
     Some (current_id q, \<lparr>current_id = Id_overflowing_incr (current_id q),
       timers = bt_put (e, current_id q) w (timers q)\<rparr>)"
  by (subst TimerQueue_register.simps) (simp add: bt_insert_def Let_def)

lemmas test_eval = passes_def assert_that_def test_start_def millis_def NANOS_def MILLI_def register_free
  bt_put_def bt_remove_def bt_del_def bt_first_def less_prod_def less_Id_rs_def TimerQueue_new_def
  TimerQueue_next_timeout_def TimerQueue_clear_expired_def TimerQueue_modify_def TimerQueue_cancel_def
  saturating_duration_since_def Id_overflowing_incr_def usize_checked_add_def

lemmas tq_eval = test_eval tq_start_def tq_register_def tq_modify_def tq_cancel_def tq_clear_def tq_sleep_def
  tq_timeout_def tq_woken_def tq_empty_def

lemmas ft_eval = test_eval ft_start_def ft_sleep_def reactor_empty_def ft_poll_timer_def ft_poll_periodic_def
  ft_poll_timeout_def made_def clock_os_def Timer_at_def Timer_delay_def Timer_register_def Timer_poll_def
  Timer_poll_at_def cancel_taken_def Periodic_periodic_def Periodic_poll_next_def Timeout_poll_def timeout_rs_def
  timeout_at_def instant_add_def INSTANT_MAX_def Reactor_new_def Reactor_is_empty_def TimerQueue_is_empty_def
  Reactor_register_timer_def Reactor_cancel_timer_def Reactor_modify_timer_def

text \<open>
  The unit tests of timers hold of the model: the timer queue wakes what has expired, and
  not a replaced or a cancelled timer; a timer, a periodic timer and a timeout become ready as
  their tests expect and leave nothing in the reactor.
\<close>

lemma timer_tests_pass:
  "passes test_next_timeout tq_start \<and> passes test_modify tq_start \<and> passes test_cancel tq_start
   \<and> passes test_timer_expired (ft_start (Timer_at test_start))
   \<and> passes test_timer (ft_start (made (Timer_delay clock_os (millis 10) test_start)))
   \<and> passes test_periodic (ft_start (made (Periodic_periodic clock_os (millis 5) test_start)))
   \<and> passes test_timeouts (ft_start (made (timeout_rs clock_os (Timer_at test_start) (10 * NANOS) test_start)))"
proof (intro conjI)
  show "passes test_next_timeout tq_start" by (simp add: test_next_timeout_def tq_eval)
  show "passes test_modify tq_start" by (simp add: test_modify_def tq_eval)
  show "passes test_cancel tq_start" by (simp add: test_cancel_def tq_eval)
  show "passes test_timer_expired (ft_start (Timer_at test_start))" by (simp add: test_timer_expired_def ft_eval)
  show "passes test_timer (ft_start (made (Timer_delay clock_os (millis 10) test_start)))"
    by (simp add: test_timer_def ft_eval)
  show "passes test_periodic (ft_start (made (Periodic_periodic clock_os (millis 5) test_start)))"
    by (simp add: test_periodic_def ft_eval)
  show "passes test_timeouts (ft_start (made (timeout_rs clock_os (Timer_at test_start) (10 * NANOS) test_start)))"
    by (simp add: test_timeouts_def ft_eval)
qed

end
