(* ===== verification/Poller_Tests.thy ===== *)
theory Poller_Tests
  imports Timer_Tests
begin

text \<open>
  The unit tests of \<open>src/src/reactor/unix.rs\<close> that run on one thread, on a small simulated
  kernel with event descriptors, timer descriptors, pipes and sockets: a listener with the number of
  connections that wait, and streams that are connected or not. Every system call takes a
  nanosecond; \<open>poll\<close> with nothing ready moves the clock to its own limit or to the first
  polled timer, whichever comes first.
\<close>

section \<open>The simulated kernel\<close>

datatype sim_fd = S_Event nat | S_Timer "instant option" | S_Pipe_R nat | S_Pipe_W fd
  | S_Listen nat | S_Stream bool

record sim_kernel =
  sk_now :: instant
  sk_fds :: "(fd \<times> sim_fd) list"
  sk_next :: fd

definition sim_set :: "fd \<Rightarrow> sim_fd \<Rightarrow> sim_kernel \<Rightarrow> sim_kernel" where
  "sim_set fd x k = k\<lparr>sk_fds := (fd, x) # filter (\<lambda>e. fst e \<noteq> fd) (sk_fds k)\<rparr>"

definition sim_tick :: "sim_kernel \<Rightarrow> sim_kernel" where
  "sim_tick k = k\<lparr>sk_now := sk_now k + 1\<rparr>"

definition sim_ready :: "sim_kernel \<Rightarrow> fd \<Rightarrow> pollflag set" where
  "sim_ready k fd =
     (case map_of (sk_fds k) fd of
        Some (S_Event n) \<Rightarrow> (if n = 0 then {P_OUT} else {P_IN, P_OUT})
      | Some (S_Timer (Some t)) \<Rightarrow> (if t \<le> sk_now k then {P_IN} else {})
      | Some (S_Timer None) \<Rightarrow> {}
      | Some (S_Pipe_R n) \<Rightarrow> (if n = 0 then {} else {P_IN})
      | Some (S_Pipe_W r) \<Rightarrow> {P_OUT}
      | Some (S_Listen n) \<Rightarrow> (if n = 0 then {} else {P_IN})
      | Some (S_Stream connected) \<Rightarrow> (if connected then {P_OUT} else {P_OUT, P_HUP})
      | None \<Rightarrow> {P_NVAL})"

definition sim_revents :: "(fd \<times> pollflag set) list \<Rightarrow> sim_kernel \<Rightarrow> pollflag set list" where
  "sim_revents fds k = map (\<lambda>(fd, ev). sim_ready k fd \<inter> (ev \<union> {P_ERR, P_HUP, P_NVAL})) fds"

definition sim_timers :: "(fd \<times> pollflag set) list \<Rightarrow> sim_kernel \<Rightarrow> instant list" where
  "sim_timers fds k = List.map_filter
     (\<lambda>(fd, ev). case map_of (sk_fds k) fd of Some (S_Timer t) \<Rightarrow> t | _ \<Rightarrow> None) fds"

definition sim_poll ::
  "(fd \<times> pollflag set) list \<Rightarrow> int \<Rightarrow> sim_kernel \<Rightarrow> (io_error + nat \<times> pollflag set list) \<times> sim_kernel" where
  "sim_poll fds ms k =
     (let k1 = sim_tick k;
          limits = (if ms < 0 then [] else [sk_now k1 + ms * int MILLI]) @ sim_timers fds k1;
          count = (\<lambda>rs. length (filter (\<lambda>r. r \<noteq> {}) rs))
      in if count (sim_revents fds k1) > 0 \<or> limits = []
         then (Inr (count (sim_revents fds k1), sim_revents fds k1), k1)
         else (let k2 = k1\<lparr>sk_now := max (sk_now k1) (foldr min (tl limits) (hd limits))\<rparr>
               in (Inr (count (sim_revents fds k2), sim_revents fds k2), k2)))"

definition sim_read :: "fd \<Rightarrow> nat \<Rightarrow> sim_kernel \<Rightarrow> (io_error + nat) \<times> sim_kernel" where
  "sim_read fd n k =
     (case map_of (sk_fds k) fd of
        Some (S_Event m) \<Rightarrow> (if m = 0 then (Inl WouldBlock, sim_tick k) else (Inr 8, sim_set fd (S_Event 0) (sim_tick k)))
      | Some (S_Pipe_R m) \<Rightarrow>
          (if m = 0 then (Inl WouldBlock, sim_tick k)
           else (Inr (min m n), sim_set fd (S_Pipe_R (m - n)) (sim_tick k)))
      | _ \<Rightarrow> (Inl (Os 9), sim_tick k))"

definition sim_write :: "fd \<Rightarrow> 8 word list \<Rightarrow> sim_kernel \<Rightarrow> (io_error + nat) \<times> sim_kernel" where
  "sim_write fd bs k =
     (case map_of (sk_fds k) fd of
        Some (S_Event m) \<Rightarrow> (Inr 8, sim_set fd (S_Event (m + unat (hd bs))) (sim_tick k))
      | Some (S_Pipe_W r) \<Rightarrow>
          (case map_of (sk_fds k) r of
             Some (S_Pipe_R m) \<Rightarrow> (Inr (length bs), sim_set r (S_Pipe_R (m + length bs)) (sim_tick k))
           | _ \<Rightarrow> (Inl (Os 32), sim_tick k))
      | _ \<Rightarrow> (Inl (Os 9), sim_tick k))"

definition sim_settime :: "fd \<Rightarrow> itimerspec \<Rightarrow> sim_kernel \<Rightarrow> (io_error + unit) \<times> sim_kernel" where
  "sim_settime fd it k =
     (let d = tv_sec (it_value it) * int NANOS + tv_nsec (it_value it)
      in (Inr (), sim_set fd (S_Timer (if d = 0 then None else Some (sk_now k + d))) (sim_tick k)))"

definition sim_alloc :: "sim_fd \<Rightarrow> sim_kernel \<Rightarrow> (io_error + fd) \<times> sim_kernel" where
  "sim_alloc x k = (Inr (sk_next k), sim_set (sk_next k) x ((sim_tick k)\<lparr>sk_next := sk_next k + 1\<rparr>))"

definition sim_pipe :: "sim_kernel \<Rightarrow> (io_error + fd \<times> fd) \<times> sim_kernel" where
  "sim_pipe k =
     (let r = sk_next k
      in (Inr (r, r + 1), sim_set (r + 1) (S_Pipe_W r) (sim_set r (S_Pipe_R 0) ((sim_tick k)\<lparr>sk_next := r + 2\<rparr>))))"

definition sim_os :: "sim_kernel os" where
  "sim_os = \<lparr>
     sys_read = sim_read, sys_write = sim_write, sys_poll = sim_poll, sys_timerfd_settime = sim_settime,
     sys_now = (\<lambda>k. (sk_now k, k)),
     sys_eventfd = (\<lambda>n _. sim_alloc (S_Event n)),
     sys_pipe = sim_pipe,
     sys_timerfd_create = (\<lambda>_. sim_alloc (S_Timer None)),
     sys_ioctl_fionbio = (\<lambda>_ _ k. (Inr (), k)),
     sys_fcntl_getfl = (\<lambda>_ k. (Inr {O_NONBLOCK}, k)),
     sys_fcntl_setfl = (\<lambda>_ _ k. (Inr (), k))\<rparr>"

lemma sim_poll_counts: "poll_counts sim_os"
  by (auto simp: poll_counts_def sim_os_def sim_poll_def sim_revents_def Let_def split: if_splits)

section \<open>The tests\<close>

text \<open>
  A poller with its notifier and timeout, the kernel, the clock read at the start of a
  measurement, and the descriptors the test makes itself.
\<close>

record po_test =
  po_notifier :: "sim_kernel notifier_fd"
  po_timeout :: "sim_kernel timeout"
  po_poller :: poll_poller
  po_kernel :: sim_kernel
  po_started :: instant
  po_fds :: "fd list"

definition sim_start :: sim_kernel where
  "sim_start = \<lparr>sk_now = test_start, sk_fds = [], sk_next = 3\<rparr>"

text \<open>With a notifier and a timer descriptor in place.\<close>

definition sys_start :: sim_kernel where
  "sys_start = \<lparr>sk_now = test_start, sk_fds = [(3, S_Event 0), (4, S_Timer None)], sk_next = 5\<rparr>"

definition po_new ::
  "(sim_kernel \<Rightarrow> (poll_poller \<times> sim_kernel notifier_fd \<times> sim_kernel timeout) res \<times> sim_kernel) \<Rightarrow> po_test option" where
  "po_new mk = (case mk sim_start of
     (Ok (p, N, T), k) \<Rightarrow> Some \<lparr>po_notifier = N, po_timeout = T, po_poller = p, po_kernel = k, po_started = 0, po_fds = []\<rparr>
   | _ \<Rightarrow> None)"

text \<open>\<open>PollPoller::<EventFd, PollTimeout>::new()\<close>, the third combination the tests use.\<close>

definition PollPoller_new_mixed :: "'k os \<Rightarrow> 'k \<Rightarrow> (poll_poller \<times> 'k notifier_fd \<times> 'k timeout) res \<times> 'k" where
  "PollPoller_new_mixed os k =
     (case EventFd_new os k of
        (Err e, k1) \<Rightarrow> (Err e, k1)
      | (Panic m, k1) \<Rightarrow> (Panic m, k1)
      | (Ok efd, k1) \<Rightarrow> (Ok (\<lparr>pollfds = []\<rparr>, EventFd os efd, PollTimeout), k1))"

definition po_poll ::
  "duration option \<Rightarrow> (fd list \<Rightarrow> (Source \<times> Filter) list) \<Rightarrow>
     ((Source \<times> Filter) list option \<Rightarrow> fd list \<Rightarrow> bool) \<Rightarrow> po_test stmt" where
  "po_poll t srcs P s =
     (case PollPoller_poll sim_os (po_notifier s) (po_timeout s) t (srcs (po_fds s)) (po_poller s) (po_kernel s) of
        (Ok out, p, k) \<Rightarrow> (if P out (po_fds s) then Some (s\<lparr>po_poller := p, po_kernel := k\<rparr>) else None)
      | _ \<Rightarrow> None)"

definition po_wait :: "nat \<Rightarrow> po_test stmt" where
  "po_wait d = po_poll (Some d) (\<lambda>_. []) (\<lambda>_ _. True)"

definition po_clock :: "po_test stmt" where
  "po_clock s = Some (s\<lparr>po_started := sk_now (po_kernel s)\<rparr>)"

definition po_elapsed :: "(int \<Rightarrow> bool) \<Rightarrow> po_test stmt" where
  "po_elapsed P = assert_that (\<lambda>s. P (sk_now (po_kernel s) - po_started s))"

definition po_call :: "(fd list \<Rightarrow> sim_kernel \<Rightarrow> 'a res \<times> sim_kernel) \<Rightarrow> po_test stmt" where
  "po_call f s = (case f (po_fds s) (po_kernel s) of (Ok _, k) \<Rightarrow> Some (s\<lparr>po_kernel := k\<rparr>) | _ \<Rightarrow> None)"

definition test_poll_timeout :: "po_test stmt list" where
  "test_poll_timeout =
     [po_wait 0,
      po_clock, po_wait (millis 10), po_elapsed (\<lambda>d. int (millis 10) \<le> d),
      po_clock, po_wait 10, po_elapsed (\<lambda>d. int (millis 1) \<le> d)]"

definition test_timerfd_timeout :: "po_test stmt list" where
  "test_timerfd_timeout =
     [po_wait 0,
      po_clock, po_wait (millis 10), po_elapsed (\<lambda>d. int (millis 10) \<le> d),
      po_clock, po_wait 10, po_elapsed (\<lambda>d. 10 \<le> d \<and> d < int (millis 1))]"

text \<open>The descriptors of the last test: an event descriptor, a timer descriptor, a pipe.\<close>

definition po_make :: "po_test stmt" where
  "po_make s =
     (case EventFd_new sim_os (po_kernel s) of
        (Ok efd, k1) \<Rightarrow>
          (case TimerFd_new sim_os k1 of
             (Ok tfd, k2) \<Rightarrow>
               (case PipeFd_new Linux_Android sim_os k2 of
                  (Ok (r, w), k3) \<Rightarrow> Some (s\<lparr>po_kernel := k3, po_fds := [efd, tfd, r, w]\<rparr>)
                | _ \<Rightarrow> None)
           | _ \<Rightarrow> None)
      | _ \<Rightarrow> None)"

definition po_events :: "fd list \<Rightarrow> (Source \<times> Filter) list" where
  "po_events fds = map (\<lambda>fd. (fd, Filter_read)) (take 3 fds)"

definition test_clear_notifier_and_timerfd :: "po_test stmt list" where
  "test_clear_notifier_and_timerfd =
     [po_make,
      po_call (\<lambda>fds. EventFd_notify sim_os (fds ! 0)), po_call (\<lambda>fds. PipeFd_notify sim_os (fds ! 2, fds ! 3)),
      po_call (\<lambda>fds. TimerFd_set_timeout sim_os (fds ! 1) (Some 0)),
      po_poll (Some (millis 10)) po_events (\<lambda>out fds. out = Some (po_events fds)),
      po_call (\<lambda>fds. EventFd_clear sim_os (fds ! 0)), po_call (\<lambda>fds. PipeFd_clear sim_os (fds ! 2, fds ! 3)),
      po_call (\<lambda>fds. TimerFd_set_timeout sim_os (fds ! 1) None),
      po_poll (Some (millis 10)) po_events (\<lambda>out fds. out = None),
      po_call (\<lambda>fds. EventFd_clear sim_os (fds ! 0)), po_call (\<lambda>fds. PipeFd_clear sim_os (fds ! 2, fds ! 3))]"

definition passes_new :: "po_test stmt list \<Rightarrow> po_test option \<Rightarrow> bool" where
  "passes_new cs s = (case s of None \<Rightarrow> False | Some s \<Rightarrow> passes cs s)"

lemmas po_eval = passes_new_def passes_def assert_that_def po_new_def po_poll_def po_wait_def po_clock_def po_elapsed_def
  po_call_def po_make_def po_events_def sim_start_def sim_os_def sim_set_def sim_tick_def sim_ready_def
  sim_revents_def sim_timers_def sim_poll_def sim_read_def sim_write_def sim_settime_def sim_alloc_def sim_pipe_def
  PollPoller_new_def PollPoller_new_portable_def PollPoller_new_mixed_def EventFd_new_def EventFd_def
  EventFd_notify_def EventFd_clear_def PipeFd_new_def PipeFd_def PipeFd_notify_def PipeFd_clear_def
  set_nonblocking_def set_nonblocking_fcntl_def TimerFd_new_def TimerFd_def TimerFd_set_timeout_def
  TimerFd_itimerspec_def PollTimeout_def PollTimeout_set_timeout_def PollTimeout_millis_def i32_MAX_def i64_MAX_def
  PollPoller_poll_def source_pollfds_def internal_pollfds_def PollFd_from_def Filter_pollflags_def set_revents_def
  poll_outcome_def ready_fd_def pollfd_event_def Filter_of_revents_def read_flags_def write_flags_def
  Filter_read_def test_start_def millis_def NANOS_def MILLI_def Let_def map_filter_simps

text \<open>
  The poller's tests hold of the model on the simulated kernel, for the combinations of
  notifier and timeout they are written for: both timeouts last as long as asked, \<open>poll\<close>'s
  being rounded up to a millisecond and the timer descriptor's not; descriptors that have been
  notified or have expired are reported in the order given, and none after they were cleared.
\<close>

lemma poller_tests_pass:
  "passes_new test_poll_timeout (po_new (PollPoller_new_portable sim_os))
   \<and> passes_new test_timerfd_timeout (po_new (PollPoller_new sim_os))
   \<and> passes_new test_clear_notifier_and_timerfd (po_new (PollPoller_new_mixed sim_os))"
proof (intro conjI)
  show "passes_new test_poll_timeout (po_new (PollPoller_new_portable sim_os))"
    by (simp add: test_poll_timeout_def po_eval)
  show "passes_new test_timerfd_timeout (po_new (PollPoller_new sim_os))"
    by (simp add: test_timerfd_timeout_def po_eval)
  show "passes_new test_clear_notifier_and_timerfd (po_new (PollPoller_new_mixed sim_os))"
    by (simp add: test_clear_notifier_and_timerfd_def po_eval)
qed

end
