(* ===== verification/Thread_Tests.thy ===== *)
theory Thread_Tests
  imports Poller_Tests Reactor_Spec
begin

text \<open>
  The unit tests of \<open>src/src/reactor/unix.rs\<close> that start a second thread. The simulated kernel is
  extended by the threads that sleep: a \<open>poll\<close> that would block for good lets the clock run to
  the first thread's wake-up, and that thread to its end.
\<close>

section \<open>Sleeping threads\<close>

text \<open>A thread: when it wakes up and what it does then; a failed \<open>unwrap\<close> ends it with a panic.\<close>

record threads =
  ths_asleep :: "(instant \<times> (sim_kernel \<Rightarrow> unit res \<times> sim_kernel)) list"
  ths_panicked :: bool

type_synonym thr_kernel = "(sim_kernel, threads) rkernel"

definition thr_run :: "thr_kernel \<Rightarrow> thr_kernel" where
  "thr_run = (\<lambda>(k, ts).
     (case ths_asleep ts of
        [] \<Rightarrow> (k, ts)
      | (t, act) # rest \<Rightarrow>
          (let (r, k1) = act (k\<lparr>sk_now := max t (sk_now k)\<rparr>)
           in (k1, \<lparr>ths_asleep = rest, ths_panicked = ths_panicked ts \<or> r \<noteq> Ok ()\<rparr>))))"

definition thr_poll ::
  "(fd \<times> pollflag set) list \<Rightarrow> int \<Rightarrow> thr_kernel \<Rightarrow> (io_error + nat \<times> pollflag set list) \<times> thr_kernel" where
  "thr_poll fds ms k =
     (case lift_call (sim_poll fds ms) k of
        (Inr (n, rs), k1) \<Rightarrow>
          (if n = 0 \<and> ms < 0 then lift_call (sim_poll fds ms) (thr_run k1) else (Inr (n, rs), k1))
      | (Inl e, k1) \<Rightarrow> (Inl e, k1))"

definition thr_os :: "thr_kernel os" where
  "thr_os = (lift_os sim_os)\<lparr>sys_poll := thr_poll\<rparr>"

section \<open>The tests\<close>

text \<open>The poller with its two notifiers: the one it keeps and the copy that \<open>new\<close> returns.\<close>

record th_test =
  tt_notifier :: "thr_kernel notifier_fd"
  tt_thread_notify :: "sim_kernel \<Rightarrow> unit res \<times> sim_kernel"
  tt_timeout :: "thr_kernel timeout"
  tt_poller :: poll_poller
  tt_kernel :: thr_kernel

definition th_new ::
  "(thr_kernel \<Rightarrow> (poll_poller \<times> thr_kernel notifier_fd \<times> thr_kernel timeout) res \<times> thr_kernel) \<Rightarrow>
     (sim_kernel \<Rightarrow> (poll_poller \<times> sim_kernel notifier_fd \<times> sim_kernel timeout) res \<times> sim_kernel) \<Rightarrow> th_test option" where
  "th_new mk mk' =
     (case (mk (sim_start, \<lparr>ths_asleep = [], ths_panicked = False\<rparr>), mk' sim_start) of
        ((Ok (p, N, T), k), (Ok (_, N', _), _)) \<Rightarrow>
          Some \<lparr>tt_notifier = N, tt_thread_notify = nf_notify N', tt_timeout = T, tt_poller = p, tt_kernel = k\<rparr>
      | _ \<Rightarrow> None)"

definition th_spawn :: "th_test stmt" where
  "th_spawn s =
     (let (k, ts) = tt_kernel s
      in Some (s\<lparr>tt_kernel := (k, ts\<lparr>ths_asleep := ths_asleep ts @ [(sk_now k + int (millis 10), tt_thread_notify s)]\<rparr>)\<rparr>))"

definition th_wait :: "th_test stmt" where
  "th_wait s =
     (case PollPoller_poll thr_os (tt_notifier s) (tt_timeout s) None [] (tt_poller s) (tt_kernel s) of
        (Ok _, p, k) \<Rightarrow> Some (s\<lparr>tt_poller := p, tt_kernel := k\<rparr>) | _ \<Rightarrow> None)"

text \<open>The end of \<open>thread::scope\<close>: every thread has ended without a panic. The wait came back before
  its time if one had not.\<close>

definition th_join :: "th_test stmt" where
  "th_join = assert_that (\<lambda>s. ths_asleep (snd (tt_kernel s)) = [] \<and> \<not> ths_panicked (snd (tt_kernel s)))"

definition th_notify :: "th_test stmt" where
  "th_notify s = (case nf_notify (tt_notifier s) (tt_kernel s) of (Ok _, k) \<Rightarrow> Some (s\<lparr>tt_kernel := k\<rparr>) | _ \<Rightarrow> None)"

definition test_eventfd_notification :: "th_test stmt list" where
  "test_eventfd_notification = [th_spawn, th_wait, th_join, th_notify, th_wait]"

definition test_pipe_notification :: "th_test stmt list" where
  "test_pipe_notification = [th_spawn, th_wait, th_join, th_notify, th_wait]"

definition passes_thread :: "th_test stmt list \<Rightarrow> th_test option \<Rightarrow> bool" where
  "passes_thread cs s = (case s of None \<Rightarrow> False | Some s \<Rightarrow> passes cs s)"

lemmas th_eval = passes_thread_def th_new_def th_spawn_def th_wait_def th_join_def th_notify_def thr_os_def thr_poll_def
  thr_run_def lift_os_def lift_call_def

lemma thread_tests_pass:
  "passes_thread test_eventfd_notification (th_new (PollPoller_new_mixed thr_os) (PollPoller_new_mixed sim_os))
   \<and> passes_thread test_pipe_notification (th_new (PollPoller_new_portable thr_os) (PollPoller_new_portable sim_os))"
  by (simp add: test_eventfd_notification_def test_pipe_notification_def th_eval po_eval)

end
