(* ===== verification/Executor_Tests.thy ===== *)
theory Executor_Tests
  imports Reactor_Tests Executor_Run Concurrency
begin

text \<open>
  The unit tests of \<open>src/src/lib.rs\<close> and \<open>src/src/concurrency.rs\<close> on the model: those of the
  executor's parts, of the wake queue and of the flag waker. \<open>AtomicWaker\<close>, \<open>ConcurrentQueue\<close>
  and \<open>Slab\<close> are the concrete instances that satisfy their documented laws.
\<close>

section \<open>The executor\<close>

text \<open>
  The futures of the tests: 0 is \<open>pending()\<close>, 1 an empty async block, 2 counts its polls and
  wakes its task three times. The counter is the world outside the executor.
\<close>

definition tests_poll :: "nat \<Rightarrow> nat \<Rightarrow> (nat, unit, nat, nat) prog" where
  "tests_poll n f =
     (if f = 0 then Yield 0 Pending
      else if f = 1 then Yield 1 (Ready ())
      else Do (Ext (\<lambda>x. (0, x + 1))) (\<lambda>_. Do (Wake (TaskW n)) (\<lambda>_. Do (Wake (TaskW n))
             (\<lambda>_. Do (Wake (TaskW n)) (\<lambda>_. Yield 2 Pending)))))"

definition tests_env :: "(nat, unit, nat option, nat, usize list, nat) env" where
  "tests_env = \<lparr>en_aw = cell_waker, en_cq = list_queue, en_slab = lowest_vacant, en_poll = tests_poll\<rparr>"

text \<open>The executor and the handle of the task spawned last.\<close>

record ex_test =
  xt_ex :: "(nat, unit, nat option, nat, usize list, nat) executor"
  xt_task :: task_handle

definition ex_start :: ex_test where
  "ex_start = \<lparr>xt_ex = Executor_new tests_env 0 0, xt_task = \<lparr>th_ret = 0, th_handle = 0\<rparr>\<rparr>"

definition ex_spawn :: "nat \<Rightarrow> ex_test stmt" where
  "ex_spawn f s = (case Executor_spawn f (xt_ex s) of
     (Ok h, ex) \<Rightarrow> Some \<lparr>xt_ex = ex, xt_task = h\<rparr> | _ \<Rightarrow> None)"

definition ex_poll_tasks :: "ex_test stmt" where
  "ex_poll_tasks s = (case poll_tasks tests_env 0 (xt_ex s) of
     (Ok _, ex) \<Rightarrow> Some (s\<lparr>xt_ex := ex\<rparr>) | _ \<Rightarrow> None)"

definition ex_poll_spawned :: "ex_test stmt" where
  "ex_poll_spawned s = (case poll_spawned tests_env 0 (xt_ex s) of
     (Ok _, ex) \<Rightarrow> Some (s\<lparr>xt_ex := ex\<rparr>) | _ \<Rightarrow> None)"

definition ex_cancel :: "ex_test stmt" where
  "ex_cancel s = Some (s\<lparr>xt_ex := TaskHandle_cancel tests_env 0 (xt_task s) (xt_ex s)\<rparr>)"

definition ex_register_waker :: "nat \<Rightarrow> ex_test stmt" where
  "ex_register_waker w s = Some (s\<lparr>xt_ex := register_base_waker tests_env w (xt_ex s)\<rparr>)"

definition tasks_len_is :: "nat \<Rightarrow> ex_test stmt" where
  "tasks_len_is n = assert_that (\<lambda>s. card (dom (ex_tasks (xt_ex s))) = n)"

definition local_len_is :: "nat \<Rightarrow> ex_test stmt" where
  "local_len_is n = assert_that (\<lambda>s. length (wq_local (ex_queue (xt_ex s))) = n)"

definition cancelled_is :: "bool \<Rightarrow> ex_test stmt" where
  "cancelled_is b = assert_that (\<lambda>s. TaskHandle_is_cancelled (xt_task s) (xt_ex s) = b)"

definition test_spawn_and_poll :: "ex_test stmt list" where
  "test_spawn_and_poll =
     [tasks_len_is 0, ex_spawn 0, ex_spawn 0, ex_spawn 0, ex_poll_tasks, ex_poll_spawned, tasks_len_is 3,
      ex_spawn 1, ex_spawn 1, ex_poll_tasks, ex_poll_spawned, tasks_len_is 3]"

definition test_task_waker :: "ex_test stmt list" where
  "test_task_waker =
     [ex_register_waker 7, ex_spawn 2,
      ex_poll_spawned, local_len_is 1,
      assert_that (\<lambda>s. 7 \<in> set (base_log (wq_base (ex_queue (xt_ex s))))),
      ex_poll_tasks, local_len_is 1,
      assert_that (\<lambda>s. ex_world (xt_ex s) = 2)]"

definition test_cancel_task :: "ex_test stmt list" where
  "test_cancel_task =
     [tasks_len_is 0, ex_spawn 0, ex_cancel, cancelled_is True, ex_poll_tasks, ex_poll_spawned, tasks_len_is 0,
      ex_spawn 0, cancelled_is False, ex_poll_tasks, ex_poll_spawned, tasks_len_is 1,
      ex_cancel, ex_poll_tasks, ex_poll_spawned, tasks_len_is 0]"

section \<open>The wake queue\<close>

text \<open>The queue, on thread 0, and the elements drained from it; threads 1 to 10 push in turn.\<close>

type_synonym wq_test = "(nat option, nat, usize list) wake_queue \<times> usize list"

definition wq_start :: wq_test where
  "wq_start = (WakeQueue_with_capacity cell_waker list_queue 0, [])"

definition wq_push :: "thread_id \<Rightarrow> usize \<Rightarrow> wq_test stmt" where
  "wq_push th v = (\<lambda>(q, es). Some (WakeQueue_push list_queue th v q, es))"

definition wq_drain :: "wq_test stmt" where
  "wq_drain s =
     (case WakeQueue_drain_for_each list_queue fst (\<lambda>q s. (q, snd s)) 0 (\<lambda>e (q, es). (Ok (), q, es @ [e])) s of
        (Ok _, s1) \<Rightarrow> Some s1 | _ \<Rightarrow> None)"

definition wq_reset :: "usize \<Rightarrow> wq_test stmt" where
  "wq_reset v = (\<lambda>(q, es). map_option (\<lambda>q1. (q1, [])) (WakeQueue_reset list_queue 0 v q))"

definition wq_lens_are :: "nat \<Rightarrow> nat \<Rightarrow> wq_test stmt" where
  "wq_lens_are c l = assert_that (\<lambda>(q, es). cq_len list_queue (wq_con q) = c \<and> length (wq_local q) = l)"

definition test_wake_queue :: "wq_test stmt list" where
  "test_wake_queue =
     [wq_push 0 12, wq_push 0 13] @ map (\<lambda>i. wq_push (Suc i) (of_nat i)) [0..<10] @
     [wq_lens_are 10 2, wq_drain, assert_that (\<lambda>(q, es). sort es = [0, 1, 2, 3, 4, 5, 6, 7, 8, 9, 12, 13]),
      wq_push 0 12, wq_push 0 13, wq_reset 6, wq_lens_are 0 1, wq_drain, assert_that (\<lambda>(q, es). es = [6])]"

section \<open>The flag waker\<close>

type_synonym fw_test = "(nat option, nat, unit) flag_wakers"

definition fw_start :: fw_test where
  "fw_start = FlagWaker_waker_pairs cell_waker () 1"

definition fw_check :: "fw_test stmt" where
  "fw_check s = (let (b, s1) = FlagWaker_check_awoken 0 s in if b then Some s1 else None)"

definition fw_register :: "nat \<Rightarrow> fw_test stmt" where
  "fw_register w s = Some (s\<lparr>fw_base := base_register cell_waker w (fw_base s)\<rparr>)"

definition fw_wake :: "fw_test stmt" where
  "fw_wake s = Some (FlagWaker_wake cell_waker 0 s)"

definition test_flag_waker_multiple_wakers :: "fw_test stmt list" where
  "test_flag_waker_multiple_wakers =
     concat (map (\<lambda>w. [fw_check, assert_that (\<lambda>s. \<not> fw_awoken s ! 0), fw_register w, fw_wake,
        assert_that (\<lambda>s. w \<in> set (base_log (fw_base s)))]) [1, 2])"

lemmas xt_eval = passes_def assert_that_def ex_start_def ex_spawn_def ex_poll_tasks_def ex_poll_spawned_def
  ex_cancel_def ex_register_waker_def tasks_len_is_def local_len_is_def cancelled_is_def tests_env_def tests_poll_def
  TaskHandle_is_cancelled_def exec_eval MAIN_TASK_ID_def

text \<open>
  The unit tests of the executor, of the wake queue and of the flag waker hold of the model:
  tasks that are pending stay, tasks that complete or are cancelled go, repeated wakes of a
  task queue it once and call the base waker, pushes from any thread are drained, a reset
  leaves one element, and a flag waker calls the waker registered last.
\<close>

lemma executor_tests_pass:
  "passes test_spawn_and_poll ex_start \<and> passes test_task_waker ex_start \<and> passes test_cancel_task ex_start
   \<and> passes test_wake_queue wq_start \<and> passes test_flag_waker_multiple_wakers fw_start"
proof (intro conjI)
  show "passes test_spawn_and_poll ex_start" by (simp add: test_spawn_and_poll_def xt_eval)
  show "passes test_task_waker ex_start" by (simp add: test_task_waker_def xt_eval)
  show "passes test_cancel_task ex_start" by (simp add: test_cancel_task_def xt_eval)
  show "passes test_wake_queue wq_start" by code_simp
  show "passes test_flag_waker_multiple_wakers fw_start" by code_simp
qed

end
