(* ===== verification/System_Tests.thy ===== *)
theory System_Tests
  imports Executor_Tests Poller_Tests Reactor_Spec Async_IO
begin

text \<open>
  The unit tests of \<open>src/src/io.rs\<close> and \<open>src/src/lib.rs\<close> that run several components together:
  I/O objects or timers, the reactor with the Unix poller on the simulated kernel, and the
  executor or a join whose wakers the reactor calls.
\<close>

section \<open>The thread's reactor\<close>

text \<open>The notifier is descriptor 3 and the timer descriptor 4; the wakers called are written down.\<close>

type_synonym 'w sys_kernel = "(sim_kernel, 'w list) rkernel"

abbreviation sys_notifier :: "'w sys_kernel notifier_fd" where
  "sys_notifier \<equiv> EventFd (lift_os sim_os) 3"

abbreviation sys_poller :: "(poll_poller, 'w sys_kernel) event_poller" where
  "sys_poller \<equiv> PollPoller (lift_os sim_os) sys_notifier (TimerFd (lift_os sim_os) 4)"

text \<open>\<open>REACTOR.with(|r| r.wait()).unwrap()\<close>, with the wakers it calls.\<close>

definition sys_wait ::
  "(poll_poller, 'w) reactor \<Rightarrow> sim_kernel \<Rightarrow> ('w list \<times> (poll_poller, 'w) reactor \<times> sim_kernel) option" where
  "sys_wait r k =
     (case Reactor_wait sys_poller (lift_os sim_os) sys_notifier log_wake r
             \<lparr>kernel = (k, []), is_notified = False\<rparr> of
        (Ok _, r', n) \<Rightarrow> Some (snd (kernel n), r', fst (kernel n))
      | _ \<Rightarrow> None)"

section \<open>I/O objects\<close>

text \<open>The wrapped objects are descriptors; \<open>it_pipe\<close> is the test's reader and writer.\<close>

record io_test =
  it_reactor :: "(poll_poller, nat) reactor"
  it_kernel :: sim_kernel
  it_woken :: "nat list"
  it_obj :: "fd async option"
  it_pipe :: "fd async \<times> fd async"
  it_future :: wait_event

definition fd_handle :: "(fd, sim_kernel) io_handle" where
  "fd_handle = \<lparr>h_as_fd = (\<lambda>fd. fd), h_drop = (\<lambda>_ k. k)\<rparr>"

abbreviation it_poller :: "(poll_poller, sim_kernel) event_poller" where
  "it_poller \<equiv> PollPoller sim_os (EventFd sim_os 3) (TimerFd sim_os 4)"

definition it_start :: io_test where
  "it_start = \<lparr>it_reactor = Reactor_new \<lparr>pollfds = []\<rparr>, it_kernel = sys_start, it_woken = [], it_obj = None,
     it_pipe = (\<lparr>as_source = 0, as_inner = 0\<rparr>, \<lparr>as_source = 0, as_inner = 0\<rparr>), it_future = First_Call\<rparr>"

definition it_empty :: "bool \<Rightarrow> io_test stmt" where
  "it_empty b = assert_that (\<lambda>s. Reactor_is_empty (it_reactor s) = b)"

text \<open>\<open>Async::without_nonblocking(stderr())\<close>.\<close>

definition it_wrap_stderr :: "io_test stmt" where
  "it_wrap_stderr s =
     (case Async_without_nonblocking it_poller fd_handle 2 (it_reactor s) (it_kernel s) of
        (Ok a, r, k) \<Rightarrow> Some (s\<lparr>it_obj := Some a, it_reactor := r, it_kernel := k\<rparr>) | _ \<Rightarrow> None)"

definition it_drop :: "io_test stmt" where
  "it_drop s = Option.bind (it_obj s) (\<lambda>a.
     case Async_drop it_poller fd_handle a (it_reactor s) (it_kernel s) of
       (Ok _, r, k) \<Rightarrow> Some (s\<lparr>it_obj := None, it_reactor := r, it_kernel := k\<rparr>) | _ \<Rightarrow> None)"

definition it_into_inner :: "io_test stmt" where
  "it_into_inner s = Option.bind (it_obj s) (\<lambda>a.
     case Async_into_inner it_poller fd_handle a (it_reactor s) (it_kernel s) of
       (Ok _, r, k) \<Rightarrow> Some (s\<lparr>it_obj := None, it_reactor := r, it_kernel := k\<rparr>) | _ \<Rightarrow> None)"

definition it_make_pipe :: "io_test stmt" where
  "it_make_pipe s =
     (case sim_pipe (it_kernel s) of
        (Inr (rd, wr), k0) \<Rightarrow>
          (case Async_new Linux_Android sim_os it_poller fd_handle rd (it_reactor s) k0 of
             (Ok a, r1, k1) \<Rightarrow>
               (case Async_new Linux_Android sim_os it_poller fd_handle wr r1 k1 of
                  (Ok b, r2, k2) \<Rightarrow> Some (s\<lparr>it_pipe := (a, b), it_reactor := r2, it_kernel := k2\<rparr>)
                | _ \<Rightarrow> None)
           | _ \<Rightarrow> None)
      | _ \<Rightarrow> None)"

text \<open>A poll of the future of \<open>writable()\<close> or \<open>readable()\<close>; a new future starts at \<open>First_Call\<close>.\<close>

definition it_new_future :: "io_test stmt" where
  "it_new_future s = Some (s\<lparr>it_future := First_Call\<rparr>)"

definition it_writable :: "bool \<Rightarrow> nat \<Rightarrow> io_test stmt" where
  "it_writable ready w s =
     (let (p, st, r) = Async_writable it_poller (snd (it_pipe s)) w (it_future s) (it_reactor s)
      in if is_ready p = ready then Some (s\<lparr>it_future := st, it_reactor := r\<rparr>) else None)"

definition it_readable :: "bool \<Rightarrow> nat \<Rightarrow> io_test stmt" where
  "it_readable ready w s =
     (let (p, st, r) = Async_readable it_poller (fst (it_pipe s)) w (it_future s) (it_reactor s)
      in if is_ready p = ready then Some (s\<lparr>it_future := st, it_reactor := r\<rparr>) else None)"

definition it_write_byte :: "nat \<Rightarrow> io_test stmt" where
  "it_write_byte w s =
     (let (p, r, k) = poll_write_with it_poller w (kernel_fn (\<lambda>fd. sim_write fd [0])) (snd (it_pipe s))
            (it_reactor s) (it_kernel s)
      in if is_ready p then Some (s\<lparr>it_reactor := r, it_kernel := k\<rparr>) else None)"

definition it_wait :: "io_test stmt" where
  "it_wait s = map_option (\<lambda>(ws, r, k). s\<lparr>it_reactor := r, it_kernel := k, it_woken := it_woken s @ ws\<rparr>)
     (sys_wait (it_reactor s) (it_kernel s))"

definition it_woken_by :: "nat \<Rightarrow> io_test stmt" where
  "it_woken_by w = assert_that (\<lambda>s. w \<in> set (it_woken s))"

definition test_deregister_on_drop :: "io_test stmt list" where
  "test_deregister_on_drop = [it_wrap_stderr, it_empty False, it_drop, it_empty True]"

definition test_deregister_into_inner :: "io_test stmt list" where
  "test_deregister_into_inner = [it_wrap_stderr, it_empty False, it_into_inner, it_empty True]"

definition test_writable_readable :: "io_test stmt list" where
  "test_writable_readable =
     [it_make_pipe, it_new_future, it_writable False 1, it_wait, it_woken_by 1, it_writable True 1,
      it_new_future, it_readable False 2, it_write_byte 1, it_wait, it_woken_by 2, it_readable True 2]"

lemmas it_eval = passes_def assert_that_def it_start_def it_empty_def it_wrap_stderr_def it_drop_def it_into_inner_def
  it_make_pipe_def it_new_future_def it_writable_def it_readable_def it_write_byte_def it_wait_def it_woken_by_def
  fd_handle_def sys_wait_def sys_start_def Async_without_nonblocking_def Async_new_def Async_drop_def
  Async_into_inner_def GuardedSource_drop_def Async_writable_def Async_readable_def wait_for_event_ready_def
  enable_pending_def poll_write_with_def poll_event_def kernel_fn_def Reactor_is_empty_def TimerQueue_is_empty_def
  Reactor_deregister_event_def PollPoller_deregister_def bt_remove_def bt_del_def Reactor_new_def

lemmas wait_eval = Reactor_register_event_def PollPoller_def PollPoller_register_def
  bt_insert_def bt_put_def Reactor_enable_event_def PollPoller_modify_def Reactor_wait_def
  lift_os_def lift_call_def WithFlag_set_to_notified_def Reactor_interests_def EventData_filter_def
  EventData_default_def Wakeup_default_def Wakeup_enable_def dir_enable_def
  event_fire_def Wakeup_wake_def log_wake_def wait_finish_def TimerQueue_clear_expired_def TimerQueue_next_timeout_def
  TimerQueue_new_def bt_first_def Reactor_clear_notifications_def WithFlag_clear_def Reactor_is_event_ready_def dir_of_def

lemma io_tests_pass:
  "passes test_deregister_on_drop it_start" "passes test_deregister_into_inner it_start"
  "passes test_writable_readable it_start"
  by (simp_all add: test_deregister_on_drop_def test_deregister_into_inner_def test_writable_readable_def
      it_eval wait_eval po_eval)


section \<open>Switching the waker of a join\<close>

text \<open>
  The two timers of the join; what they share is the reactor, whose wakers are the numbers of
  the flag wakers, and the kernel.
\<close>

type_synonym join_world = "(poll_poller, nat) reactor \<times> sim_kernel"

type_synonym join_test = "(timer, instant, nat option, nat, join_world) join_block \<times> join_world"

definition timer_inner :: "(timer, join_world, instant) inner_poll" where
  "timer_inner i t x =
     (case Timer_poll sim_os i t (fst x) (snd x) of
        Some (p, t', r, k) \<Rightarrow> ([], t', (r, k), p)
      | None \<Rightarrow> ([], t, x, Pending))"

definition jt_sleep :: "duration \<Rightarrow> join_world \<Rightarrow> timer \<times> join_world" where
  "jt_sleep d = (\<lambda>(r, k). case sleep sim_os d k of (Ok t, k') \<Rightarrow> (t, r, k') | (_, k') \<Rightarrow> (Timer_at 0, r, k'))"

definition jt_start :: join_test where
  "jt_start = (Join_Start [jt_sleep (millis 50), jt_sleep (millis 100)], Reactor_new \<lparr>pollfds = []\<rparr>, sys_start)"

definition jt_poll :: "nat \<Rightarrow> join_test stmt" where
  "jt_poll cx = (\<lambda>(b, x). case join_macro_poll cell_waker timer_inner cx b x of
     (Ok Pending, b', x') \<Rightarrow> Some (b', x') | _ \<Rightarrow> None)"

text \<open>The flag wakers that the reactor calls belong to the future that the block awaits.\<close>

definition jt_wait :: "join_test stmt" where
  "jt_wait = (\<lambda>(b, r, k). case b of
     Join_Await j \<Rightarrow> map_option (\<lambda>(ws, x).
        (Join_Await (j\<lparr>jf_wakers := fold (FlagWaker_wake cell_waker) ws (jf_wakers j)\<rparr>), x)) (sys_wait r k)
   | _ \<Rightarrow> None)"

definition jt_woken :: "nat \<Rightarrow> join_test stmt" where
  "jt_woken cx = assert_that (\<lambda>(b, x). case b of
     Join_Await j \<Rightarrow> cx \<in> set (base_log (fw_base (jf_wakers j))) | _ \<Rightarrow> False)"

definition test_switch_waker_join :: "join_test stmt list" where
  "test_switch_waker_join = [jt_poll 1, jt_wait, jt_woken 1, jt_poll 2, jt_wait, jt_woken 2]"

lemmas timer_eval = sleep_def Timer_delay_def Timer_at_def Timer_poll_def Timer_poll_at_def Timer_register_def
  cancel_taken_def Reactor_register_timer_def Reactor_modify_timer_def Reactor_cancel_timer_def TimerQueue_modify_def
  TimerQueue_cancel_def instant_add_def INSTANT_MAX_def register_free Id_overflowing_incr_def usize_checked_add_def
  saturating_duration_since_def less_prod_def less_Id_rs_def

lemmas jt_eval = passes_def assert_that_def jt_sleep_def join_macro_poll_def join_await_def jt_start_def jt_poll_def jt_wait_def jt_woken_def timer_inner_def
  JoinFuture_new_def JoinFuture_poll_def poll_join_def poll_join_slot_def poll_inner_def FlagWaker_waker_pairs_def
  FlagWaker_check_awoken_def FlagWaker_set_awoken_def FlagWaker_wake_def base_register_def base_wake_def cell_waker_def
  sys_wait_def sys_start_def Reactor_new_def bt_remove_def bt_del_def upt_rec

lemma switch_waker_join_passes: "passes test_switch_waker_join jt_start"
  by (simp add: test_switch_waker_join_def jt_eval timer_eval wait_eval po_eval)


section \<open>Switching the waker of an executor\<close>

text \<open>
  What the futures use outside the executor: the reactor, the kernel, and the two timers, that
  of the background task first.
\<close>

type_synonym sw_world = "(poll_poller, nat any_waker) reactor \<times> sim_kernel \<times> timer list"

definition sw_sleep :: "nat \<Rightarrow> duration \<Rightarrow> sw_world \<Rightarrow> nat \<times> sw_world" where
  "sw_sleep j d = (\<lambda>(r, k, ts). case sleep sim_os d k of
     (Ok t, k') \<Rightarrow> (0, r, k', ts[j := t]) | (_, k') \<Rightarrow> (0, r, k', ts))"

definition sw_timer :: "nat \<Rightarrow> nat \<Rightarrow> sw_world \<Rightarrow> nat \<times> sw_world" where
  "sw_timer j n = (\<lambda>(r, k, ts). case Timer_poll sim_os (TaskW n) (ts ! j) r k of
     Some (p, t, r', k') \<Rightarrow> (if is_ready p then 1 else 0, r', k', ts[j := t]) | None \<Rightarrow> (0, r, k, ts))"

text \<open>
  The futures: the main future at its start (0), in its \<open>sleep\<close> (1) and in \<open>pending()\<close> (2), and
  the background task (3).
\<close>

definition sw_poll :: "nat \<Rightarrow> nat \<Rightarrow> (nat, unit, nat, sw_world) prog" where
  "sw_poll n f =
     (let main = Do (Ext (sw_timer 1 n)) (\<lambda>rep. if rep = RExt 1 then Yield 2 Pending else Yield 1 Pending)
      in if f = 0 then Do (Ext (sw_sleep 0 (millis 100))) (\<lambda>_. Do (Spawn 3) (\<lambda>_. Do (Ext (sw_sleep 1 (millis 50))) (\<lambda>_. main)))
         else if f = 1 then main
         else if f = 2 then Yield 2 Pending
         else Do (Ext (sw_timer 0 n)) (\<lambda>rep. if rep = RExt 1 then Yield 3 (Ready ()) else Yield 3 Pending))"

definition sw_env :: "(nat, unit, nat option, nat, usize list, sw_world) env" where
  "sw_env = \<lparr>en_aw = cell_waker, en_cq = list_queue, en_slab = lowest_vacant, en_poll = sw_poll\<rparr>"

type_synonym sw_test = "nat run_state \<times> (nat, unit, nat option, nat, usize list, sw_world) executor"

definition sw_start :: sw_test where
  "sw_start = (RunStart 0,
     Executor_new sw_env 0 (Reactor_new \<lparr>pollfds = []\<rparr>, sys_start, [Timer_at 0, Timer_at 0]))"

definition sw_run :: "nat \<Rightarrow> sw_test stmt" where
  "sw_run cx = (\<lambda>(rs, ex). case Executor_run_poll sw_env 0 cx rs ex of
     Some (Ok Pending, rs', ex') \<Rightarrow> Some (rs', ex') | _ \<Rightarrow> None)"

definition sw_wait :: "sw_test stmt" where
  "sw_wait = (\<lambda>(rs, ex). let (r, k, ts) = ex_world ex
     in map_option (\<lambda>(ws, r', k'). (rs, fold (any_wake sw_env 0) ws (ex\<lparr>ex_world := (r', k', ts)\<rparr>))) (sys_wait r k))"

definition sw_woken :: "nat \<Rightarrow> sw_test stmt" where
  "sw_woken cx = assert_that (\<lambda>(rs, ex). cx \<in> set (base_log (wq_base (ex_queue ex))))"

definition test_switch_waker :: "sw_test stmt list" where
  "test_switch_waker = [sw_run 1, sw_wait, sw_woken 1, sw_run 2, sw_wait, sw_woken 2]"

lemmas sw_eval = passes_def assert_that_def sw_sleep_def sw_timer_def sw_poll_def sw_env_def sw_start_def sw_run_def
  sw_wait_def sw_woken_def sys_wait_def sys_start_def Reactor_new_def bt_remove_def bt_del_def exec_eval MAIN_TASK_ID_def

lemma switch_waker_passes: "passes test_switch_waker sw_start"
  by (simp add: test_switch_waker_def sw_eval timer_eval wait_eval po_eval)

text \<open>
  An I/O object registers itself and deregisters when it is dropped or taken apart; the futures
  of \<open>writable\<close> and \<open>readable\<close> are woken by the reactor and complete then; and when an executor,
  or a join, has been polled with a second waker, the next timer to expire calls that waker,
  although the future that waits for the timer has not been polled since.
\<close>

lemmas system_tests_pass = io_tests_pass switch_waker_passes switch_waker_join_passes

end
