(* ===== verification/Tcp_Tests.thy ===== *)
theory Tcp_Tests
  imports System_Tests Async_Net Wake_Protocol
begin

text \<open>
  The unit test \<open>tcp\<close> of \<open>src/src/io.rs\<close>: a listener and two connections to it on one thread, with
  \<open>block_on\<close> in between, on the simulated kernel with a loopback network.
\<close>

section \<open>The loopback network\<close>

text \<open>The port of a listener is its descriptor. A connection is made at once, and \<open>connect\<close> on a
  socket that does not block says that it is in progress.\<close>

definition sim_addr :: "fd \<Rightarrow> sock_addr" where
  "sim_addr fd = V4 0x7F000001 (word_of_int fd)"

definition sim_connect :: "fd \<Rightarrow> sock_addr \<Rightarrow> sim_kernel \<Rightarrow> (io_error + unit) \<times> sim_kernel" where
  "sim_connect fd addr k =
     (case addr of
        V4 _ port \<Rightarrow>
          (case map_of (sk_fds k) (uint port) of
             Some (S_Listen n) \<Rightarrow>
               (Inl InProgress, sim_set (uint port) (S_Listen (n + 1)) (sim_set fd (S_Stream True) (sim_tick k)))
           | _ \<Rightarrow> (Inl (Os 111), sim_tick k))
      | V6 _ _ \<Rightarrow> (Inl (Os 101), sim_tick k))"

definition sim_accept :: "fd \<Rightarrow> sim_kernel \<Rightarrow> (io_error + fd \<times> sock_addr) \<times> sim_kernel" where
  "sim_accept fd k =
     (case map_of (sk_fds k) fd of
        Some (S_Listen n) \<Rightarrow>
          (if n = 0 then (Inl WouldBlock, sim_tick k)
           else (Inr (sk_next k, sim_addr (sk_next k)),
                 sim_set (sk_next k) (S_Stream True) (sim_set fd (S_Listen (n - 1)) ((sim_tick k)\<lparr>sk_next := sk_next k + 1\<rparr>))))
      | _ \<Rightarrow> (Inl (Os 22), sim_tick k))"

definition sim_peer_addr :: "fd \<Rightarrow> sim_kernel \<Rightarrow> (io_error + sock_addr) \<times> sim_kernel" where
  "sim_peer_addr fd k =
     (case map_of (sk_fds k) fd of
        Some (S_Stream True) \<Rightarrow> (Inr (sim_addr 0), sim_tick k) | _ \<Rightarrow> (Inl (Os 107), sim_tick k))"

definition sim_close :: "fd \<Rightarrow> sim_kernel \<Rightarrow> sim_kernel" where
  "sim_close fd k = (sim_tick k)\<lparr>sk_fds := filter (\<lambda>e. fst e \<noteq> fd) (sk_fds k)\<rparr>"

text \<open>There are no datagram sockets in this network.\<close>

definition sim_net :: "sim_kernel net" where
  "sim_net = \<lparr>
     net_os = sim_os,
     sys_socket = (\<lambda>_ _ _. sim_alloc (S_Stream False)),
     sys_connect = sim_connect, sys_peer_addr = sim_peer_addr, sys_close = sim_close,
     tcp_bind = (\<lambda>_. sim_alloc (S_Listen 0)), tcp_accept = sim_accept,
     tcp_peek = (\<lambda>_ _ k. (Inl WouldBlock, k)),
     udp_bind = (\<lambda>_ k. (Inl (Os 93), k)), udp_connect = (\<lambda>_ _ k. (Inl (Os 93), k)),
     udp_recv_from = (\<lambda>_ _ k. (Inl (Os 93), k)), udp_peek_from = (\<lambda>_ _ k. (Inl (Os 93), k)),
     udp_send_to = (\<lambda>_ _ _ k. (Inl (Os 93), k)), udp_recv = (\<lambda>_ _ k. (Inl (Os 93), k)),
     udp_peek = (\<lambda>_ _ k. (Inl (Os 93), k)), udp_send = (\<lambda>_ _ k. (Inl (Os 93), k))\<rparr>"

section \<open>The test\<close>

text \<open>Wakers 1 and 2 are the mocks, 0 is that of \<open>block_on\<close>.\<close>

record tcp_test =
  tc_reactor :: "(poll_poller, nat) reactor"
  tc_kernel :: sim_kernel
  tc_listener :: "fd async option"
  tc_accepted :: bool
  tc_connect :: connect_future

definition tc_start :: tcp_test where
  "tc_start = \<lparr>tc_reactor = Reactor_new \<lparr>pollfds = []\<rparr>, tc_kernel = sys_start, tc_listener = None,
     tc_accepted = False, tc_connect = Conn_Done\<rparr>"

definition tc_bind :: "tcp_test stmt" where
  "tc_bind s =
     (case TcpListener_bind Linux_Android sim_net it_poller (V4 0x7F000001 0) (tc_reactor s) (tc_kernel s) of
        (Ok a, r, k) \<Rightarrow> Some (s\<lparr>tc_listener := Some a, tc_reactor := r, tc_kernel := k\<rparr>) | _ \<Rightarrow> None)"

definition tc_accept_pending :: "tcp_test stmt" where
  "tc_accept_pending s = Option.bind (tc_listener s) (\<lambda>a.
     case TcpListener_accept Linux_Android sim_net it_poller 1 a (tc_accepted s) (tc_reactor s) (tc_kernel s) of
       (Pending, b, r, k) \<Rightarrow> Some (s\<lparr>tc_accepted := b, tc_reactor := r, tc_kernel := k\<rparr>) | _ \<Rightarrow> None)"

text \<open>A new future of \<open>connect\<close> to the listener's address, polled once.\<close>

definition tc_connect_pending :: "tcp_test stmt" where
  "tc_connect_pending s = Option.bind (tc_listener s) (\<lambda>a.
     case TcpStream_connect Linux_Android sim_net it_poller 2 (Conn_Start (sim_addr (Async_get_ref a)))
            (tc_reactor s) (tc_kernel s) of
       (Pending, f, r, k) \<Rightarrow> Some (s\<lparr>tc_connect := f, tc_reactor := r, tc_kernel := k\<rparr>) | _ \<Rightarrow> None)"

text \<open>
  The future of the \<open>async\<close> block: it awaits \<open>accept\<close>, then \<open>connect\<close>, unwrapping both results, and
  drops the two streams, the later one first. \<open>False\<close> is a failed \<open>unwrap\<close>.
\<close>

datatype tcp_block = Await_Accept "fd async" bool connect_future | Await_Connect "fd async" connect_future

definition tc_drop_streams ::
  "fd async \<Rightarrow> fd async \<Rightarrow> (poll_poller, nat) reactor \<Rightarrow> sim_kernel \<Rightarrow> (poll_poller, nat) reactor \<times> sim_kernel" where
  "tc_drop_streams a b r k =
     (let (_, r1, k1) = Async_drop it_poller (socket_handle sim_net) b r k;
          (_, r2, k2) = Async_drop it_poller (socket_handle sim_net) a r1 k1
      in (r2, k2))"

definition tc_await_connect ::
  "fd async \<Rightarrow> connect_future \<Rightarrow> (poll_poller, nat) reactor \<Rightarrow> sim_kernel \<Rightarrow>
     bool poll \<times> tcp_block \<times> (poll_poller, nat) reactor \<times> sim_kernel" where
  "tc_await_connect a c r k =
     (case TcpStream_connect Linux_Android sim_net it_poller 0 c r k of
        (Pending, c', r1, k1) \<Rightarrow> (Pending, Await_Connect a c', r1, k1)
      | (Ready (Ok b), c', r1, k1) \<Rightarrow>
          (let (r2, k2) = tc_drop_streams a b r1 k1 in (Ready True, Await_Connect a c', r2, k2))
      | (Ready _, c', r1, k1) \<Rightarrow> (Ready False, Await_Connect a c', r1, k1))"

definition tc_block :: "(tcp_block, poll_poller, nat, sim_kernel, bool) main_future" where
  "tc_block st r n = Some
     (let (p, st', r', k') =
        (case st of
           Await_Accept l finished c \<Rightarrow>
             (case TcpListener_accept Linux_Android sim_net it_poller 0 l finished r (kernel n) of
                (Pending, b, r1, k1) \<Rightarrow> (Pending, Await_Accept l b c, r1, k1)
              | (Ready (Ok (a, _)), b, r1, k1) \<Rightarrow> tc_await_connect a c r1 k1
              | (Ready _, b, r1, k1) \<Rightarrow> (Ready False, Await_Accept l b c, r1, k1))
         | Await_Connect a c \<Rightarrow> tc_await_connect a c r (kernel n))
      in (p, st', r', n\<lparr>kernel := k'\<rparr>))"

definition tc_wake :: "nat \<Rightarrow> sim_kernel nworld \<Rightarrow> sim_kernel nworld" where
  "tc_wake w n = (if w = 0 then Notifier_wake (EventFd sim_os 3) n else n)"

definition tc_block_on :: "tcp_test stmt" where
  "tc_block_on s = Option.bind (tc_listener s) (\<lambda>l.
     case block_on it_poller sim_os (EventFd sim_os 3) tc_wake tc_block (Await_Accept l (tc_accepted s) (tc_connect s))
            (tc_reactor s) \<lparr>kernel = tc_kernel s, is_notified = False\<rparr> of
       Some (Ok True, r, n) \<Rightarrow> Some (s\<lparr>tc_reactor := r, tc_kernel := kernel n, tc_connect := Conn_Done\<rparr>) | _ \<Rightarrow> None)"

definition test_tcp :: "tcp_test stmt list" where
  "test_tcp = [tc_bind, tc_accept_pending, tc_connect_pending, tc_block_on, tc_connect_pending]"

lemmas tc_eval = tc_start_def tc_bind_def tc_accept_pending_def tc_connect_pending_def tc_drop_streams_def
  tc_await_connect_def tc_block_def tc_wake_def sim_addr_def sim_connect_def sim_accept_def sim_peer_addr_def sim_close_def
  sim_net_def TcpListener_bind_def wrap_socket_def TcpListener_accept_def poll_accept_def accept_fn_def poll_fn_await_def
  TcpStream_connect_def connect_wait_def connect_fail_def connect_def tcp_socket_def addr_family_def socket_handle_def
  Async_get_ref_def Notifier_wake_def WithFlag_notify_def

lemma tcp_test_passes: "passes test_tcp tc_start"
  unfolding test_tcp_def
  apply (simp add: tc_block_on_def tc_eval it_eval wait_eval po_eval)
  apply (subst block_on.simps, simp add: tc_eval it_eval wait_eval po_eval)
  apply (subst block_on.simps, simp add: tc_eval it_eval wait_eval po_eval)
  done

end
