(* ===== verification/Unit_Tests.thy ===== *)
theory Unit_Tests
  imports Thread_Tests Tcp_Tests
begin

text \<open>
  All unit tests of the crate together: the \<open>tests\<close> modules of the files under \<open>src/src\<close>, each test
  run on the model by the theory of its group.
\<close>


end
