(* ===== verification/Hyper_Adapter.thy ===== *)
theory Hyper_Adapter
  imports Async_Net
begin

text \<open>
  The adapter of \<open>src/examples/hyper.rs\<close> that gives an I/O object of this crate to \<open>hyper\<close>:
  \<open>HyperIo\<close>. The inner object is any implementation of \<open>AsyncRead\<close> and \<open>AsyncWrite\<close>, a record of
  their methods over the object and the state \<open>'s\<close> they act on. The buffer cursor of \<open>hyper\<close> is
  a parameter with its documented behaviour as a locale.
\<close>

section \<open>The inner object and the cursor\<close>

record ('t, 's) async_read =
  ar_poll_read :: "nat \<Rightarrow> 't \<Rightarrow> 's \<Rightarrow> bytes res poll \<times> 't \<times> 's"

record ('t, 's) async_write =
  aw_poll_write :: "bytes \<Rightarrow> 't \<Rightarrow> 's \<Rightarrow> nat res poll \<times> 't \<times> 's"
  aw_poll_flush :: "'t \<Rightarrow> 's \<Rightarrow> unit res poll \<times> 't \<times> 's"
  aw_poll_close :: "'t \<Rightarrow> 's \<Rightarrow> unit res poll \<times> 't \<times> 's"

text \<open>
  \<open>ReadBufCursor\<close>: \<open>as_mut\<close> gives the unfilled part, of which writing to the slice replaces
  bytes; \<open>advance(n)\<close> counts the next \<open>n\<close> of them as filled.
\<close>

record 'b read_buf_cursor =
  rc_filled :: "'b \<Rightarrow> bytes"
  rc_unfilled :: "'b \<Rightarrow> bytes"
  rc_store :: "bytes \<Rightarrow> 'b \<Rightarrow> 'b"
  rc_advance :: "nat \<Rightarrow> 'b \<Rightarrow> 'b"

section \<open>The adapter\<close>

record 't hyper_io =
  hy_inner :: 't

definition HyperIo_new :: "'t \<Rightarrow> 't hyper_io" where
  "HyperIo_new inner = \<lparr>hy_inner = inner\<rparr>"

definition HyperIo_poll_write ::
  "('t, 's) async_write \<Rightarrow> bytes \<Rightarrow> 't hyper_io \<Rightarrow> 's \<Rightarrow> nat res poll \<times> 't hyper_io \<times> 's" where
  "HyperIo_poll_write W buf h s =
     (let (p, t, s1) = aw_poll_write W buf (hy_inner h) s in (p, h\<lparr>hy_inner := t\<rparr>, s1))"

definition HyperIo_poll_flush ::
  "('t, 's) async_write \<Rightarrow> 't hyper_io \<Rightarrow> 's \<Rightarrow> unit res poll \<times> 't hyper_io \<times> 's" where
  "HyperIo_poll_flush W h s =
     (let (p, t, s1) = aw_poll_flush W (hy_inner h) s in (p, h\<lparr>hy_inner := t\<rparr>, s1))"

definition HyperIo_poll_shutdown ::
  "('t, 's) async_write \<Rightarrow> 't hyper_io \<Rightarrow> 's \<Rightarrow> unit res poll \<times> 't hyper_io \<times> 's" where
  "HyperIo_poll_shutdown W h s =
     (let (p, t, s1) = aw_poll_close W (hy_inner h) s in (p, h\<lparr>hy_inner := t\<rparr>, s1))"

text \<open>
  \<open>poll_read\<close>: the unfilled part is zeroed and handed to the inner read, which overwrites as
  many bytes at its start as it returns; then the cursor advances over them.
\<close>

definition HyperIo_poll_read ::
  "'b read_buf_cursor \<Rightarrow> ('t, 's) async_read \<Rightarrow> 't hyper_io \<Rightarrow> 'b \<Rightarrow> 's \<Rightarrow>
     unit res poll \<times> 't hyper_io \<times> 'b \<times> 's" where
  "HyperIo_poll_read B R h buf s =
     (let remaining = replicate (length (rc_unfilled B buf)) 0;
          buf1 = rc_store B remaining buf
      in case ar_poll_read R (length remaining) (hy_inner h) s of
           (Ready (Ok bs), t, s1) \<Rightarrow>
             (let buf2 = rc_store B (bs @ drop (length bs) remaining) buf1
              in (Ready (Ok ()), h\<lparr>hy_inner := t\<rparr>, rc_advance B (length bs) buf2, s1))
         | (Ready (Err e), t, s1) \<Rightarrow> (Ready (Err e), h\<lparr>hy_inner := t\<rparr>, buf1, s1)
         | (Ready (Panic m), t, s1) \<Rightarrow> (Ready (Panic m), h\<lparr>hy_inner := t\<rparr>, buf1, s1)
         | (Pending, t, s1) \<Rightarrow> (Pending, h\<lparr>hy_inner := t\<rparr>, buf1, s1))"

section \<open>What the adapter does to the buffer\<close>

locale buf_cursor =
  fixes B :: "'b read_buf_cursor"
  assumes store_unfilled: "length u = length (rc_unfilled B b) \<Longrightarrow> rc_unfilled B (rc_store B u b) = u"
    and store_filled: "length u = length (rc_unfilled B b) \<Longrightarrow> rc_filled B (rc_store B u b) = rc_filled B b"
    and advance_filled: "n \<le> length (rc_unfilled B b) \<Longrightarrow>
          rc_filled B (rc_advance B n b) = rc_filled B b @ take n (rc_unfilled B b)"
    and advance_unfilled: "n \<le> length (rc_unfilled B b) \<Longrightarrow>
          rc_unfilled B (rc_advance B n b) = drop n (rc_unfilled B b)"
begin

lemma poll_read_buffer:
  assumes "ar_poll_read R (length (rc_unfilled B buf)) (hy_inner h) s = (p, t, s1)"
    and "\<And>bs. p = Ready (Ok bs) \<Longrightarrow> length bs \<le> length (rc_unfilled B buf)"
    and "HyperIo_poll_read B R h buf s = (q, h', buf', s')"
  shows "s' = s1 \<and> hy_inner h' = t \<and>
    (case p of
       Ready (Ok bs) \<Rightarrow> q = Ready (Ok ()) \<and> rc_filled B buf' = rc_filled B buf @ bs
         \<and> length (rc_unfilled B buf') = length (rc_unfilled B buf) - length bs
     | Ready (Err e) \<Rightarrow> q = Ready (Err e) \<and> rc_filled B buf' = rc_filled B buf
     | Ready (Panic m) \<Rightarrow> q = Ready (Panic m) \<and> rc_filled B buf' = rc_filled B buf
     | Pending \<Rightarrow> q = Pending \<and> rc_filled B buf' = rc_filled B buf)"
proof -
  let ?n = "length (rc_unfilled B buf)" and ?z = "replicate (length (rc_unfilled B buf)) (0 :: 8 word)"
  have z: "rc_unfilled B (rc_store B ?z buf) = ?z" "rc_filled B (rc_store B ?z buf) = rc_filled B buf"
    using store_unfilled [of ?z buf] store_filled [of ?z buf] by simp_all
  show ?thesis
  proof (cases "\<exists>bs. p = Ready (Ok bs)")
    case True
    then obtain bs where bs: "p = Ready (Ok bs)" "length bs \<le> ?n" using assms(2) by blast
    let ?b = "rc_store B (bs @ drop (length bs) ?z) (rc_store B ?z buf)"
    have len: "length (bs @ drop (length bs) ?z) = length (rc_unfilled B (rc_store B ?z buf))"
      using bs(2) z by simp
    have "rc_unfilled B ?b = bs @ drop (length bs) ?z" "rc_filled B ?b = rc_filled B buf"
      using store_unfilled [OF len] store_filled [OF len] z by simp_all
    then show ?thesis
      using assms(1,3) bs advance_filled [of "length bs" ?b] advance_unfilled [of "length bs" ?b]
      by (auto simp: HyperIo_poll_read_def Let_def)
  next
    case False
    then show ?thesis
      using assms(1,3) z by (auto simp: HyperIo_poll_read_def Let_def split: poll.splits res.splits)
  qed
qed

end

text \<open>A cursor over the filled and the unfilled bytes.\<close>

definition list_cursor :: "(bytes \<times> bytes) read_buf_cursor" where
  "list_cursor = \<lparr>rc_filled = fst, rc_unfilled = snd, rc_store = (\<lambda>u b. (fst b, u)),
     rc_advance = (\<lambda>n b. (fst b @ take n (snd b), drop n (snd b)))\<rparr>"

interpretation lcur: buf_cursor list_cursor
  by unfold_locales (simp_all add: list_cursor_def)

text \<open>An \<open>Async\<close> object as the inner object, polled with the waker \<open>w\<close>.\<close>

definition Async_as_read ::
  "('p, 'k) event_poller \<Rightarrow> ('t, 'k) read_impl \<Rightarrow> 'w \<Rightarrow> ('t async, ('p, 'w) reactor \<times> 'k) async_read" where
  "Async_as_read EP I w = \<lparr>ar_poll_read = (\<lambda>len a (r, k).
     let (p, a', r', k') = AsyncRead_poll_read EP I w len a r k in (p, a', r', k'))\<rparr>"

text \<open>
  A read of \<open>HyperIo\<close> over an \<open>Async\<close> object fills the buffer with exactly the bytes that the
  object returns; otherwise, and in particular when it would block and the adapter is pending,
  nothing counts as filled.
\<close>

lemma hyper_read_async:
  assumes "AsyncRead_poll_read EP I w (length (snd buf)) (hy_inner h) r k = (p, a, r1, k1)"
    and "\<And>bs. p = Ready (Ok bs) \<Longrightarrow> length bs \<le> length (snd buf)"
    and "HyperIo_poll_read list_cursor (Async_as_read EP I w) h buf (r, k) = (q, h', buf', s')"
  shows "s' = (r1, k1) \<and> hy_inner h' = a \<and>
    fst buf' = fst buf @ (case p of Ready (Ok bs) \<Rightarrow> bs | _ \<Rightarrow> []) \<and> (q = Pending \<longleftrightarrow> p = Pending)"
proof -
  have "ar_poll_read (Async_as_read EP I w) (length (rc_unfilled list_cursor buf)) (hy_inner h) (r, k) = (p, a, r1, k1)"
    using assms(1) by (simp add: Async_as_read_def list_cursor_def)
  from lcur.poll_read_buffer [OF this _ assms(3)] assms(2) show ?thesis
    by (auto simp: list_cursor_def split: poll.splits res.splits)
qed

end
