(* ===== verification/Deadlines.thy ===== *)
theory Deadlines
  imports Reactor_Spec Wake_Protocol Async_IO Poller_Tests
begin

text \<open>
  The runtime in time: \<open>block_on\<close> of \<open>src/src/lib.rs\<close> around a timer or a timeout of
  \<open>src/src/time.rs\<close>, over the reactor with the Unix poller. The clock is a function of the
  kernel state. A system call takes at least a nanosecond and, when it does not block, at
  most the latency; \<open>poll\<close> blocks at most as long as it is told, by its argument or by a timer
  descriptor. Under this contract of the system the loop comes back in time.
\<close>

section \<open>The system's clock\<close>

definition call_time :: "('k \<Rightarrow> instant) \<Rightarrow> nat \<Rightarrow> 'k \<Rightarrow> 'k \<Rightarrow> bool" where
  "call_time clock lat k k' \<longleftrightarrow> clock k < clock k' \<and> clock k' \<le> clock k + int lat"

locale timed_system =
  fixes os :: "'k os" and clock :: "'k \<Rightarrow> instant" and lat :: nat
  assumes now_time: "sys_now os k = (now, k') \<Longrightarrow> clock k \<le> now \<and> now \<le> clock k' \<and> clock k' \<le> clock k + int lat"
    and read_time: "call_time clock lat k (snd (sys_read os fd len k))"
    and write_time: "call_time clock lat k (snd (sys_write os fd bs k))"
    and settime_time: "call_time clock lat k (snd (sys_timerfd_settime os fd spec k))"
    and poll_time: "clock k < clock (snd (sys_poll os fds ms k))"
    and poll_within: "0 \<le> ms \<Longrightarrow> clock (snd (sys_poll os fds ms k)) \<le> clock k + ms * int MILLI + int lat"
    and timer_within: "sys_timerfd_settime os fd spec k = (Inr (), k1) \<Longrightarrow> timerfd_delay spec = Some d \<Longrightarrow>
          (fd, ev) \<in> set fds \<Longrightarrow> P_IN \<in> ev \<Longrightarrow>
          clock (snd (sys_poll os fds ms k1)) \<le> clock k1 + int d + int lat"
    and counts: "poll_counts os"

text \<open>
  What the loop relies on, whichever notifier and way of limiting the wait is built in:
  \<open>slack\<close> is how much longer than asked the wait may be.
\<close>

locale timed_wait =
  fixes os :: "'k os" and N :: "'k notifier_fd" and T :: "'k timeout"
    and clock :: "'k \<Rightarrow> instant" and lat slack :: nat
  assumes now_time: "sys_now os k = (now, k') \<Longrightarrow> clock k \<le> now \<and> now \<le> clock k' \<and> clock k' \<le> clock k + int lat"
    and notify_time: "call_time clock lat k (snd (nf_notify N k))"
    and clear_time: "call_time clock lat k (snd (nf_clear N k))"
    and set_time: "to_set_timeout T t k = (res, k') \<Longrightarrow>
          \<not> is_panic res \<and> clock k \<le> clock k' \<and> clock k' \<le> clock k + int lat
          \<and> (res = Err e \<longrightarrow> clock k < clock k')"
    and poll_time: "clock k < clock (snd (sys_poll os fds ms k))"
    and wait_time: "to_set_timeout T (Some d) k = (Ok ms, k1) \<Longrightarrow>
          set (map (\<lambda>f. (pf_fd f, pf_events f)) (internal_pollfds N T)) \<subseteq> set fds \<Longrightarrow>
          clock (snd (sys_poll os fds ms k1)) \<le> clock k + int d + int slack + 2 * int lat"
    and counts: "poll_counts os"

lemma call_timeD:
  "call_time clock lat k k' \<Longrightarrow> clock k < clock k'" "call_time clock lat k k' \<Longrightarrow> clock k' \<le> clock k + int lat"
  by (simp_all add: call_time_def)

lemma clear_result_no_panic [simp]: "\<not> is_panic (clear_result x)"
  by (cases x) auto

sublocale timed_system \<subseteq> linux: timed_wait os "EventFd os nfd" "TimerFd os tfd" clock lat 1 for nfd tfd
proof (unfold_locales, goal_cases)
  case (2 k)
  then show ?case using write_time [of k nfd] by (auto simp: EventFd_def EventFd_notify_def split: prod.splits sum.splits) (metis snd_conv)+
next
  case (3 k)
  then show ?case using read_time [of k nfd 8] by (auto simp: EventFd_def EventFd_clear_def split: prod.splits)
next
  case (4 t k res k' e)
  then show ?case using settime_time [of k tfd "TimerFd_itimerspec t"]
    by (auto simp: TimerFd_def TimerFd_set_timeout_def call_time_def split: prod.splits sum.splits)
next
  case (6 d k ms k1 fds)
  then have set: "sys_timerfd_settime os tfd (TimerFd_itimerspec (Some d)) k = (Inr (), k1)"
    by (auto simp: TimerFd_def TimerFd_set_timeout_def split: prod.splits sum.splits)
  obtain m where m: "timerfd_delay (TimerFd_itimerspec (Some d)) = Some m" "m \<le> d + 1"
    using timerfd_limit.limited [of d] by blast
  have "(tfd, read_flags) \<in> set fds" "P_IN \<in> read_flags"
    using 6(2) by (auto simp: internal_pollfds_def TimerFd_def PollFd_from_def read_flags_def)
  from timer_within [OF set m(1) this, of ms] settime_time [of k tfd "TimerFd_itimerspec (Some d)"]
  show ?case using m(2) set by (simp add: call_time_def)
qed (use now_time poll_time counts in auto)

sublocale timed_system \<subseteq> portable: timed_wait os "PipeFd os p" PollTimeout clock lat MILLI for p
proof (unfold_locales, goal_cases)
  case (2 k)
  then show ?case using write_time [of k "snd p"] by (auto simp: PipeFd_def PipeFd_notify_def split: prod.splits sum.splits) (metis snd_conv)+
next
  case (3 k)
  then show ?case using read_time [of k "fst p" 8] by (auto simp: PipeFd_def PipeFd_clear_def split: prod.splits)
next
  case (6 d k ms k1 fds)
  then have ms: "ms = PollTimeout_millis (Some d)" "k1 = k" by (simp_all add: PollTimeout_def PollTimeout_set_timeout_def)
  obtain m where "poll_delay ms = Some m" "m \<le> d + MILLI" using poll_limit.limited [of d] ms by blast
  then have pos: "0 \<le> ms" and le: "nat ms * MILLI \<le> d + MILLI" by (auto simp: poll_delay_def split: if_splits)
  have "ms * int MILLI = int (nat ms * MILLI)" using pos by simp
  also have "\<dots> \<le> int d + int MILLI" using le by linarith
  finally have "0 \<le> ms" "ms * int MILLI \<le> int d + int MILLI" using pos by simp_all
  with poll_within [where ms = ms and k = k1 and fds = fds] ms(2) show ?case by simp
qed (use now_time poll_time counts in \<open>auto simp: PollTimeout_def PollTimeout_set_timeout_def\<close>)

section \<open>One wait\<close>

text \<open>No direction of any source is enabled: \<open>poll\<close> sees only the poller's own descriptors.\<close>

definition calm :: "('p, 'w) reactor \<Rightarrow> bool" where
  "calm r \<longleftrightarrow> source_pollfds (Reactor_interests r) = []"

text \<open>What a wait that ends at \<open>c\<close> leaves of a reactor: the timers later than \<open>c\<close> and the sources.\<close>

definition wait_leaves :: "('p, 'w) reactor \<Rightarrow> ('p, 'w) reactor \<Rightarrow> instant \<Rightarrow> bool" where
  "wait_leaves r r' c \<longleftrightarrow> reactor_ok r' \<and> timer_count r' \<le> timer_count r
     \<and> (\<forall>key. c < fst key \<longrightarrow> tarmed r' key = tarmed r key)
     \<and> dom (source_data r') = dom (source_data r) \<and> (calm r \<longrightarrow> calm r')"

lemma fold_notified: "is_notified n \<Longrightarrow> fold (\<lambda>_. Notifier_wake N) ws n = n"
  by (induction ws) (simp_all add: notifier_defs)

lemma calm_update [simp]:
  "calm (r\<lparr>poller := p\<rparr>) = calm r" "calm (r\<lparr>timer_queue := q\<rparr>) = calm r"
  by (simp_all add: calm_def Reactor_interests_def)

lemma dispatch_events_world:
  "dispatch_events (\<lambda>_. Notifier_wake N) evs m n = (res, m', n') \<Longrightarrow> is_notified n \<Longrightarrow> n' = n"
proof (induction evs arbitrary: m)
  case (Cons e evs)
  then show ?case by (cases e) (auto simp: fold_notified split: option.splits prod.splits)
qed simp

lemma next_timeout_le:
  assumes "tq_ok q" "armed q (e, i) = Some w"
  shows "\<exists>d. TimerQueue_next_timeout now q = Some d \<and> int d \<le> max 0 (e - now)"
proof -
  have ok: "bt_ok (timers q)" using assms(1) by (simp add: tq_ok_def)
  have "timers q \<noteq> []" using assms(2) by auto
  then obtain x j v where first: "bt_first (timers q) = Some ((x, j), v)"
    by (cases "timers q") (auto simp: bt_first_def)
  have "(x, j) \<le> (e, i)" using bt_first_least [OF ok first] assms(2) by (simp del: map_of_eq_None_iff)
  then have "x \<le> e" by (auto simp: less_eq_prod_def)
  with first show ?thesis by (simp add: TimerQueue_next_timeout_def saturating_duration_since_def)
qed

lemma calm_outcome:
  assumes "poll_counts os" "source_pollfds srcs = []" "PollPoller_poll os N T t srcs p k = (Ok revents, p', k')"
  shows "revents = None"
  using PollPoller_poll_Ok(2) [OF assms(1,3)] assms(2) by simp

context timed_wait
begin

lemma wakes_time:
  "clock (kernel n) \<le> clock (kernel (fold (\<lambda>_. Notifier_wake N) ws n))
   \<and> clock (kernel (fold (\<lambda>_. Notifier_wake N) ws n)) \<le> clock (kernel n) + int lat"
proof (cases "is_notified n \<or> ws = []")
  case True
  then show ?thesis by (auto simp: fold_notified)
next
  case False
  then obtain w ws' where ws: "ws = w # ws'" by (cases ws) auto
  have "is_notified (Notifier_wake N n)" "kernel (Notifier_wake N n) = snd (nf_notify N (kernel n))"
    using False by (simp_all add: notifier_defs split: prod.splits)
  then show ?thesis using ws call_timeD [OF notify_time, of "kernel n"] by (simp add: fold_notified)
qed

lemma finish_time:
  assumes "wait_finish os N (\<lambda>_. Notifier_wake N) r n = (res, r', n')"
  shows "clock (kernel n) < clock (kernel n')"
    "clock (kernel n') \<le> clock (kernel n) + (if is_notified n then 2 else 3) * int lat"
    "\<exists>now. now \<le> clock (kernel n') \<and> r' = r\<lparr>timer_queue := snd (TimerQueue_clear_expired now (timer_queue r))\<rparr>"
proof -
  obtain now k where now: "sys_now os (kernel n) = (now, k)" by (metis surj_pair)
  let ?ws = "fst (TimerQueue_clear_expired now (timer_queue r))"
  let ?n1 = "fold (\<lambda>_. Notifier_wake N) ?ws (n\<lparr>kernel := k\<rparr>)"
  have n': "kernel n' = snd (nf_clear N (kernel ?n1))"
    and r': "r' = r\<lparr>timer_queue := snd (TimerQueue_clear_expired now (timer_queue r))\<rparr>"
    using assms now by (auto simp: wait_finish_def Reactor_clear_notifications_def WithFlag_clear_def Let_def split: prod.splits)
  note t = now_time [OF now] call_timeD [OF clear_time, of "kernel ?n1"] wakes_time [of "n\<lparr>kernel := k\<rparr>" ?ws]
  show "clock (kernel n) < clock (kernel n')" using t n' by simp
  show "clock (kernel n') \<le> clock (kernel n) + (if is_notified n then 2 else 3) * int lat"
    using t n' fold_notified [of "n\<lparr>kernel := k\<rparr>" N ?ws] by (cases "is_notified n") simp_all
  show "\<exists>now. now \<le> clock (kernel n') \<and> r' = r\<lparr>timer_queue := snd (TimerQueue_clear_expired now (timer_queue r))\<rparr>"
    using t n' r' by (intro exI [of _ now]) simp
qed

lemma poller_time:
  assumes "PollPoller_poll os N T t srcs p k = (res, p', k')"
  shows "\<not> is_panic res" "clock k < clock k'"
    "t = Some d \<Longrightarrow> clock k' \<le> clock k + int d + int slack + 2 * int lat"
proof -
  let ?fds = "map (\<lambda>f. (pf_fd f, pf_events f)) (source_pollfds srcs @ internal_pollfds N T)"
  obtain ms k1 where set: "to_set_timeout T t k = (ms, k1)" by (metis surj_pair)
  note st = set_time [OF set]
  consider e where "ms = Err e" "res = Err e" "k' = k1"
    | m where "ms = Ok m" "k' = snd (sys_poll os ?fds m k1)" "\<not> is_panic res"
    using assms set st by (auto simp: PollPoller_poll_def Let_def split: res.splits sum.splits prod.splits)
  then have "\<not> is_panic res \<and> clock k < clock k'
    \<and> (t = Some d \<longrightarrow> clock k' \<le> clock k + int d + int slack + 2 * int lat)"
  proof cases
    case (1 e)
    then show ?thesis using st [of e] by auto
  next
    case (2 m)
    then show ?thesis using st poll_time [of k1 ?fds m] wait_time [of d k m k1 ?fds] set by auto
  qed
  then show "\<not> is_panic res" "clock k < clock k'"
    "t = Some d \<Longrightarrow> clock k' \<le> clock k + int d + int slack + 2 * int lat" by simp_all
qed

text \<open>The wait itself: how long it takes, what it leaves, and that it panics only with a source enabled.\<close>

lemma wait_leaves_finish:
  assumes "reactor_ok r" "wait_finish os N (\<lambda>_. Notifier_wake N) r n = (res, r', n')"
  shows "wait_leaves r r' (clock (kernel n'))"
proof -
  obtain now where now: "now \<le> clock (kernel n')" "r' = r\<lparr>timer_queue := snd (TimerQueue_clear_expired now (timer_queue r))\<rparr>"
    using finish_time(3) [OF assms(2)] by blast
  have tq: "tq_ok (timer_queue r)" using assms(1) by (simp add: reactor_ok_def)
  show ?thesis using now assms(1) tq_ok_clear [OF tq, of now]
    by (auto simp: wait_leaves_def reactor_ok_def TimerQueue_clear_expired_eq [OF tq] map_of_filter_later)
qed

lemma wait_poll:
  assumes "reactor_ok r" "sys_now os (kernel n) = (now, k)"
    "TimerQueue_next_timeout now (timer_queue r) = Some d" "d \<noteq> 0" "\<not> is_notified n"
    "Reactor_wait (PollPoller os N T) os N (\<lambda>_. Notifier_wake N) r n = (res, r', n')"
  shows "clock k < clock (kernel n')" "clock (kernel n') \<le> clock k + int d + int slack + 4 * int lat"
    "wait_leaves r r' (clock (kernel n'))" "is_panic res \<Longrightarrow> \<not> calm r"
proof -
  let ?wake = "\<lambda>_. Notifier_wake N"
  obtain q p k1 where poll: "PollPoller_poll os N T (Some d) (Reactor_interests r) (poller r) k = (q, p, k1)"
    by (metis prod_cases3)
  note t = poller_time [OF poll]
  have all: "clock k < clock (kernel n') \<and> clock (kernel n') \<le> clock k + int d + int slack + 4 * int lat
    \<and> wait_leaves r r' (clock (kernel n')) \<and> (is_panic res \<longrightarrow> \<not> calm r)"
  proof (cases q)
    case (Err e)
    have w: "Reactor_wait (PollPoller os N T) os N ?wake r n = (Err e, r\<lparr>poller := p\<rparr>, n\<lparr>kernel := k1\<rparr>)"
      using assms(2-5) poll Err by (simp add: Reactor_wait_def PollPoller_def)
    have "wait_leaves r (r\<lparr>poller := p\<rparr>) c" for c using assms(1) by (simp add: wait_leaves_def reactor_ok_def)
    then show ?thesis using assms(6) w t by auto
  next
    case (Ok revents)
    let ?evs = "case revents of None \<Rightarrow> [] | Some es \<Rightarrow> es" and ?n1 = "\<lparr>kernel = k1, is_notified = True\<rparr>"
    obtain dr m n2 where disp: "dispatch_events ?wake ?evs (event_sources r) ?n1 = (dr, m, n2)" by (metis prod_cases3)
    have n2: "n2 = ?n1" by (rule dispatch_events_world [OF disp]) simp
    let ?r1 = "r\<lparr>poller := p, event_sources := m\<rparr>"
    have w: "Reactor_wait (PollPoller os N T) os N ?wake r n =
        (case dr of Ok _ \<Rightarrow> wait_finish os N ?wake ?r1 ?n1 | Err e \<Rightarrow> (Err e, ?r1, ?n1) | Panic msg \<Rightarrow> (Panic msg, ?r1, ?n1))"
      using Reactor_wait_poll [OF assms(2), of r "PollPoller os N T" revents p k1 N ?wake] assms(3-5) poll Ok disp n2
      by (cases dr) (simp_all add: PollPoller_def Let_def)
    have ok1: "reactor_ok ?r1"
      using assms(1) dispatch_events_ok [of "event_sources r" ?wake ?evs ?n1] disp by (simp add: reactor_ok_def)
    have calm1: "?evs = [] \<and> m = event_sources r \<and> dr = res.Ok ()" if "calm r"
      using calm_outcome [OF counts _ poll [unfolded Ok]] that disp by (simp add: calm_def)
    have dom1: "dom (map_of m) = dom (source_data r)"
      using dispatch_events_dom [of ?wake ?evs "event_sources r" ?n1] disp by simp
    have lv1: "wait_leaves r ?r1 c" for c
      using ok1 calm1 dom1 by (auto simp: wait_leaves_def calm_def Reactor_interests_def)
    show ?thesis
    proof (cases dr)
      case (Ok u)
      then have f: "wait_finish os N ?wake ?r1 ?n1 = (res, r', n')" using w assms(6) by simp
      have "wait_leaves ?r1 r' (clock (kernel n'))" by (rule wait_leaves_finish [OF ok1 f])
      then have "wait_leaves r r' (clock (kernel n'))" using lv1 by (auto simp: wait_leaves_def)
      moreover have "\<not> is_panic res" using wait_finish_Ok [of os N ?wake ?r1 ?n1] f by simp
      ultimately show ?thesis using finish_time(1,2) [OF f] t by simp
    qed (use w assms(6) t lv1 calm1 in auto)
  qed (use t in simp)
  then show "clock k < clock (kernel n')" "clock (kernel n') \<le> clock k + int d + int slack + 4 * int lat"
    "wait_leaves r r' (clock (kernel n'))" "is_panic res \<Longrightarrow> \<not> calm r" by simp_all
qed

lemma wait_in_time:
  assumes "reactor_ok r" "tarmed r (e, i) = Some w"
    "Reactor_wait (PollPoller os N T) os N (\<lambda>_. Notifier_wake N) r n = (res, r', n')"
  shows "clock (kernel n) < clock (kernel n')"
    "clock (kernel n') \<le> max (clock (kernel n)) e + int slack + 5 * int lat"
    "wait_leaves r r' (clock (kernel n'))" "is_panic res \<Longrightarrow> \<not> calm r"
proof -
  have tq: "tq_ok (timer_queue r)" using assms(1) by (simp add: reactor_ok_def)
  obtain now k where now: "sys_now os (kernel n) = (now, k)" by (metis surj_pair)
  note t = now_time [OF now]
  obtain d where d: "TimerQueue_next_timeout now (timer_queue r) = Some d" "int d \<le> max 0 (e - now)"
    using next_timeout_le [OF tq assms(2)] by blast
  have "clock (kernel n) < clock (kernel n') \<and> clock (kernel n') \<le> max (clock (kernel n)) e + int slack + 5 * int lat
    \<and> wait_leaves r r' (clock (kernel n')) \<and> (is_panic res \<longrightarrow> \<not> calm r)"
  proof (cases "d = 0 \<or> is_notified n")
    case True
    then have f: "wait_finish os N (\<lambda>_. Notifier_wake N) r (n\<lparr>kernel := k\<rparr>) = (res, r', n')"
      using Reactor_wait_skip [OF now, of r "PollPoller os N T" N "\<lambda>_. Notifier_wake N"] d(1) assms(3) by auto
    have "\<not> is_panic res" using wait_finish_Ok [of os N "\<lambda>_. Notifier_wake N" r "n\<lparr>kernel := k\<rparr>"] f by simp
    then show ?thesis using finish_time(1,2) [OF f] wait_leaves_finish [OF assms(1) f] t by (auto split: if_splits)
  next
    case False
    note p = wait_poll [OF assms(1) now d(1) _ _ assms(3)]
    show ?thesis using p False t d(2) by auto
  qed
  then show "clock (kernel n) < clock (kernel n')"
    "clock (kernel n') \<le> max (clock (kernel n)) e + int slack + 5 * int lat"
    "wait_leaves r r' (clock (kernel n'))" "is_panic res \<Longrightarrow> \<not> calm r" by simp_all
qed

end

section \<open>Futures with a deadline\<close>

text \<open>A future of the reactor as the future of \<open>block_on\<close>, polled with the waker \<open>w\<close> of the notifier.\<close>

definition main_of ::
  "('f, 'w, 'p, 'k, 'v) reactor_future \<Rightarrow> 'w \<Rightarrow> ('f, 'p, 'w, 'k, 'v) main_future" where
  "main_of F w f r n = map_option (\<lambda>(p, f', r', k). (p, f', r', n\<lparr>kernel := k\<rparr>)) (F w f r (kernel n))"

text \<open>How \<open>block_on\<close> ends: by the time \<open>lim\<close>, with an output, or with a panic where one is possible.\<close>

definition completes ::
  "('k \<Rightarrow> instant) \<Rightarrow> ('v \<Rightarrow> instant \<Rightarrow> bool) \<Rightarrow> bool \<Rightarrow> instant \<Rightarrow> ('v res \<times> 'r \<times> 'k nworld) option \<Rightarrow> bool" where
  "completes clock Q panics lim out \<longleftrightarrow> (\<exists>res r' n'. out = Some (res, r', n') \<and> clock (kernel n') \<le> lim
     \<and> (case res of Ok v \<Rightarrow> Q v (clock (kernel n')) | Err e \<Rightarrow> False | Panic m \<Rightarrow> panics))"

lemma completes_mono:
  "completes clock Q b lim out \<Longrightarrow> (b \<Longrightarrow> b') \<Longrightarrow> lim \<le> lim' \<Longrightarrow> completes clock Q b' lim' out"
  unfolding completes_def by (fastforce split: res.splits)

lemma completes_Ok:
  "completes clock Q False lim out \<Longrightarrow> \<exists>v r' n'. out = Some (Ok v, r', n') \<and> Q v (clock (kernel n')) \<and> clock (kernel n') \<le> lim"
  unfolding completes_def by (auto split: res.splits) (metis res.exhaust)

text \<open>
  A future that is ready at the latest when it is polled after its deadline, and that has a
  timer armed for the deadline whenever it is pending. \<open>G\<close> is its invariant, which a wait
  keeps; \<open>post\<close> is what holds of its output, the deadline and the time of completion.
\<close>

locale deadline_future = timed_wait os N T clock lat slack
  for os :: "'k os" and N T clock lat slack +
  fixes F :: "('f, 'w, poll_poller, 'k, 'v) reactor_future" and w :: 'w
    and due :: "'f \<Rightarrow> instant"
    and G :: "'f \<Rightarrow> (poll_poller, 'w) reactor \<Rightarrow> instant \<Rightarrow> bool"
    and cost :: nat
    and post :: "'v \<Rightarrow> instant \<Rightarrow> instant \<Rightarrow> bool"
  assumes polls: "G f r (clock k) \<Longrightarrow> \<exists>p f' r' k'. F w f r k = Some (p, f', r', k')
      \<and> clock k \<le> clock k' \<and> clock k' \<le> clock k + int cost
      \<and> (case p of
           Ready v \<Rightarrow> post v (due f) (clock k')
         | Pending \<Rightarrow> clock k < due f \<and> due f' = due f \<and> G f' r' (clock k')
             \<and> (\<exists>i u. tarmed r' (due f, i) = Some u))"
    and inv_ok: "G f r c \<Longrightarrow> reactor_ok r"
    and inv_wait: "G f r c \<Longrightarrow> wait_leaves r r' c' \<Longrightarrow> c \<le> c' \<Longrightarrow> G f r' c'"
begin

lemma block_on_ready:
  assumes "F w f r (kernel n) = Some (Ready v, f', r', k')" "post v (due f) (clock k')" "clock k' \<le> lim"
  shows "completes clock (\<lambda>v. post v (due f)) b lim
    (block_on (PollPoller os N T) os N (\<lambda>_. Notifier_wake N) (main_of F w) f r n)"
  using assms by (subst block_on.simps) (simp add: main_of_def completes_def)

lemma block_on_due:
  assumes "G f r (clock (kernel n))" "due f \<le> clock (kernel n)" "clock (kernel n) + int cost \<le> lim"
  shows "completes clock (\<lambda>v. post v (due f)) b lim
    (block_on (PollPoller os N T) os N (\<lambda>_. Notifier_wake N) (main_of F w) f r n)"
proof -
  obtain v f' r' k' where "F w f r (kernel n) = Some (Ready v, f', r', k')"
      "post v (due f) (clock k')" "clock k' \<le> clock (kernel n) + int cost"
    using polls [OF assms(1)] assms(2) by (auto split: poll.splits) (metis poll.exhaust)
  then show ?thesis using assms(3) by (intro block_on_ready) auto
qed

lemma block_on_in_time:
  assumes "G f r (clock (kernel n))"
    and "lim = max (clock (kernel n)) (due f) + 2 * int cost + int slack + 5 * int lat"
  shows "completes clock (\<lambda>v. post v (due f)) (\<exists>f r c. G f r c \<and> \<not> calm r) lim
    (block_on (PollPoller os N T) os N (\<lambda>_. Notifier_wake N) (main_of F w) f r n)"
  using assms
proof (induction "nat (due f - clock (kernel n))" arbitrary: f r n lim rule: less_induct)
  case less
  let ?EP = "PollPoller os N T" and ?wake = "\<lambda>_. Notifier_wake N" and ?panics = "\<exists>f r c. G f r c \<and> \<not> calm r"
  obtain p f' r1 k1 where F: "F w f r (kernel n) = Some (p, f', r1, k1)"
    and c1: "clock (kernel n) \<le> clock k1" "clock k1 \<le> clock (kernel n) + int cost"
    and p: "case p of Ready v \<Rightarrow> post v (due f) (clock k1)
         | Pending \<Rightarrow> clock (kernel n) < due f \<and> due f' = due f \<and> G f' r1 (clock k1)
             \<and> (\<exists>i u. tarmed r1 (due f, i) = Some u)"
    using polls [OF less.prems(1)] by blast
  show ?case
  proof (cases p)
    case (Ready v)
    then show ?thesis using F p c1 less.prems(2) by (intro block_on_ready [of f r n v f' r1 k1]) auto
  next
    case Pending
    then obtain i u where d: "clock (kernel n) < due f" "due f' = due f" "G f' r1 (clock k1)"
        "tarmed r1 (due f, i) = Some u" using p by auto
    obtain q r2 n2 where w: "Reactor_wait ?EP os N ?wake r1 (n\<lparr>kernel := k1\<rparr>) = (q, r2, n2)" by (metis prod_cases3)
    note W = wait_in_time [OF inv_ok [OF d(3)] d(4) w, simplified]
    have step: "block_on ?EP os N ?wake (main_of F w) f r n =
        (case q of Panic m \<Rightarrow> Some (Panic m, r2, n2) | _ \<Rightarrow> block_on ?EP os N ?wake (main_of F w) f' r2 n2)"
      using F w Pending by (subst block_on.simps) (auto simp: main_of_def split: res.splits)
    have late: "clock (kernel n2) + int cost \<le> lim" using W(2) c1 d(1) less.prems(2) by auto
    have G2: "G f' r2 (clock (kernel n2))" using inv_wait [OF d(3) W(3)] W(1) by simp
    have again: "completes clock (\<lambda>v. post v (due f)) ?panics lim (block_on ?EP os N ?wake (main_of F w) f' r2 n2)"
    proof (cases "clock (kernel n2) < due f")
      case True
      then have "nat (due f' - clock (kernel n2)) < nat (due f - clock (kernel n))"
        "lim = max (clock (kernel n2)) (due f') + 2 * int cost + int slack + 5 * int lat"
        using d W(1) c1 less.prems(2) by auto
      from less.hyps [OF this(1) G2 this(2)] show ?thesis using d(2) by simp
    next
      case False
      then show ?thesis using block_on_due [OF G2 _ late] d(2) by simp
    qed
    show ?thesis
    proof (cases q)
      case (Panic m)
      then have "?panics" using W(4) d(3) by auto
      then show ?thesis using step Panic late by (simp add: completes_def)
    qed (use again step in simp_all)
  qed
qed

end

section \<open>Timers and timeouts\<close>

text \<open>
  A timer future and the reactor it is polled with, at time \<open>c\<close>: its key is armed or it has
  expired, and there is an identifier left for it.
\<close>

definition timer_fits :: "timer \<Rightarrow> ('p, 'w) reactor \<Rightarrow> instant \<Rightarrow> bool" where
  "timer_fits t r c \<longleftrightarrow> reactor_ok r \<and> timer_count r + (if tm_id t = None then 1 else 0) < 2 ^ 64 - 1
     \<and> (\<forall>i. tm_id t = Some i \<longrightarrow> tarmed r (tm_expiry t, i) \<noteq> None \<or> tm_expiry t \<le> c)"

lemma timer_count_card: "reactor_ok r \<Longrightarrow> timer_count r = card (dom (tarmed r))"
  using distinct_card [of "map fst (timers (timer_queue r))"]
  by (simp add: reactor_ok_def tq_ok_def bt_ok_distinct dom_map_of_conv_image_fst)

lemma timer_fits_pollable: "timer_fits t r c \<Longrightarrow> c \<le> now \<Longrightarrow> pollable now t r"
  by (auto simp: timer_fits_def pollable_def split: option.splits if_splits)

lemma timer_fits_wait:
  assumes "timer_fits t r c" "wait_leaves r r' c'" "c \<le> c'"
  shows "timer_fits t r' c'"
  using assms by (cases "c' < tm_expiry t") (auto simp: timer_fits_def wait_leaves_def)

lemma Timer_register_sources:
  "Timer_register w t r = Some (t', r') \<Longrightarrow> event_sources r' = event_sources r"
  by (auto simp: Timer_register_def Reactor_register_timer_def Reactor_modify_timer_def split: option.splits)

lemma Timer_register_fits:
  assumes "timer_fits t r c" "c < tm_expiry t" "Timer_register w t r = Some (t', r')"
  shows "timer_fits t' r' c'" "\<exists>i. tarmed r' (tm_expiry t, i) = Some w" "tm_expiry t' = tm_expiry t"
proof -
  have r: "reactor_ok r" "\<And>i. tm_id t = Some i \<Longrightarrow> tarmed r (tm_expiry t, i) \<noteq> None"
    using assms(1,2) by (auto simp: timer_fits_def)
  obtain i where i: "tm_id t' = Some i" "tm_expiry t' = tm_expiry t" "reactor_ok r'"
    "tarmed r' = (tarmed r)((tm_expiry t, i) \<mapsto> w)" "tm_id t \<noteq> None \<Longrightarrow> tm_id t = Some i"
    using Timer_register_facts [OF r(1) assms(3) r(2)] by metis
  have fin: "finite (dom (tarmed r))" by (rule finite_dom_map_of)
  have "timer_count r' \<le> timer_count r + (if tm_id t = None then 1 else 0)"
  proof (cases "tm_id t")
    case None
    then show ?thesis using r(1) i fin by (simp add: timer_count_card card_insert_if)
  next
    case (Some j)
    then have "dom (tarmed r') = dom (tarmed r)" using i(4,5) r(2) by auto
    then show ?thesis using Some r(1) i(3) by (simp add: timer_count_card)
  qed
  then show "timer_fits t' r' c'" "\<exists>i. tarmed r' (tm_expiry t, i) = Some w" "tm_expiry t' = tm_expiry t"
    using i assms(1) by (auto simp: timer_fits_def)
qed

lemma Timer_poll_fits:
  assumes "timer_fits t r c" "sys_now os k = (now, k1)" "c \<le> now"
  shows "\<exists>p t' r'. Timer_poll os w t r k = Some (p, t', r', k1) \<and> event_sources r' = event_sources r
    \<and> tm_expiry t' = tm_expiry t
    \<and> (if tm_expiry t \<le> now then p = Ready (tm_expiry t)
       else p = Pending \<and> timer_fits t' r' now \<and> (\<exists>i. tarmed r' (tm_expiry t, i) = Some w))"
proof (cases "tm_expiry t \<le> now")
  case True
  obtain t' r' where c: "cancel_taken t r = (t', r')" by fastforce
  have "reactor_ok r" using assms(1) by (simp add: timer_fits_def)
  from cancel_taken_facts [OF this c] show ?thesis
    using True c assms(2) by (simp add: Timer_poll_def Timer_poll_at_def)
next
  case False
  obtain t' r' where reg: "Timer_register w t r = Some (t', r')"
    using Timer_register_total [of r w t] assms(1) by (auto simp: timer_fits_def split: if_splits)
  have "c < tm_expiry t" using False assms(3) by simp
  from Timer_register_fits [OF assms(1) this reg] Timer_register_sources [OF reg] show ?thesis
    using False reg assms(2) by (simp add: Timer_poll_def Timer_poll_at_def)
qed

lemma timer_fits_later: "timer_fits t r c \<Longrightarrow> c \<le> c' \<Longrightarrow> timer_fits t r c'"
  by (auto simp: timer_fits_def)

lemma calm_sources: "event_sources r' = event_sources r \<Longrightarrow> calm r' = calm r"
  by (simp add: calm_def Reactor_interests_def)

sublocale timed_wait \<subseteq> timer: deadline_future os N T clock lat slack "Timer_poll os" w tm_expiry
    "\<lambda>t r c. timer_fits t r c \<and> calm r" lat "\<lambda>v d c. v = d \<and> d \<le> c" for w
proof (unfold_locales, goal_cases)
  case (1 t r k)
  obtain now k1 where now: "sys_now os k = (now, k1)" by (metis surj_pair)
  note t = now_time [OF now]
  obtain p t' r' where P: "Timer_poll os w t r k = Some (p, t', r', k1)" "event_sources r' = event_sources r"
    "tm_expiry t' = tm_expiry t"
    "if tm_expiry t \<le> now then p = Ready (tm_expiry t)
       else p = Pending \<and> timer_fits t' r' now \<and> (\<exists>i. tarmed r' (tm_expiry t, i) = Some w)"
    using Timer_poll_fits [OF conjunct1 [OF 1] now conjunct1 [OF t], of w] by blast
  show ?case
  proof (cases "tm_expiry t \<le> now")
    case True
    then show ?thesis using P t by simp
  next
    case False
    then have p: "p = Pending" "timer_fits t' r' now" and arm: "\<exists>i u. tarmed r' (tm_expiry t, i) = Some u"
      using P(4) by auto
    have "timer_fits t' r' (clock k1)" "calm r'"
      using timer_fits_later [OF p(2)] t calm_sources [OF P(2)] 1 by simp_all
    then show ?thesis using P(1,3) p(1) arm t False by simp
  qed
next
  case (3 t r c r' c')
  have "timer_fits t r' c'" using timer_fits_wait 3 by blast
  then show ?case using 3 by (simp add: wait_leaves_def)
qed (auto simp: timer_fits_def)

text \<open>
  What a timeout needs of the future inside: its polls return and take bounded time, and it
  leaves the timers of the reactor alone. Its invariant \<open>I\<close> may depend on which sources are
  registered and on whether one is enabled.
\<close>

locale patient_future =
  fixes clock :: "'k \<Rightarrow> instant" and F :: "('f, 'w, poll_poller, 'k, 'v) reactor_future" and w :: 'w
    and I :: "'f \<Rightarrow> (poll_poller, 'w) reactor \<Rightarrow> bool" and cost :: nat
  assumes inner_polls: "reactor_ok r \<Longrightarrow> I f r \<Longrightarrow> \<exists>p f' r' k'. F w f r k = Some (p, f', r', k')
      \<and> clock k \<le> clock k' \<and> clock k' \<le> clock k + int cost
      \<and> reactor_ok r' \<and> timer_queue r' = timer_queue r \<and> (p = Pending \<longrightarrow> I f' r')"
    and inner_keeps: "I f r \<Longrightarrow> dom (source_data r') = dom (source_data r) \<Longrightarrow> (calm r \<Longrightarrow> calm r') \<Longrightarrow> I f r'"

locale timed_timeout = timed_wait os N T clock lat slack + patient_future clock F w I cost
  for os :: "'k os" and N T clock lat slack and F :: "('f, 'w, poll_poller, 'k, 'v) reactor_future" and w I cost

text \<open>The future of \<open>Async::readable\<close>, with the object it borrows, is such a future on a registered source.\<close>

definition readable_future ::
  "('p, 'k) event_poller \<Rightarrow> ('t async \<times> wait_event, 'w, 'p, 'k, unit res) reactor_future" where
  "readable_future EP w f r k =
     (let (p, st, r') = Async_readable EP (fst f) w (snd f) r in Some (p, (fst f, st), r', k))"

lemma readable_future_poll:
  assumes "reactor_ok r" "source_data r (as_source a) = Some d"
  shows "\<exists>p st' r'. readable_future (PollPoller os N T) w (a, st) r k = Some (p, (a, st'), r', k)
    \<and> reactor_ok r' \<and> timer_queue r' = timer_queue r \<and> dom (source_data r') = dom (source_data r)"
proof -
  have en: "enable_pending (PollPoller os N T) (as_source a) Interest_Read w r =
      (Pending :: unit res poll, with_event (as_source a) (dir_enable Interest_Read w d) r)"
    using assms(2) by (cases r) (simp add: enable_pending_def ppoll.enable_registered with_event_def)
  have "reactor_ok (with_event (as_source a) (dir_enable Interest_Read w d) r)"
    using reactor_ok_with_event [OF assms(1)] reactor_ok_data [OF assms] by simp
  then show ?thesis using assms en
    by (cases st) (auto simp: readable_future_def Async_readable_def wait_for_event_ready_def Reactor_is_event_ready_def
        Let_def split: bool.splits)
qed

interpretation readable_patient: patient_future clock "readable_future (PollPoller os N T)" w
    "\<lambda>f r. as_source (fst f) \<in> dom (source_data r)" 0
  for clock :: "'k \<Rightarrow> instant" and os :: "'k os" and N T and w :: 'w
proof (unfold_locales, goal_cases)
  case (1 r f k)
  then obtain d where "source_data r (as_source (fst f)) = Some d" by auto
  from readable_future_poll [OF 1(1) this, of os N T w "snd f" k] 1(2) show ?case by auto
qed simp

lemma timer_fits_queue:
  assumes "timer_fits t r c" "reactor_ok r'" "timer_queue r' = timer_queue r"
  shows "timer_fits t r' c"
  using assms by (simp add: timer_fits_def)

sublocale timed_timeout \<subseteq> timeout: deadline_future os N T clock lat slack "Timeout_poll os F" w
    "\<lambda>s. tm_expiry (to_timer s)" "\<lambda>s r c. timer_fits (to_timer s) r c \<and> I (to_fut s) r" "cost + lat"
    "\<lambda>v d c. v = Inl TimedOut \<longrightarrow> d \<le> c"
proof (unfold_locales, goal_cases)
  case (1 s r k)
  then have ok: "reactor_ok r" by (simp add: timer_fits_def)
  obtain p f' r1 k1 where F: "F w (to_fut s) r k = Some (p, f', r1, k1)" "clock k \<le> clock k1"
      "clock k1 \<le> clock k + int cost" "reactor_ok r1" "timer_queue r1 = timer_queue r" "p = Pending \<longrightarrow> I f' r1"
    using inner_polls [OF ok conjunct2 [OF 1], of k] by blast
  show ?case
  proof (cases p)
    case (Ready v)
    then show ?thesis using F by (auto simp: Timeout_poll_def)
  next
    case Pending
    obtain now k2 where now: "sys_now os k1 = (now, k2)" by (metis surj_pair)
    note t = now_time [OF now]
    have fits: "timer_fits (to_timer s) r1 (clock k1)"
      using timer_fits_later [OF timer_fits_queue [OF conjunct1 [OF 1] F(4,5)] F(2)] .
    obtain q t' r2 where P: "Timer_poll os w (to_timer s) r1 k1 = Some (q, t', r2, k2)"
      "event_sources r2 = event_sources r1" "tm_expiry t' = tm_expiry (to_timer s)"
      "if tm_expiry (to_timer s) \<le> now then q = Ready (tm_expiry (to_timer s))
       else q = Pending \<and> timer_fits t' r2 now \<and> (\<exists>i. tarmed r2 (tm_expiry (to_timer s), i) = Some w)"
      using Timer_poll_fits [OF fits now conjunct1 [OF t], of w] by blast
    have poll: "Timeout_poll os F w s r k = Some ((case q of Ready _ \<Rightarrow> Ready (Inl TimedOut) | Pending \<Rightarrow> Pending),
        \<lparr>to_timer = t', to_fut = f'\<rparr>, r2, k2)"
      using F(1) Pending P(1) by (simp add: Timeout_poll_def)
    show ?thesis
    proof (cases "tm_expiry (to_timer s) \<le> now")
      case True
      then show ?thesis using poll P(4) t F(2,3) by simp
    next
      case False
      then have p: "q = Pending" "timer_fits t' r2 now" and arm: "\<exists>i u. tarmed r2 (tm_expiry (to_timer s), i) = Some u"
        using P(4) by auto
      have "timer_fits t' r2 (clock k2)" using timer_fits_later [OF p(2)] t by simp
      moreover have "I f' r2" using inner_keeps [of f' r1 r2] F(6) Pending P(2) calm_sources [OF P(2)] by simp
      ultimately show ?thesis using poll P(3) p(1) arm t F(2,3) False by simp
    qed
  qed
next
  case (3 s r c r' c')
  have "timer_fits (to_timer s) r' c'" using timer_fits_wait 3 by blast
  moreover have "I (to_fut s) r'" using inner_keeps [of "to_fut s" r r'] 3 by (simp add: wait_leaves_def)
  ultimately show ?case by blast
qed (auto simp: timer_fits_def)

context timed_wait
begin

lemma delay_clock:
  assumes "Timer_delay os d k = (Ok t, k1)"
  shows "tm_id t = None" "clock k + int d \<le> tm_expiry t" "max (clock k1) (tm_expiry t) \<le> clock k + int d + int lat"
  using assms now_time [of k]
  by (auto simp: Timer_delay_def Timer_at_def instant_add_def split: prod.splits if_splits)

lemma timer_completes:
  assumes "timer_fits t r (clock (kernel n))" "calm r"
  shows "completes clock (\<lambda>v c. v = tm_expiry t \<and> tm_expiry t \<le> c) False
      (max (clock (kernel n)) (tm_expiry t) + int slack + 7 * int lat)
      (block_on (PollPoller os N T) os N (\<lambda>_. Notifier_wake N) (main_of (Timer_poll os) w) t r n)"
  by (rule completes_mono [OF timer.block_on_in_time [OF conjI [OF assms] refl]]) auto

end

context timed_timeout
begin

lemma timeout_completes:
  assumes "timer_fits (to_timer s) r (clock (kernel n))" "I (to_fut s) r"
  shows "completes clock (\<lambda>v c. v = Inl TimedOut \<longrightarrow> tm_expiry (to_timer s) \<le> c) (\<exists>f r. I f r \<and> \<not> calm r)
      (max (clock (kernel n)) (tm_expiry (to_timer s)) + 2 * int cost + int slack + 7 * int lat)
      (block_on (PollPoller os N T) os N (\<lambda>_. Notifier_wake N) (main_of (Timeout_poll os F) w) s r n)"
  by (rule completes_mono [OF timeout.block_on_in_time [OF conjI [OF assms] refl]]) auto

end

section \<open>The simulated kernel\<close>

lemma foldr_min_le: "x \<in> set (y # ys) \<Longrightarrow> foldr min ys y \<le> (x :: instant)"
  by (induction ys) auto

lemma sim_poll_clock:
  "sk_now k < sk_now (snd (sim_poll fds ms k))"
  "0 \<le> ms \<Longrightarrow> sk_now (snd (sim_poll fds ms k)) \<le> sk_now k + 1 + ms * int MILLI"
  "x \<in> set (sim_timers fds (sim_tick k)) \<Longrightarrow> sk_now (snd (sim_poll fds ms k)) \<le> max (sk_now k + 1) x"
proof -
  let ?k1 = "sim_tick k"
  let ?limits = "(if ms < 0 then [] else [sk_now ?k1 + ms * int MILLI]) @ sim_timers fds ?k1"
  have c: "sk_now (snd (sim_poll fds ms k)) = sk_now ?k1
      \<or> ?limits \<noteq> [] \<and> sk_now (snd (sim_poll fds ms k)) = max (sk_now ?k1) (foldr min (tl ?limits) (hd ?limits))"
    by (simp add: sim_poll_def Let_def)
  have least: "foldr min (tl ?limits) (hd ?limits) \<le> y" if "y \<in> set ?limits" for y
    using foldr_min_le [of y "hd ?limits" "tl ?limits"] that by (cases ?limits) auto
  show "sk_now k < sk_now (snd (sim_poll fds ms k))" using c by (auto simp: sim_tick_def)
  show "sk_now (snd (sim_poll fds ms k)) \<le> sk_now k + 1 + ms * int MILLI" if "0 \<le> ms"
    using c least [of "sk_now ?k1 + ms * int MILLI"] that by (auto simp: sim_tick_def MILLI_def)
  show "sk_now (snd (sim_poll fds ms k)) \<le> max (sk_now k + 1) x" if "x \<in> set (sim_timers fds ?k1)"
    using c least [of x] that by (auto simp: sim_tick_def)
qed

interpretation sim: timed_system sim_os sk_now 1
proof (unfold_locales, goal_cases)
  case (2 k fd len)
  show ?case by (auto simp: call_time_def sim_os_def sim_read_def sim_tick_def sim_set_def split: option.splits sim_fd.splits)
next
  case (3 k fd bs)
  show ?case by (auto simp: call_time_def sim_os_def sim_write_def sim_tick_def sim_set_def split: option.splits sim_fd.splits)
next
  case (7 fd spec k k1 d ev fds ms)
  let ?x = "sk_now k + (tv_sec (it_value spec) * int NANOS + tv_nsec (it_value spec))"
  have d: "?x \<le> sk_now k + int d" "map_of (sk_fds k1) fd = Some (S_Timer (Some ?x))" "sk_now k1 = sk_now k + 1"
    using 7(1,2) by (auto simp: sim_os_def sim_settime_def timerfd_delay_def Let_def sim_set_def sim_tick_def split: if_splits)
  have "?x \<in> set (sim_timers fds (sim_tick k1))"
    using 7(3) d(2) by (force simp: sim_timers_def sim_tick_def map_filter_def)
  from sim_poll_clock(3) [OF this, of ms] show ?case using d by (simp add: sim_os_def)
qed (auto simp: sim_os_def call_time_def sim_settime_def sim_set_def sim_tick_def sim_poll_clock
    Let_def intro: sim_poll_clock(2) [THEN order_trans] sim_poll_counts [unfolded sim_os_def])

interpretation sim_readable: timed_timeout sim_os "EventFd sim_os nfd" "TimerFd sim_os tfd" sk_now 1 1
    "readable_future (PollPoller sim_os (EventFd sim_os nfd) (TimerFd sim_os tfd))" w
    "\<lambda>f r. as_source (fst f) \<in> dom (source_data r)" 0
  for nfd tfd and w :: 'w
  by (intro timed_timeout.intro sim.linux.timed_wait_axioms readable_patient.patient_future_axioms)

section \<open>Properties\<close>

definition build_slack :: "'k timeout \<Rightarrow> nat" where
  "build_slack T = (case to_maybe_fd T of None \<Rightarrow> MILLI | Some _ \<Rightarrow> 1)"

context timed_system
begin

lemma build_wait: "unix_build os N T \<Longrightarrow> timed_wait os N T clock lat (build_slack T)"
  using linux.timed_wait_axioms portable.timed_wait_axioms
  by (auto simp: unix_build_def build_slack_def TimerFd_def PollTimeout_def)

end

lemma timer_fits_new:
  "reactor_ok r \<Longrightarrow> timer_count r < 2 ^ 64 - 2 \<Longrightarrow> tm_id t = None \<Longrightarrow> timer_fits t r c"
  by (simp add: timer_fits_def)

text \<open>
  C14: \<open>block_on\<close> of a sleep ends in time, from the timer future through the reactor and the poller
  to the system: it returns, not before the duration has passed and not later than the
  rounding of the built-in way to wait (a millisecond, or a nanosecond with a timer
  descriptor) and a few system calls after it, whatever other timers the reactor holds and
  even if \<open>poll\<close> fails or returns early any number of times.
\<close>

theorem sleep_in_time:
  assumes "timed_system os clock lat" "unix_build os N T"
    "reactor_ok r" "calm r" "timer_count r < 2 ^ 64 - 2" "sleep os d (kernel n) = (Ok t, k)"
  shows "\<exists>r' n'. block_on (PollPoller os N T) os N (\<lambda>_. Notifier_wake N) (main_of (Timer_poll os) w) t r
        (n\<lparr>kernel := k\<rparr>) = Some (Ok (tm_expiry t), r', n')
    \<and> clock (kernel n) + int d \<le> clock (kernel n')
    \<and> clock (kernel n') \<le> clock (kernel n) + int d + int (build_slack T) + 8 * int lat"
proof -
  note D = timed_wait.delay_clock [OF timed_system.build_wait [OF assms(1,2)] assms(6) [unfolded sleep_def]]
  have fits: "timer_fits t r (clock (kernel (n\<lparr>kernel := k\<rparr>)))" "calm r"
    using timer_fits_new [OF assms(3,5) D(1)] assms(4) by blast+
  show ?thesis
    using completes_Ok [OF timed_wait.timer_completes [OF timed_system.build_wait [OF assms(1,2)] fits, of w]] D by auto
qed

abbreviation sim_N :: "sim_kernel notifier_fd" where
  "sim_N \<equiv> EventFd sim_os 3"

abbreviation sim_P :: "(poll_poller, sim_kernel) event_poller" where
  "sim_P \<equiv> PollPoller sim_os sim_N (TimerFd sim_os 4)"

lemma new_calm: "calm (Reactor_new p)"
  by (simp add: calm_def Reactor_new_def Reactor_interests_def source_pollfds_def)

theorem sleep_in_time_witness:
  "\<exists>t k r' n'. sleep sim_os (3 * MILLI) sys_start = (Ok t, k)
    \<and> block_on sim_P sim_os sim_N (\<lambda>_. Notifier_wake sim_N) (main_of (Timer_poll sim_os) ()) t
        (Reactor_new \<lparr>pollfds = []\<rparr>) \<lparr>kernel = k, is_notified = False\<rparr> = Some (Ok (tm_expiry t), r', n')
    \<and> sk_now sys_start + int (3 * MILLI) \<le> sk_now (kernel n')"
proof -
  let ?n = "\<lparr>kernel = sys_start, is_notified = False\<rparr>" and ?r = "Reactor_new \<lparr>pollfds = []\<rparr> :: (poll_poller, unit) reactor"
  obtain t k where t: "sleep sim_os (3 * MILLI) (kernel ?n) = (Ok t, k)"
    by (simp add: sleep_def Timer_delay_def sim_os_def instant_add_def sys_start_def test_start_def MILLI_def
        INSTANT_MAX_def NANOS_def)
  have u: "unix_build sim_os sim_N (TimerFd sim_os 4)" by (auto simp: unix_build_def)
  from sleep_in_time [OF sim.timed_system_axioms u reactor_ok_new new_calm _ t, of "\<lparr>pollfds = []\<rparr>" "()"] show ?thesis
    using t by auto
qed



end
