(* ===== verification/Signal_Example.thy ===== *)
theory Signal_Example
  imports Deadlines
begin

text \<open>
  The program of \<open>src/examples/unix-signal.rs\<close>: it waits for a byte that a signal handler writes to
  a socket, at most ten seconds. \<open>UnixStream::pair\<close>, the registration of the handler (crate
  \<open>signal_hook\<close>) and the future of \<open>read_exact\<close> (crate \<open>futures_lite\<close>) are parameters.
\<close>

section \<open>The program\<close>

record ('f, 'k) signal_calls =
  sg_pair :: "'k \<Rightarrow> (io_error + fd \<times> fd) \<times> 'k"
  sg_register :: "fd \<Rightarrow> 'k \<Rightarrow> (io_error + unit) \<times> 'k"
  sg_close :: "fd \<Rightarrow> 'k \<Rightarrow> 'k"
  sg_read_exact :: "fd async \<Rightarrow> 'f"

definition stream_handle :: "('f, 'k) signal_calls \<Rightarrow> (fd, 'k) io_handle" where
  "stream_handle S = \<lparr>h_as_fd = (\<lambda>fd. fd), h_drop = sg_close S\<rparr>"

text \<open>The lines it prints, with their number of milliseconds.\<close>

datatype line = Waiting_for_ctrl_C | Done_after nat | Timed_out_after nat

text \<open>The future of the \<open>async\<close> block: \<open>rx\<close>, the timeout it awaits and \<open>start\<close>.\<close>

datatype 'f signal_block = Sig_Start | Sig_Waiting "fd async" "'f timeout_future" instant | Sig_Done

type_synonym ('f, 'w, 'k) signal_poll =
  "((unit res \<times> line list) poll \<times> 'f signal_block \<times> (poll_poller, 'w) reactor \<times> 'k)"

text \<open>The block returns: \<open>rx\<close> is dropped.\<close>

definition signal_return ::
  "('f, 'k) signal_calls \<Rightarrow> (poll_poller, 'k) event_poller \<Rightarrow> fd async \<Rightarrow> unit res \<Rightarrow> line list \<Rightarrow>
     (poll_poller, 'w) reactor \<Rightarrow> 'k \<Rightarrow> ('f, 'w, 'k) signal_poll" where
  "signal_return S EP rx res out r k =
     (case Async_drop EP (stream_handle S) rx r k of
        (Panic m, r1, k1) \<Rightarrow> (Ready (Panic m, out), Sig_Done, r1, k1)
      | (_, r1, k1) \<Rightarrow> (Ready (res, out), Sig_Done, r1, k1))"

text \<open>\<open>start.elapsed().as_millis()\<close>\<close>

definition elapsed_millis :: "'k os \<Rightarrow> instant \<Rightarrow> 'k \<Rightarrow> nat \<times> 'k" where
  "elapsed_millis os start k =
     (let (now, k1) = sys_now os k in (saturating_duration_since now start div MILLI, k1))"

text \<open>The \<open>match\<close> on the awaited timeout, which is dropped when it has completed.\<close>

definition signal_await ::
  "'k os \<Rightarrow> ('f, 'k) signal_calls \<Rightarrow> (poll_poller, 'k) event_poller \<Rightarrow>
     ('f, 'w, poll_poller, 'k, unit res) reactor_future \<Rightarrow> 'w \<Rightarrow> fd async \<Rightarrow> 'f timeout_future \<Rightarrow> instant \<Rightarrow>
     (poll_poller, 'w) reactor \<Rightarrow> 'k \<Rightarrow> ('f, 'w, 'k) signal_poll option" where
  "signal_await os S EP F w rx s start r k =
     map_option (\<lambda>(p, s', r1, k1).
       (case p of
          Pending \<Rightarrow> (Pending, Sig_Waiting rx s' start, r1, k1)
        | Ready res \<Rightarrow>
            (let r2 = Timer_drop (to_timer s') r1
             in case res of
                  Inr (Ok _) \<Rightarrow>
                    (let (ms, k2) = elapsed_millis os start k1
                     in signal_return S EP rx (Ok ()) [Waiting_for_ctrl_C, Done_after ms] r2 k2)
                | Inr (Err e) \<Rightarrow> signal_return S EP rx (Err e) [Waiting_for_ctrl_C] r2 k1
                | Inr (Panic m) \<Rightarrow> signal_return S EP rx (Panic m) [Waiting_for_ctrl_C] r2 k1
                | Inl _ \<Rightarrow>
                    (let (ms, k2) = elapsed_millis os start k1
                     in signal_return S EP rx (Ok ()) [Waiting_for_ctrl_C, Timed_out_after ms] r2 k2))))
       (Timeout_poll os F w s r k)"

definition signal_main ::
  "target_os \<Rightarrow> 'k os \<Rightarrow> ('f, 'k) signal_calls \<Rightarrow> (poll_poller, 'k) event_poller \<Rightarrow>
     ('f, 'w, poll_poller, 'k, unit res) reactor_future \<Rightarrow>
     ('f signal_block, 'w, poll_poller, 'k, unit res \<times> line list) reactor_future" where
  "signal_main target os S EP F w st r k =
     (case st of
        Sig_Start \<Rightarrow>
          (case sg_pair S k of
             (Inl e, k1) \<Rightarrow> Some (Ready (Err e, []), Sig_Done, r, k1)
           | (Inr (tx, rx), k1) \<Rightarrow>
               (case Async_new target os EP (stream_handle S) rx r k1 of
                  (Err e, r2, k2) \<Rightarrow> Some (Ready (Err e, []), Sig_Done, r2, sg_close S tx k2)
                | (Panic m, r2, k2) \<Rightarrow> Some (Ready (Panic m, []), Sig_Done, r2, sg_close S tx k2)
                | (Ok rx, r2, k2) \<Rightarrow>
                    (case sg_register S tx k2 of
                       (Inl e, k3) \<Rightarrow> Some (signal_return S EP rx (Err e) [] r2 k3)
                     | (Inr _, k3) \<Rightarrow>
                         (let (start, k4) = sys_now os k3
                          in case timeout_rs os (sg_read_exact S rx) (10 * NANOS) k4 of
                               (Ok s, k5) \<Rightarrow> signal_await os S EP F w rx s start r2 k5
                             | (Err e, k5) \<Rightarrow> Some (signal_return S EP rx (Err e) [Waiting_for_ctrl_C] r2 k5)
                             | (Panic m, k5) \<Rightarrow> Some (signal_return S EP rx (Panic m) [Waiting_for_ctrl_C] r2 k5)))))
      | Sig_Waiting rx s start \<Rightarrow> signal_await os S EP F w rx s start r k
      | Sig_Done \<Rightarrow> Some (Ready (Panic ''async fn resumed after completion'', []), Sig_Done, r, k))"

section \<open>It ends in time\<close>

text \<open>
  What the program relies on of \<open>read_exact\<close>: it is a future that leaves timers and registrations
  alone, and it can be polled while the object it reads from is registered. Closing a
  socket takes bounded time.
\<close>

locale signal_reader = patient_future clock F w I cost
  for clock :: "'k \<Rightarrow> instant" and F :: "('f, 'w, poll_poller, 'k, unit res) reactor_future" and w I cost +
  fixes S :: "('f, 'k) signal_calls" and close_cost :: nat
  assumes keeps_sources: "F w f r k = Some (p, f', r', k') \<Longrightarrow> reactor_ok r \<Longrightarrow> I f r \<Longrightarrow>
      dom (source_data r') = dom (source_data r)"
    and reader_starts: "as_source a \<in> dom (source_data r) \<Longrightarrow> I (sg_read_exact S a) r"
    and close_time: "clock k \<le> clock (sg_close S fd k) \<and> clock (sg_close S fd k) \<le> clock k + int close_cost"

locale signal_run = timed_timeout os N T clock lat slack F w I cost + signal_reader clock F w I cost S close_cost
  for os :: "'k os" and N T clock lat slack and F :: "('f, 'w, poll_poller, 'k, unit res) reactor_future" and w I cost
    and S :: "('f, 'k) signal_calls" and close_cost

fun signal_due :: "'f signal_block \<Rightarrow> instant" where
  "signal_due (Sig_Waiting rx s start) = tm_expiry (to_timer s)"
| "signal_due _ = 0"

fun signal_inv ::
  "('f \<Rightarrow> (poll_poller, 'w) reactor \<Rightarrow> bool) \<Rightarrow> 'f signal_block \<Rightarrow> (poll_poller, 'w) reactor \<Rightarrow> instant \<Rightarrow> bool" where
  "signal_inv I (Sig_Waiting rx s start) r c \<longleftrightarrow> timer_fits (to_timer s) r c \<and> I (to_fut s) r
     \<and> as_source rx \<in> dom (source_data r) \<and> start + int (10 * NANOS) \<le> tm_expiry (to_timer s)"
| "signal_inv I _ r c \<longleftrightarrow> False"

text \<open>What it prints: that it timed out only after ten thousand milliseconds.\<close>

fun signal_output :: "unit res \<times> line list \<Rightarrow> bool" where
  "signal_output (Ok _, out) \<longleftrightarrow> (\<exists>ms. out = [Waiting_for_ctrl_C, Done_after ms]
     \<or> out = [Waiting_for_ctrl_C, Timed_out_after ms] \<and> 10000 \<le> ms)"
| "signal_output (_, out) \<longleftrightarrow> out = [Waiting_for_ctrl_C]"

lemma Timer_poll_sources:
  "Timer_poll os w t r k = Some (p, t', r', k') \<Longrightarrow> event_sources r' = event_sources r"
  by (auto simp: Timer_poll_def Timer_poll_at_def cancel_taken_def Reactor_cancel_timer_def Timer_register_sources
      split: prod.splits if_splits option.splits)

lemma signal_return_registered:
  assumes "as_source rx \<in> dom (source_data r)"
  shows "\<exists>r'. signal_return S (PollPoller os N T) rx res out r k =
    (Ready (res, out), Sig_Done, r', sg_close S (as_inner rx) k)"
  using assms by (auto simp: signal_return_def Async_drop_def GuardedSource_drop_def ppoll.deregister_registered
      stream_handle_def dom_def)

context signal_run
begin

lemma elapsed_time:
  assumes "elapsed_millis os start k = (ms, k')"
  shows "clock k \<le> clock k'" "clock k' \<le> clock k + int lat"
    "start + int (10 * NANOS) \<le> clock k \<Longrightarrow> 10000 \<le> ms"
proof -
  obtain now where now: "sys_now os k = (now, k')" and ms: "ms = nat (now - start) div MILLI"
    using assms by (auto simp: elapsed_millis_def saturating_duration_since_def split: prod.splits)
  note t = now_time [OF now]
  show "clock k \<le> clock k'" "clock k' \<le> clock k + int lat" using t by simp_all
  show "10000 \<le> ms" if "start + int (10 * NANOS) \<le> clock k"
  proof -
    have "10 * NANOS \<le> nat (now - start)" using that t by linarith
    then have "10 * NANOS div MILLI \<le> ms" unfolding ms by (rule div_le_mono)
    then show ?thesis by (simp add: NANOS_def MILLI_def)
  qed
qed

lemma timeout_sources:
  assumes "Timeout_poll os F w s r k = Some (p, s', r', k')" "reactor_ok r" "I (to_fut s) r"
  shows "dom (source_data r') = dom (source_data r)"
proof -
  obtain q f' r1 k1 where F: "F w (to_fut s) r k = Some (q, f', r1, k1)"
    using assms(1) by (auto simp: Timeout_poll_def bind_eq_Some_conv)
  note k1 = keeps_sources [OF F assms(2,3)]
  show ?thesis
  proof (cases q)
    case Pending
    then obtain q' t' where "Timer_poll os w (to_timer s) r1 k1 = Some (q', t', r', k')"
      using assms(1) F by (auto simp: Timeout_poll_def)
    then show ?thesis using Timer_poll_sources k1 by metis
  qed (use assms(1) F k1 in \<open>auto simp: Timeout_poll_def\<close>)
qed

lemma return_time:
  assumes "as_source rx \<in> dom (source_data r)" "signal_output (res, out)" "clock k + int close_cost \<le> lim"
  shows "\<exists>p st' r' k'. Some (signal_return S (PollPoller os N T) rx res out r k) = Some (p, st', r', k')
    \<and> clock k \<le> clock k' \<and> clock k' \<le> lim \<and> (\<exists>v. p = Ready v \<and> signal_output v)"
  using signal_return_registered [OF assms(1), of S os N T res out k] close_time [of k "as_inner rx"] assms(2,3) by auto

lemma await_time:
  assumes inv: "signal_inv I (Sig_Waiting rx s start) r (clock k)"
  shows "\<exists>p st' r' k'. signal_await os S (PollPoller os N T) F w rx s start r k = Some (p, st', r', k')
    \<and> clock k \<le> clock k' \<and> clock k' \<le> clock k + int (cost + 2 * lat + close_cost)
    \<and> (case p of
         Ready v \<Rightarrow> signal_output v
       | Pending \<Rightarrow> clock k < tm_expiry (to_timer s) \<and> signal_due st' = tm_expiry (to_timer s)
           \<and> signal_inv I st' r' (clock k') \<and> (\<exists>i u. tarmed r' (tm_expiry (to_timer s), i) = Some u))"
proof -
  have I: "timer_fits (to_timer s) r (clock k) \<and> I (to_fut s) r" using inv by simp
  obtain p s' r1 k1 where P: "Timeout_poll os F w s r k = Some (p, s', r1, k1)"
    and c: "clock k \<le> clock k1" "clock k1 \<le> clock k + int (cost + lat)"
    and p: "case p of Ready v \<Rightarrow> v = Inl TimedOut \<longrightarrow> tm_expiry (to_timer s) \<le> clock k1
      | Pending \<Rightarrow> clock k < tm_expiry (to_timer s) \<and> tm_expiry (to_timer s') = tm_expiry (to_timer s)
          \<and> (timer_fits (to_timer s') r1 (clock k1) \<and> I (to_fut s') r1)
          \<and> (\<exists>i u. tarmed r1 (tm_expiry (to_timer s), i) = Some u)"
    using timeout.polls [OF I] by blast
  have dom: "as_source rx \<in> dom (source_data r1)" using timeout_sources [OF P] inv by (auto simp: timer_fits_def)
  show ?thesis
  proof (cases p)
    case Pending
    then show ?thesis using P c p dom inv by (auto simp: signal_await_def)
  next
    case (Ready v)
    let ?r2 = "Timer_drop (to_timer s') r1"
    have dom2: "as_source rx \<in> dom (source_data ?r2)"
      using dom by (simp add: Timer_drop_def cancel_taken_def Reactor_cancel_timer_def split: option.splits)
    obtain ms k2 where el: "elapsed_millis os start k1 = (ms, k2)" by fastforce
    note e = elapsed_time [OF el]
    obtain res out k3 where ret: "signal_await os S (PollPoller os N T) F w rx s start r k =
        Some (signal_return S (PollPoller os N T) rx res out ?r2 k3)" "signal_output (res, out)"
        "clock k1 \<le> clock k3" "clock k3 \<le> clock k1 + int lat"
    proof (cases v)
      case (Inl t)
      then have "10000 \<le> ms" using e(3) p Ready inv by (cases t) simp
      then show thesis using Inl P Ready el e by (intro that [of "Ok ()" "[Waiting_for_ctrl_C, Timed_out_after ms]" k2])
        (simp_all add: signal_await_def Let_def)
    next
      case (Inr x)
      then show thesis using P Ready el e
        by (cases x; intro that [of "case x of Ok _ \<Rightarrow> Ok () | _ \<Rightarrow> x"
              "Waiting_for_ctrl_C # (case x of Ok _ \<Rightarrow> [Done_after ms] | _ \<Rightarrow> [])" "case x of Ok _ \<Rightarrow> k2 | _ \<Rightarrow> k1"])
          (simp_all add: signal_await_def Let_def)
    qed
    from return_time [OF dom2 ret(2), of k3 "clock k + int (cost + 2 * lat + close_cost)"] show ?thesis
      using ret c by auto
  qed
qed

end

sublocale signal_run \<subseteq> signal: deadline_future os N T clock lat slack
    "signal_main target os S (PollPoller os N T) F" w signal_due "signal_inv I" "cost + 2 * lat + close_cost"
    "\<lambda>v d c. signal_output v" for target
proof (unfold_locales, goal_cases)
  case (1 st r k)
  then obtain rx s start where st: "st = Sig_Waiting rx s start" by (cases st) auto
  from await_time [OF 1 [unfolded st]] show ?case unfolding st signal_main_def signal_block.case signal_due.simps .
next
  case (2 st r c)
  then show ?case by (cases st) (auto simp: timer_fits_def)
next
  case (3 st r c r' c')
  then obtain rx s start where st: "st = Sig_Waiting rx s start" by (cases st) auto
  have "timer_fits (to_timer s) r' c'" using timer_fits_wait 3 st by (metis signal_inv.simps(1))
  moreover have "I (to_fut s) r'" using inner_keeps [of "to_fut s" r r'] 3 st by (simp add: wait_leaves_def)
  ultimately show ?case using 3 st by (simp add: wait_leaves_def)
qed

section \<open>Properties\<close>

lemma Async_new_registered:
  assumes "reactor_ok r" "Async_new target os (PollPoller os' N T) H inner r k = (Ok a, r2, k2)"
  shows "reactor_ok r2" "as_source a \<in> dom (source_data r2)" "timer_queue r2 = timer_queue r"
  using assms reactor_ok_register_event [OF assms(1), of "PollPoller os' N T" "h_as_fd H inner"]
    ppoll.register_fresh [OF assms(1), of "h_as_fd H inner" os' N T] ppoll.register_again [OF assms(1), of "h_as_fd H inner" os' N T]
  by (cases "source_data r (h_as_fd H inner)";
      auto simp: Async_new_def Async_without_nonblocking_def Let_def split: prod.splits res.splits)+

context signal_run
begin

lemma signal_completes:
  assumes r: "reactor_ok r" "timer_count r < 2 ^ 64 - 2"
    and made: "sg_pair S (kernel n) = (Inr (tx, rx), k1)"
      "Async_new target os (PollPoller os N T) (stream_handle S) rx r k1 = (Ok a, r2, k2)"
      "sg_register S tx k2 = (Inr (), k3)" "sys_now os k3 = (start, k4)"
      "timeout_rs os (sg_read_exact S a) (10 * NANOS) k4 = (Ok s, k5)"
  shows "completes clock (\<lambda>v c. signal_output v) True
      (clock k3 + int (10 * NANOS) + 2 * int (cost + close_cost) + int slack + 11 * int lat)
      (block_on (PollPoller os N T) os N (\<lambda>_. Notifier_wake N) (main_of (signal_main target os S (PollPoller os N T) F) w)
        Sig_Start r n)"
proof -
  let ?EP = "PollPoller os N T" and ?n5 = "n\<lparr>kernel := k5\<rparr>"
  obtain t where t: "Timer_delay os (10 * NANOS) k4 = (Ok t, k5)" "s = \<lparr>to_timer = t, to_fut = sg_read_exact S a\<rparr>"
    using made(5) by (auto simp: timeout_rs_def elim: bind_res.elims split: prod.splits)
  note D = delay_clock [OF t(1)] and now = now_time [OF made(4)] and A = Async_new_registered [OF r(1) made(2)]
  have inv: "signal_inv I (Sig_Waiting a s start) r2 (clock (kernel ?n5))"
    using t(2) timer_fits_new [OF A(1) _ D(1)] A(3) r(2) A(2) reader_starts [OF A(2)] D(2) now by simp
  have "main_of (signal_main target os S ?EP F) w Sig_Start r n =
      main_of (signal_main target os S ?EP F) w (Sig_Waiting a s start) r2 ?n5"
    using made by (simp add: main_of_def signal_main_def option.map_comp comp_def split_def)
  then have start: "block_on ?EP os N (\<lambda>_. Notifier_wake N) (main_of (signal_main target os S ?EP F) w) Sig_Start r n =
      block_on ?EP os N (\<lambda>_. Notifier_wake N) (main_of (signal_main target os S ?EP F) w) (Sig_Waiting a s start) r2 ?n5"
    by (subst (1 2) block_on.simps) simp
  show ?thesis unfolding start
    by (rule completes_mono [OF signal.block_on_in_time [OF inv refl]]) (use D now t(2) in auto)
qed

end

text \<open>
  C39: The program of \<open>examples/unix-signal.rs\<close>, once the pair of sockets is made and registered and
  the handler installed, ends: at the latest ten seconds later, plus the rounding of the wait,
  two polls of the read and a few system calls. It returns what it printed: that it is done,
  or, at ten thousand milliseconds or more, that it timed out, or it returns the error of the read.
  The loop may also end in a panic of \<open>wait\<close>, when \<open>poll\<close> reports the byte together with one of its own descriptors.
\<close>

theorem signal_example_ends:
  assumes "timed_system os clock lat" "unix_build os N T" "signal_reader clock F w I cost S close_cost"
    and "reactor_ok r" "timer_count r < 2 ^ 64 - 2"
    and "sg_pair S (kernel n) = (Inr (tx, rx), k1)"
      "Async_new target os (PollPoller os N T) (stream_handle S) rx r k1 = (Ok a, r2, k2)"
      "sg_register S tx k2 = (Inr (), k3)" "sys_now os k3 = (start, k4)"
      "timeout_rs os (sg_read_exact S a) (10 * NANOS) k4 = (Ok s, k5)"
  shows "\<exists>res r' n'. block_on (PollPoller os N T) os N (\<lambda>_. Notifier_wake N)
        (main_of (signal_main target os S (PollPoller os N T) F) w) Sig_Start r n = Some (res, r', n')
    \<and> clock (kernel n') \<le> clock k3 + int (10 * NANOS) + 2 * int (cost + close_cost) + int (build_slack T) + 11 * int lat
    \<and> (case res of Ok v \<Rightarrow> signal_output v | Err e \<Rightarrow> False | Panic m \<Rightarrow> True)"
proof -
  have "signal_run os N T clock lat (build_slack T) F w I cost S close_cost"
    by (intro signal_run.intro timed_timeout.intro timed_system.build_wait [OF assms(1,2)] assms(3)
        signal_reader.axioms(1) [OF assms(3)])
  from signal_run.signal_completes [OF this assms(4-10)] show ?thesis by (simp add: completes_def)
qed

section \<open>On the simulated kernel\<close>

text \<open>A pipe for the sockets, and a read that ends when its object is readable.\<close>

definition sim_signal :: "(fd async \<times> wait_event, sim_kernel) signal_calls" where
  "sim_signal = \<lparr>
     sg_pair = (\<lambda>k. case sim_pipe k of (Inr (r, w), k1) \<Rightarrow> (Inr (w, r), k1) | (Inl e, k1) \<Rightarrow> (Inl e, k1)),
     sg_register = (\<lambda>_ k. (Inr (), k)), sg_close = (\<lambda>_ k. k), sg_read_exact = (\<lambda>a. (a, First_Call))\<rparr>"

interpretation sim_reader: signal_reader sk_now "readable_future (PollPoller os N T)" w
    "\<lambda>f r. as_source (fst f) \<in> dom (source_data r)" 0 sim_signal 0
  for os :: "sim_kernel os" and N T and w :: 'w
proof (unfold_locales, goal_cases)
  case (1 f r k p f' r' k')
  then obtain d where "source_data r (as_source (fst f)) = Some d" by auto
  from readable_future_poll [OF 1(2) this, of os N T w "snd f" k] 1(1) show ?case by auto
qed (simp_all add: sim_signal_def)

interpretation sim_signal_run: signal_run sim_os "EventFd sim_os nfd" "TimerFd sim_os tfd" sk_now 1 1
    "readable_future (PollPoller sim_os (EventFd sim_os nfd) (TimerFd sim_os tfd))" w
    "\<lambda>f r. as_source (fst f) \<in> dom (source_data r)" 0 sim_signal 0
  for nfd tfd and w :: 'w
  by (intro signal_run.intro sim_readable.timed_timeout_axioms sim_reader.signal_reader_axioms)

theorem signal_example_ends_witness:
  "\<exists>res r' n'. block_on sim_P sim_os sim_N (\<lambda>_. Notifier_wake sim_N)
      (main_of (signal_main Linux_Android sim_os sim_signal sim_P (readable_future sim_P)) ()) Sig_Start
      (Reactor_new \<lparr>pollfds = []\<rparr>) \<lparr>kernel = sys_start, is_notified = False\<rparr> = Some (res, r', n')
    \<and> sk_now (kernel n') \<le> sk_now sys_start + int (10 * NANOS) + 13"
proof -
  let ?r = "Reactor_new \<lparr>pollfds = []\<rparr> :: (poll_poller, unit) reactor" and ?n = "\<lparr>kernel = sys_start, is_notified = False\<rparr>"
  let ?k1 = "snd (sim_pipe sys_start)" and ?a = "\<lparr>as_source = 5, as_inner = 5\<rparr>"
  let ?t = "\<lparr>to_timer = Timer_at (sk_now ?k1 + int (10 * NANOS)), to_fut = (?a, First_Call)\<rparr>"
  have u: "unix_build sim_os sim_N (TimerFd sim_os 4)" by (auto simp: unix_build_def)
  have pair: "sg_pair sim_signal (kernel ?n) = (Inr (6, 5), ?k1)"
    by (simp add: sim_signal_def sim_pipe_def sys_start_def Let_def)
  have new: "Async_new Linux_Android sim_os sim_P (stream_handle sim_signal) 5 ?r ?k1 =
      (Ok ?a, ?r\<lparr>event_sources := bt_put 5 EventData_default (event_sources ?r)\<rparr>, ?k1)"
    using ppoll.register_fresh [OF reactor_ok_new, of "\<lparr>pollfds = []\<rparr>" 5 sim_os sim_N "TimerFd sim_os 4", where 'a = unit]
    by (simp add: Async_new_def set_nonblocking_def sim_os_def Async_without_nonblocking_def stream_handle_def Reactor_new_def)
  have reg: "sg_register sim_signal 6 ?k1 = (Inr (), ?k1)" by (simp add: sim_signal_def)
  have now: "sys_now sim_os ?k1 = (sk_now ?k1, ?k1)" by (simp add: sim_os_def)
  have time: "timeout_rs sim_os (sg_read_exact sim_signal ?a) (10 * NANOS) ?k1 = (Ok ?t, ?k1)"
    by (simp add: timeout_rs_def Timer_delay_def sim_os_def instant_add_def sim_signal_def sim_pipe_def sim_set_def sim_tick_def
        sys_start_def test_start_def INSTANT_MAX_def NANOS_def Let_def)
  have "sk_now ?k1 = sk_now sys_start + 1" by (simp add: sim_pipe_def sim_set_def sim_tick_def Let_def)
  then show ?thesis
    using signal_example_ends [OF sim.timed_system_axioms u sim_reader.signal_reader_axioms reactor_ok_new _ pair new reg now time]
    by (fastforce simp: build_slack_def TimerFd_def)
qed

end
