(* ===== verification/Spec2Isabelle.thy ===== *)
theory Spec2Isabelle
  imports Timers Merge Runtime Unit_Tests Hyper_Adapter Signal_Example
begin

text \<open>
  A verification of the thread-local asynchronous runtime \<open>local-runtime\<close>.

  \<^bold>\<open>The program.\<close> A thread has one reactor. Futures register timers and I/O interests with it,
  each with a waker; \<open>block_on\<close> polls a future and, whenever it is pending, calls \<open>wait\<close>, which
  blocks in the operating system until an event, a timer or a notification, and calls the
  wakers. An executor is itself a future: it keeps spawned tasks, each with a task waker that
  queues the task and wakes the executor's own waker, and polls the queued tasks. Timers,
  I/O objects, \<open>join\<close> and the two merges are futures and streams on top of this.

  \<^bold>\<open>Theories and sources\<close> (files under \<open>src/src\<close>).

  \<^item> \<open>Runtime_Base\<close>: \<open>Poll\<close>, outcomes (\<open>Ok\<close>, \<open>Err\<close>, panic), instants and durations in
    nanoseconds, \<open>BTreeMap\<close> as the sorted list of its entries behind the locale
    \<open>btree_map\<close>, the flag contract \<open>once_flag\<close>, and invariants of reachable states
    (\<open>step_system\<close>).
  \<^item> \<open>Timer_Queue\<close>: \<open>Id\<close> of \<open>lib.rs\<close> and \<open>TimerQueue\<close> of \<open>time.rs\<close>. Registering returns with a
    fresh key and cancelling undoes it; clearing takes exactly the expired timers, in order;
    identifiers wrap around within the non-zero words.
  \<^item> \<open>Notifier\<close>: the system calls as one record over an arbitrary kernel, \<open>set_nonblocking\<close> of
    \<open>io.rs\<close>, \<open>EventFd\<close> and \<open>PipeFd\<close> of \<open>reactor/unix.rs\<close>, \<open>WithFlag\<close> of \<open>reactor.rs\<close>.
  \<^item> \<open>Poller\<close>: \<open>PollPoller\<close>, \<open>PollTimeout\<close> and \<open>TimerFd\<close> of \<open>reactor/unix.rs\<close>. A wait is never cut
    short, within the bounds of the machine types (locale \<open>wait_limit\<close>, both mechanisms).
  \<^item> \<open>Reactor\<close>: \<open>Reactor\<close> of \<open>reactor.rs\<close>. What \<open>wait\<close> wakes, in which order, when it panics
    and when it fails; the locales \<open>timer_store\<close> and \<open>passive_poller\<close> are what the futures use.
  \<^item> \<open>Reactor_Spec\<close>: the abstract specification of the reactor, a set of sources and at most one
    waker per armed slot, and the refinement of the reactor to it over both Unix notifiers
    and timeout mechanisms (locales \<open>side_world\<close>, \<open>logged_reactor\<close>). Through it: a waker is
    called at most as often as it was handed in, and a slot stays armed until it is woken,
    replaced or given up.
  \<^item> \<open>Externals\<close>: \<open>AtomicWaker\<close>, \<open>ConcurrentQueue\<close> and \<open>Slab\<close>, code of other crates, as
    parameters with their documented laws.
  \<^item> \<open>Timers\<close>: \<open>Timer\<close>, \<open>Periodic\<close>, \<open>Timeout\<close> and \<open>TimedOut\<close> of \<open>time.rs\<close>, one poll at a time, and
    the system of all timers of a thread: the armed timers are exactly the waiting futures.
  \<^item> \<open>Concurrency\<close> and \<open>Merge\<close>: \<open>FlagWaker\<close>, \<open>JoinFuture\<close>, \<open>MergeFutureStream\<close> and \<open>MergeStream\<close> of
    \<open>concurrency.rs\<close>, and the macros that build them: what they return, and that no wakeup of an inner future is lost.
  \<^item> \<open>Wake_Queue\<close>, \<open>Executor\<close> and \<open>Executor_Run\<close>: \<open>WakeQueue\<close>, \<open>TaskWaker\<close>, \<open>Task\<close>, \<open>Executor\<close> and
    \<open>TaskHandle\<close> of \<open>lib.rs\<close>. No wakeup is lost in the life of an executor; polling the queue
    ends; cancelling, delivering results and completing do what they should.
  \<^item> \<open>Executor_Drain\<close>: a reference for \<open>poll_tasks\<close>, which empties the wake queue first and
    handles its identifiers one by one, and that the code is equivalent to it.
  \<^item> \<open>Wake_Protocol\<close>: \<open>block_on\<close> of \<open>lib.rs\<close>, and the interleaving of \<open>wait\<close> with notifications
    from other threads, one shared-memory operation per step.
  \<^item> \<open>Async_IO\<close>: \<open>Async\<close> of \<open>io.rs\<close> with its \<open>AsyncRead\<close>, \<open>AsyncWrite\<close> and \<open>AsyncBufRead\<close>
    implementations. Every outcome of a poll; registration and its round trip; a pending
    operation is woken by its event. The locales \<open>io_closure\<close> and \<open>io_polling\<close> say what the
    operation under \<open>poll_event\<close> has to keep.
  \<^item> \<open>Async_Net\<close>: listeners, streams and datagram sockets of \<open>io.rs\<close>, with the future of
    \<open>connect\<close> as a state machine that leaks neither a socket nor a registration.
  \<^item> \<open>IO_System\<close>: all I/O objects of a thread. The registered sources are exactly the
    descriptors of the live objects, so no operation on one panics.
  \<^item> \<open>Runtime\<close>: \<open>Executor::block_on\<close>, the executor over the reactor. It does not block with a
    task queued, and an event or an expired timer of a task reaches the wake queue of the
    executor.
  \<^item> \<open>Deadlines\<close>: the whole stack against the clock. Over a system whose calls take bounded time
    (locale \<open>timed_system\<close>) both Unix builds wait neither too short nor too long (\<open>timed_wait\<close>), and
    \<open>block_on\<close> of a future that is due at a deadline (\<open>deadline_future\<close>: timers, timeouts) returns in time.
  \<^item> \<open>Reactor_Tests\<close>, \<open>Timer_Tests\<close>, \<open>Executor_Tests\<close>, \<open>Poller_Tests\<close>, \<open>System_Tests\<close>, \<open>Thread_Tests\<close>,
    \<open>Tcp_Tests\<close> and \<open>Unit_Tests\<close>: the mocks of \<open>test.rs\<close> and \<open>reactor.rs\<close>, a simulated kernel with
    sleeping threads and a loopback network, and the unit tests of the crate as lists of
    statements over the model. All of them pass: the model does what the authors expect of
    the code on every input they thought of.
  \<^item> \<open>Hyper_Adapter\<close>: \<open>HyperIo\<close> of \<open>src/examples/hyper.rs\<close>, the client of \<open>AsyncRead\<close> and
    \<open>AsyncWrite\<close> that the repository has, over the cursor contract \<open>buf_cursor\<close>.
  \<^item> \<open>Signal_Example\<close>: the program of \<open>src/examples/unix-signal.rs\<close>, from \<open>main\<close> to the system calls. It ends
    in time and prints the truth.

  \<^bold>\<open>Correspondence.\<close> A struct is a record, an enum a datatype, a method a definition that takes
  the receiver and the state it changes and returns them. The thread-local reactor and the
  kernel are passed explicitly. An \<open>io::Result\<close> that may also panic is a \<open>res\<close>; \<open>Poll\<close> is
  \<open>poll\<close>. An \<open>async fn\<close> is the state machine of its suspension points; polled after it has
  returned it panics. The code for Linux and Android and for other Unix systems is selected
  by a value of \<open>target_os\<close>, or stands in two definitions. What a user's future does in one
  poll is a parameter: a function on the state, or for tasks of an executor a tree of calls
  into the executor and operations on the reactor and the kernel.
  A waker is a value; calling it is a function on the notifier's world.

  \<^bold>\<open>Loops.\<close> \<open>TimerQueue_register\<close> and \<open>block_on\<close> are partial functions, where \<open>None\<close> is a loop that
  does not end; the first is proved to return while fewer timers are armed than there are
  identifiers, the second when its future completes, and in bounded time for sleeps, timeouts
  and the signal example. \<open>WakeQueue_reset\<close> pops the concurrent
  queue with as much fuel as it has elements and one more, which is proved enough. The other
  loops run over lists or a number of rounds fixed at their start.

  \<^bold>\<open>Bounds.\<close> Identifiers and task numbers are 64-bit words, buffers are lists of 8-bit words,
  addresses and ports are words of their width. Durations and instants are unbounded numbers
  of nanoseconds with the overflow of \<open>Instant + Duration\<close> written out; the arguments of the
  system calls are saturated as in the code.

  \<^bold>\<open>Not modelled.\<close> Formatting of messages other than that of \<open>TimedOut\<close>, and logging; \<open>IoSafe\<close>,
  a marker trait; \<open>Send\<close> and \<open>Sync\<close>, and weak memory, since the protocol is sequentially
  consistent; the capacity hints of the constructors; polling \<open>run\<close> from inside a future of
  the same executor, which is documented to panic for tasks; a panic raised by the user's own
  code; the \<open>main\<close> of the \<open>hyper\<close> example, whose work is done inside \<open>hyper\<close>.
\<close>

end
